(* ===== verification/Prelude.thy ===== *)
theory Prelude
  imports
    "HOL-Library.Word"
    "HOL-Library.FSet"
    "HOL-Library.List_Lexorder"
    "HOL-Library.Char_ord"
begin

text \<open>
  Shared vocabulary of the development.

  \<^item> Machine integers are words of the width the source declares; the saturating and checked
    operations of Rust's standard library are defined here with their numeric meaning.
  \<^item> A Rust \<open>String\<close> is its list of UTF-8 bytes (\<open>string\<close>); the library's lexicographic
    order on it is the byte order of Rust's \<open>Ord\<close>.
  \<^item> A \<open>BTreeMap\<close> is a list of entries with strictly ascending keys (\<open>btmap\<close>), so that
    iteration has the order of the source and two maps with the same entries are equal;
    a \<open>BTreeSet\<close> is a finite set (\<open>fset\<close>), iterated through \<open>sorted_list_of_fset\<close>.
  \<^item> A \<open>Result\<close> is a sum (\<open>Inl\<close> the error). A method on \<open>&mut self\<close> returns its
    \<open>Result\<close> together with the state it leaves behind, on the error paths too
    (\<open>outcome\<close>), so that whether a failed call changes the state can be stated.
\<close>

section \<open>Machine integers\<close>

type_synonym u8 = "8 word"
type_synonym u16 = "16 word"
type_synonym u32 = "32 word"
type_synonym u64 = "64 word"
type_synonym i32 = "32 word"

named_theorems machine_int \<open>numeric meaning of saturating and checked word operations\<close>

definition word_max :: "'a::len word" where
  "word_max = - 1"

definition sat_add :: "'a::len word \<Rightarrow> 'a word \<Rightarrow> 'a word" where
  "sat_add a b = (if unat a + unat b < 2 ^ LENGTH('a) then a + b else word_max)"

definition sat_sub :: "'a::len word \<Rightarrow> 'a word \<Rightarrow> 'a word" where
  "sat_sub a b = (if b \<le> a then a - b else 0)"

definition sat_mul :: "'a::len word \<Rightarrow> 'a word \<Rightarrow> 'a word" where
  "sat_mul a b = (if unat a * unat b < 2 ^ LENGTH('a) then a * b else word_max)"

definition checked_add :: "'a::len word \<Rightarrow> 'a word \<Rightarrow> 'a word option" where
  "checked_add a b = (if unat a + unat b < 2 ^ LENGTH('a) then Some (a + b) else None)"

definition checked_sub :: "'a::len word \<Rightarrow> 'a word \<Rightarrow> 'a word option" where
  "checked_sub a b = (if b \<le> a then Some (a - b) else None)"

text \<open>Rust's \<open>checked_shl\<close> fails on the shift distance, never on lost bits.\<close>

definition checked_shl :: "'a::len word \<Rightarrow> u32 \<Rightarrow> 'a word option" where
  "checked_shl a n = (if unat n < LENGTH('a) then Some (push_bit (unat n) a) else None)"

definition to_be_bytes :: "u64 \<Rightarrow> u8 list" where
  "to_be_bytes w = map (\<lambda>i. ucast (drop_bit (8 * i) w)) [7, 6, 5, 4, 3, 2, 1, 0]"

text \<open>Evaluation compares integers, whose numerals are binary.\<close>

lemma machine_int_code [code]:
  "sat_add a b = (if uint a + uint b < 2 ^ LENGTH('a) then a + b else word_max)"
  "sat_mul a b = (if uint a * uint b < 2 ^ LENGTH('a) then a * b else word_max)"
  "checked_add a b = (if uint a + uint b < 2 ^ LENGTH('a) then Some (a + b) else None)"
  for a b :: "'a::len word"
proof -
  have "int (unat a + unat b) < int (2 ^ LENGTH('a)) \<longleftrightarrow> uint a + uint b < 2 ^ LENGTH('a)"
    "int (unat a * unat b) < int (2 ^ LENGTH('a)) \<longleftrightarrow> uint a * uint b < 2 ^ LENGTH('a)"
    by simp_all
  then show "sat_add a b = (if uint a + uint b < 2 ^ LENGTH('a) then a + b else word_max)"
    "sat_mul a b = (if uint a * uint b < 2 ^ LENGTH('a) then a * b else word_max)"
    "checked_add a b = (if uint a + uint b < 2 ^ LENGTH('a) then Some (a + b) else None)"
    unfolding sat_add_def sat_mul_def checked_add_def of_nat_less_iff by simp_all
qed

lemma unat_word_max [simp]: "unat (word_max :: 'a::len word) = 2 ^ LENGTH('a) - 1"
  by (simp add: word_max_def unsigned_minus_1_eq_mask mask_eq_exp_minus_1)

lemma unat_bounded: "unat (w :: 'a::len word) < 2 ^ LENGTH('a)"
  by (rule unsigned_less)

lemma unat_sat_add [machine_int]:
  "unat (sat_add a b) = min (unat a + unat b) (2 ^ LENGTH('a) - 1)" for a b :: "'a::len word"
  by (auto simp: sat_add_def unat_word_ariths not_less min_def)

lemma unat_sat_sub [machine_int]: "unat (sat_sub a b) = unat a - unat b"
  by (simp add: sat_sub_def unat_sub word_le_nat_alt)

lemma unat_sat_mul [machine_int]:
  "unat (sat_mul a b) = min (unat a * unat b) (2 ^ LENGTH('a) - 1)" for a b :: "'a::len word"
proof (cases "unat a * unat b < 2 ^ LENGTH('a)")
  case True
  then show ?thesis
    by (simp add: sat_mul_def unat_word_ariths)
next
  case False
  then show ?thesis
    by (simp add: sat_mul_def)
qed

lemma checked_add_Some_iff [machine_int]:
  "checked_add a b = Some c \<longleftrightarrow> unat c = unat a + unat b" for a b c :: "'a::len word"
proof
  assume "checked_add a b = Some c"
  then show "unat c = unat a + unat b"
    by (auto simp: checked_add_def unat_word_ariths split: if_splits)
next
  assume c: "unat c = unat a + unat b"
  then have "unat a + unat b < 2 ^ LENGTH('a)"
    by (metis unat_bounded)
  moreover from this c have "c = a + b"
    by (simp add: word_unat_eq_iff unat_word_ariths)
  ultimately show "checked_add a b = Some c"
    by (simp add: checked_add_def)
qed

lemma checked_sub_None_iff [machine_int]: "checked_sub a b = None \<longleftrightarrow> a < b"
  by (auto simp: checked_sub_def)

lemma checked_sub_Some_unat [machine_int]:
  "checked_sub a b = Some c \<Longrightarrow> unat c = unat a - unat b \<and> b \<le> a"
  by (auto simp: checked_sub_def unat_sub word_le_nat_alt split: if_splits)

section \<open>Ordered maps\<close>

typedef (overloaded) ('k::linorder, 'v) btmap =
  "{xs :: ('k \<times> 'v) list. sorted_wrt (<) (map fst xs)}"
  morphisms bt_entries Abs_btmap
  by (rule exI [of _ "[]"]) simp

setup_lifting type_definition_btmap

fun ins_entry :: "'k::linorder \<Rightarrow> 'v \<Rightarrow> ('k \<times> 'v) list \<Rightarrow> ('k \<times> 'v) list" where
  "ins_entry k v [] = [(k, v)]"
| "ins_entry k v ((k', v') # xs) =
     (if k < k' then (k, v) # (k', v') # xs
      else if k = k' then (k, v) # xs
      else (k', v') # ins_entry k v xs)"

lemma fst_ins_entry: "fst ` set (ins_entry k v xs) = insert k (fst ` set xs)"
  by (induction k v xs rule: ins_entry.induct) auto

lemma sorted_ins_entry:
  "sorted_wrt (<) (map fst xs) \<Longrightarrow> sorted_wrt (<) (map fst (ins_entry k v xs))"
  by (induction k v xs rule: ins_entry.induct) (auto simp: fst_ins_entry)

lemma sorted_filter_entries:
  "sorted_wrt (<) (map fst xs) \<Longrightarrow> sorted_wrt (<) (map fst (filter P xs))"
  by (induction xs) auto

lift_definition bt_empty :: "('k::linorder, 'v) btmap" is "[]"
  by simp

lift_definition bt_insert :: "'k::linorder \<Rightarrow> 'v \<Rightarrow> ('k, 'v) btmap \<Rightarrow> ('k, 'v) btmap"
  is ins_entry
  by (rule sorted_ins_entry)

lift_definition bt_remove :: "'k::linorder \<Rightarrow> ('k, 'v) btmap \<Rightarrow> ('k, 'v) btmap"
  is "\<lambda>k. filter (\<lambda>e. fst e \<noteq> k)"
  by (rule sorted_filter_entries)

lift_definition bt_filter :: "('k \<times> 'v \<Rightarrow> bool) \<Rightarrow> ('k::linorder, 'v) btmap \<Rightarrow> ('k, 'v) btmap"
  is filter
  by (rule sorted_filter_entries)

lift_definition bt_map_values :: "('v \<Rightarrow> 'w) \<Rightarrow> ('k::linorder, 'v) btmap \<Rightarrow> ('k, 'w) btmap"
  is "\<lambda>f. map (\<lambda>e. (fst e, f (snd e)))"
  by (simp add: o_def)

definition bt_get :: "('k::linorder, 'v) btmap \<Rightarrow> 'k \<Rightarrow> 'v option" where
  "bt_get m k = map_of (bt_entries m) k"

definition bt_keys :: "('k::linorder, 'v) btmap \<Rightarrow> 'k list" where
  "bt_keys m = map fst (bt_entries m)"

definition bt_values :: "('k::linorder, 'v) btmap \<Rightarrow> 'v list" where
  "bt_values m = map snd (bt_entries m)"

definition bt_contains_key :: "('k::linorder, 'v) btmap \<Rightarrow> 'k \<Rightarrow> bool" where
  "bt_contains_key m k = (bt_get m k \<noteq> None)"

text \<open>Writing through \<open>get_mut\<close>: the entry is replaced when it is there.\<close>

definition bt_modify :: "'k::linorder \<Rightarrow> ('v \<Rightarrow> 'v) \<Rightarrow> ('k, 'v) btmap \<Rightarrow> ('k, 'v) btmap" where
  "bt_modify k f m = (case bt_get m k of None \<Rightarrow> m | Some v \<Rightarrow> bt_insert k (f v) m)"

definition bt_get_or :: "'v \<Rightarrow> ('k::linorder, 'v) btmap \<Rightarrow> 'k \<Rightarrow> 'v" where
  "bt_get_or d m k = (case bt_get m k of None \<Rightarrow> d | Some v \<Rightarrow> v)"

lemma sorted_entries: "sorted_wrt (<) (map fst (bt_entries m))"
  using bt_entries [of m] by simp

lemma strict_sorted_distinct: "sorted_wrt (<) (xs :: 'a::linorder list) \<Longrightarrow> distinct xs"
  by (induction xs) auto

lemma bt_entries_distinct: "distinct (map fst (bt_entries m))"
  using strict_sorted_distinct sorted_entries by blast

lemma map_of_ins_entry:
  "sorted_wrt (<) (map fst xs) \<Longrightarrow> map_of (ins_entry k v xs) = (map_of xs)(k \<mapsto> v)"
  by (induction k v xs rule: ins_entry.induct) auto

lemma map_of_filter_key:
  "map_of (filter (\<lambda>e. fst e \<noteq> k) xs) = (map_of xs)(k := None)"
  by (induction xs) auto

lemma bt_get_empty [simp]: "bt_get bt_empty k = None"
  by (simp add: bt_get_def bt_empty.rep_eq)

lemma bt_get_insert: "bt_get (bt_insert k v m) = (bt_get m)(k \<mapsto> v)"
  by (simp add: fun_eq_iff bt_get_def bt_insert.rep_eq map_of_ins_entry sorted_entries)

lemma bt_get_remove: "bt_get (bt_remove k m) = (bt_get m)(k := None)"
  by (simp add: fun_eq_iff bt_get_def bt_remove.rep_eq map_of_filter_key)

lemma bt_get_insert_app [simp]:
  "bt_get (bt_insert k v m) k' = (if k' = k then Some v else bt_get m k')"
  by (simp add: bt_get_insert)

lemma bt_get_remove_app [simp]:
  "bt_get (bt_remove k m) k' = (if k' = k then None else bt_get m k')"
  by (simp add: bt_get_remove)

lemma bt_get_entries_iff: "bt_get m k = Some v \<longleftrightarrow> (k, v) \<in> set (bt_entries m)"
  by (simp add: bt_get_def bt_entries_distinct)

lemma bt_get_filter [simp]:
  "bt_get (bt_filter P m) k =
     (case bt_get m k of None \<Rightarrow> None | Some v \<Rightarrow> if P (k, v) then Some v else None)"
proof -
  have "map_of (filter P xs) k =
      (case map_of xs k of None \<Rightarrow> None | Some v \<Rightarrow> if P (k, v) then Some v else None)"
    if "distinct (map fst xs)" for xs
    using that by (induction xs) (auto simp: map_of_eq_None_iff split: option.splits)
  from this [OF bt_entries_distinct] show ?thesis
    by (simp add: bt_get_def bt_filter.rep_eq)
qed

lemma bt_get_map_values [simp]: "bt_get (bt_map_values f m) k = map_option f (bt_get m k)"
proof -
  have "map_of (map (\<lambda>e. (fst e, f (snd e))) xs) k = map_option f (map_of xs k)" for xs
    by (induction xs) auto
  then show ?thesis
    by (simp add: bt_get_def bt_map_values.rep_eq)
qed

lemma bt_get_modify [simp]:
  "bt_get (bt_modify k f m) k' =
     (if k' = k then map_option f (bt_get m k) else bt_get m k')"
  by (simp add: bt_modify_def split: option.splits)

lemma bt_contains_key_iff: "bt_contains_key m k \<longleftrightarrow> k \<in> set (bt_keys m)"
  by (simp add: bt_contains_key_def bt_get_def bt_keys_def map_of_eq_None_iff)

lemma set_bt_keys: "set (bt_keys m) = dom (bt_get m)"
proof -
  have "bt_get m = map_of (bt_entries m)"
    by (simp add: fun_eq_iff bt_get_def)
  then show ?thesis
    by (simp add: bt_keys_def dom_map_of_conv_image_fst)
qed

lemma distinct_bt_keys [simp]: "distinct (bt_keys m)"
  by (simp add: bt_keys_def bt_entries_distinct)

lemma sorted_bt_keys [simp]: "sorted_wrt (<) (bt_keys m)"
  by (simp add: bt_keys_def sorted_entries)

lemma set_bt_values: "set (bt_values m) = ran (bt_get m)"
proof -
  have "bt_get m = map_of (bt_entries m)"
    by (simp add: fun_eq_iff bt_get_def)
  then show ?thesis
    by (simp add: bt_values_def ran_distinct bt_entries_distinct)
qed

lemma finite_dom_bt_get [simp]: "finite (dom (bt_get m))"
  by (metis set_bt_keys List.finite_set)

text \<open>Maps are determined by their lookups: the representation is canonical.\<close>

lemma sorted_entries_unique:
  assumes "sorted_wrt (<) (map fst xs)" and "sorted_wrt (<) (map fst ys)" and "set xs = set ys"
  shows "xs = (ys :: ('k::linorder \<times> 'v) list)"
  using assms
proof (induction xs arbitrary: ys)
  case Nil
  then show ?case by simp
next
  case (Cons x xs)
  then obtain y ys' where ys: "ys = y # ys'" by (cases ys) auto
  have lx: "\<forall>e\<in>set xs. fst x < fst e" and ly: "\<forall>e\<in>set ys'. fst y < fst e"
    using Cons.prems ys by auto
  have "x = y"
  proof (rule ccontr)
    assume "x \<noteq> y"
    with Cons.prems(3) ys have "x \<in> set ys'" and "y \<in> set xs"
      by (metis insert_iff list.simps(15))+
    with lx ly have "fst x < fst y" and "fst y < fst x" by blast+
    then show False by simp
  qed
  moreover have "x \<notin> set xs" and "x \<notin> set ys'"
    using lx ly \<open>x = y\<close> by blast+
  then have "set xs = set ys'"
    using Cons.prems(3) ys \<open>x = y\<close> by (metis insert_ident list.simps(15))
  ultimately show ?case
    using Cons.IH [of ys'] Cons.prems ys by simp
qed

lemma btmap_eqI: "(\<And>k. bt_get m k = bt_get n k) \<Longrightarrow> m = n"
proof -
  assume "\<And>k. bt_get m k = bt_get n k"
  then have "set (bt_entries m) = set (bt_entries n)"
    by (auto simp flip: bt_get_entries_iff)
  then have "bt_entries m = bt_entries n"
    by (rule sorted_entries_unique [OF sorted_entries sorted_entries])
  then show "m = n"
    by (simp add: bt_entries_inject)
qed

lemma bt_insert_same: "bt_get m k = Some v \<Longrightarrow> bt_insert k v m = m"
  by (rule btmap_eqI) simp

lemma bt_remove_absent: "bt_get m k = None \<Longrightarrow> bt_remove k m = m"
  by (rule btmap_eqI) simp

lemma bt_remove_insert: "bt_remove k (bt_insert k v m) = bt_remove k m"
  by (rule btmap_eqI) simp

lemma bt_insert_insert: "bt_insert k v (bt_insert k w m) = bt_insert k v m"
  by (rule btmap_eqI) simp

instantiation btmap :: (linorder, type) equal
begin

definition equal_btmap :: "('a, 'b) btmap \<Rightarrow> ('a, 'b) btmap \<Rightarrow> bool" where
  "equal_btmap m n \<longleftrightarrow> bt_entries m = bt_entries n"

instance
  by standard (simp add: equal_btmap_def bt_entries_inject)

end

section \<open>Results\<close>

text \<open>\<open>Option::ok_or\<close>, \<open>Result::map_err\<close> and the \<open>?\<close> operator.\<close>

definition ok_or :: "'a option \<Rightarrow> 'e \<Rightarrow> 'e + 'a" where
  "ok_or x e = (case x of None \<Rightarrow> Inl e | Some a \<Rightarrow> Inr a)"

definition map_err :: "('e \<Rightarrow> 'f) \<Rightarrow> 'e + 'a \<Rightarrow> 'f + 'a" where
  "map_err f r = (case r of Inl e \<Rightarrow> Inl (f e) | Inr a \<Rightarrow> Inr a)"

definition and_then :: "'e + 'a \<Rightarrow> ('a \<Rightarrow> 'e + 'b) \<Rightarrow> 'e + 'b" where
  "and_then r k = (case r of Inl e \<Rightarrow> Inl e | Inr a \<Rightarrow> k a)"

definition is_ok :: "'e + 'a \<Rightarrow> bool" where
  "is_ok r = (case r of Inl _ \<Rightarrow> False | Inr _ \<Rightarrow> True)"

type_synonym ('e, 'a, 's) outcome = "('e + 'a) \<times> 's"

lemma ok_or_simps [simp]: "ok_or None e = Inl e" "ok_or (Some a) e = Inr a"
  by (simp_all add: ok_or_def)

lemma map_err_simps [simp]: "map_err f (Inl e) = Inl (f e)" "map_err f (Inr a) = Inr a"
  by (simp_all add: map_err_def)

lemma and_then_simps [simp]: "and_then (Inl e) k = Inl e" "and_then (Inr a) k = k a"
  by (simp_all add: and_then_def)

lemma is_ok_simps [simp]: "\<not> is_ok (Inl e)" "is_ok (Inr a)"
  by (simp_all add: is_ok_def)

lemma is_okE: "is_ok r \<Longrightarrow> (\<And>a. r = Inr a \<Longrightarrow> thesis) \<Longrightarrow> thesis"
  by (cases r) simp_all

lemma map_err_eq_Inr [simp]: "map_err f r = Inr a \<longleftrightarrow> r = Inr a"
  by (cases r) auto

lemma and_then_eq_Inr: "and_then r k = Inr b \<longleftrightarrow> (\<exists>a. r = Inr a \<and> k a = Inr b)"
  by (cases r) auto

lemma ok_or_eq_Inr [simp]: "ok_or x e = Inr a \<longleftrightarrow> x = Some a"
  by (cases x) auto

text \<open>
  The \<open>?\<close> operator of a method on \<open>&mut self\<close>: an error ends the call and keeps the changes
  made so far. \<open>for_each\<close> is a loop of such calls that extends one result vector.
\<close>

definition then_do ::
  "('e, 'a, 's) outcome \<Rightarrow> ('a \<Rightarrow> 's \<Rightarrow> ('e, 'b, 's) outcome) \<Rightarrow> ('e, 'b, 's) outcome" where
  "then_do r k = (case r of (Inl e, s) \<Rightarrow> (Inl e, s) | (Inr a, s) \<Rightarrow> k a s)"

fun for_each ::
  "('x \<Rightarrow> 's \<Rightarrow> ('e, 'a list, 's) outcome) \<Rightarrow> 'x list \<Rightarrow> 's \<Rightarrow> ('e, 'a list, 's) outcome" where
  "for_each body [] s = (Inr [], s)"
| "for_each body (x # xs) s =
     then_do (body x s) (\<lambda>as s'. then_do (for_each body xs s') (\<lambda>bs s''. (Inr (as @ bs), s'')))"

lemma then_do_simps [simp]:
  "then_do (Inl e, s) k = (Inl e, s)" "then_do (Inr a, s) k = k a s"
  by (simp_all add: then_do_def)

lemma then_do_eq_Inr:
  "then_do r k = (Inr b, s') \<longleftrightarrow> (\<exists>a s. r = (Inr a, s) \<and> k a s = (Inr b, s'))"
  by (auto simp: then_do_def split: prod.splits sum.splits)

lemma then_do_eq_Inl:
  "then_do r k = (Inl e, s') \<longleftrightarrow> r = (Inl e, s') \<or> (\<exists>a s. r = (Inr a, s) \<and> k a s = (Inl e, s'))"
  by (auto simp: then_do_def split: prod.splits sum.splits)

lemma then_do_cong [fundef_cong]:
  "r = r' \<Longrightarrow> (\<And>a s. r' = (Inr a, s) \<Longrightarrow> k a s = k' a s) \<Longrightarrow> then_do r k = then_do r' k'"
  by (auto simp: then_do_def split: prod.splits sum.splits)

text \<open>
  \<open>outcome_ok P E r\<close>: the state satisfies \<open>P\<close> whether or not the call failed, and the only errors
  are those of \<open>E\<close>. A sequence and a loop of such calls are such calls.
\<close>

definition outcome_ok :: "('s \<Rightarrow> bool) \<Rightarrow> ('e \<Rightarrow> bool) \<Rightarrow> ('e, 'a, 's) outcome \<Rightarrow> bool" where
  "outcome_ok P E r \<longleftrightarrow> P (snd r) \<and> (\<forall>e. fst r = Inl e \<longrightarrow> E e)"

lemma outcome_ok_simps [simp]:
  "outcome_ok P E (Inl e, s) \<longleftrightarrow> P s \<and> E e" "outcome_ok P E (Inr a, s) \<longleftrightarrow> P s"
  by (simp_all add: outcome_ok_def)

lemma outcome_ok_then:
  assumes "outcome_ok P E r" "\<And>a s. r = (Inr a, s) \<Longrightarrow> P s \<Longrightarrow> outcome_ok P E (k a s)"
  shows "outcome_ok P E (then_do r k)"
proof (cases r)
  case (Pair res s)
  then show ?thesis using assms by (cases res) auto
qed

lemma outcome_ok_for_each:
  assumes "\<And>x s. x \<in> set xs \<Longrightarrow> P s \<Longrightarrow> outcome_ok P E (body x s)" and "P s"
  shows "outcome_ok P E (for_each body xs s)"
  using assms
proof (induction xs arbitrary: s)
  case (Cons x xs)
  have head: "outcome_ok P E (body x s)" using Cons.prems by simp
  have rest: "P s' \<Longrightarrow> outcome_ok P E (for_each body xs s')" for s'
    using Cons.IH Cons.prems(1) by simp
  have tail: "outcome_ok P E (then_do (for_each body xs s') (\<lambda>bs s''. (Inr (as @ bs), s'')))"
    if "P s'" for as s'
    by (rule outcome_ok_then [OF rest [OF that]]) simp
  show ?case unfolding for_each.simps by (rule outcome_ok_then [OF head tail])
qed simp

section \<open>Lists\<close>

text \<open>\<open>Iterator::position\<close>, \<open>str::split_once\<close> on one byte and \<open>str::strip_prefix\<close>.\<close>

fun position :: "('a \<Rightarrow> bool) \<Rightarrow> 'a list \<Rightarrow> nat option" where
  "position P [] = None"
| "position P (x # xs) = (if P x then Some 0 else map_option Suc (position P xs))"

fun split_once :: "'a \<Rightarrow> 'a list \<Rightarrow> ('a list \<times> 'a list) option" where
  "split_once c [] = None"
| "split_once c (x # xs) =
     (if x = c then Some ([], xs)
      else map_option (\<lambda>(l, r). (x # l, r)) (split_once c xs))"

fun strip_prefix :: "'a list \<Rightarrow> 'a list \<Rightarrow> 'a list option" where
  "strip_prefix [] ys = Some ys"
| "strip_prefix (x # xs) [] = None"
| "strip_prefix (x # xs) (y # ys) = (if x = y then strip_prefix xs ys else None)"

text \<open>Pushing only what is not there yet, as the source's \<open>if !v.contains(x) { v.push(x) }\<close>.\<close>

definition push_new :: "'a \<Rightarrow> 'a list \<Rightarrow> 'a list" where
  "push_new x xs = (if x \<in> set xs then xs else xs @ [x])"

text \<open>\<open>Iterator::find_map\<close>.\<close>

fun find_map :: "('a \<Rightarrow> 'b option) \<Rightarrow> 'a list \<Rightarrow> 'b option" where
  "find_map f [] = None"
| "find_map f (x # xs) = (case f x of Some y \<Rightarrow> Some y | None \<Rightarrow> find_map f xs)"

text \<open>\<open>Iterator::min_by_key\<close>: the first element whose key is least.\<close>

definition min_by_key :: "('a \<Rightarrow> 'k::linorder) \<Rightarrow> 'a list \<Rightarrow> 'a option" where
  "min_by_key f xs =
     (case xs of
        [] \<Rightarrow> None
      | x # ys \<Rightarrow> Some (fold (\<lambda>y best. if f y < f best then y else best) ys x))"

lemma min_fold:
  "fold (\<lambda>y best. if f y < f best then y else best) ys x \<in> insert x (set ys) \<and>
   (\<forall>y\<in>insert x (set ys). f (fold (\<lambda>y best. if f y < f best then y else best) ys x) \<le> f y)"
  for f :: "'a \<Rightarrow> 'k::linorder"
proof (induction ys arbitrary: x)
  case (Cons y ys)
  show ?case
    using Cons [of "if f y < f x then y else x"] by (auto split: if_splits)
qed simp

lemma min_by_key_None [simp]: "min_by_key f xs = None \<longleftrightarrow> xs = []"
  by (simp add: min_by_key_def split: list.split)

lemma min_by_key_Some:
  "min_by_key f xs = Some x \<Longrightarrow> x \<in> set xs \<and> (\<forall>y\<in>set xs. f x \<le> f y)"
  using min_fold by (fastforce simp: min_by_key_def split: list.splits)

lemma position_Some:
  "position P xs = Some i \<longleftrightarrow> i < length xs \<and> P (xs ! i) \<and> (\<forall>j<i. \<not> P (xs ! j))"
proof (induction xs arbitrary: i)
  case Nil
  then show ?case by simp
next
  case (Cons x xs)
  show ?case
  proof (cases i)
    case 0
    then show ?thesis by simp
  next
    case (Suc i')
    have "(\<forall>j<Suc i'. \<not> P ((x # xs) ! j)) \<longleftrightarrow> \<not> P x \<and> (\<forall>j<i'. \<not> P (xs ! j))"
      by (auto simp: nth_Cons split: nat.splits)
    with Suc show ?thesis
      by (simp add: Cons.IH conj_ac)
  qed
qed

lemma position_None: "position P xs = None \<longleftrightarrow> (\<forall>x\<in>set xs. \<not> P x)"
  by (induction xs) auto

lemma position_append:
  "position P (xs @ ys) =
     (case position P xs of
        Some i \<Rightarrow> Some i
      | None \<Rightarrow> map_option (\<lambda>i. length xs + i) (position P ys))"
  by (induction xs) (cases "position P ys"; auto split: option.splits)+

lemma split_once_None: "split_once c xs = None \<longleftrightarrow> c \<notin> set xs"
  by (induction xs) auto

lemma split_once_Some: "split_once c xs = Some (l, r) \<longleftrightarrow> xs = l @ c # r \<and> c \<notin> set l"
proof (induction xs arbitrary: l)
  case Nil
  then show ?case by simp
next
  case (Cons x xs)
  show ?case
    by (cases l) (auto simp: Cons.IH)
qed

lemma strip_prefix_Some: "strip_prefix xs ys = Some zs \<longleftrightarrow> ys = xs @ zs"
  by (induction xs ys rule: strip_prefix.induct) auto

lemma strip_prefix_append [simp]: "strip_prefix xs (xs @ ys) = Some ys"
  by (simp add: strip_prefix_Some)

lemma set_push_new [simp]: "set (push_new x xs) = insert x (set xs)"
  by (auto simp: push_new_def)

lemma distinct_push_new [simp]: "distinct (push_new x xs) \<longleftrightarrow> distinct xs"
  by (auto simp: push_new_def)

text \<open>The element \<open>a\<close> stands before an occurrence of \<open>b\<close>.\<close>

fun precedes :: "'a list \<Rightarrow> 'a \<Rightarrow> 'a \<Rightarrow> bool" where
  "precedes [] a b \<longleftrightarrow> False"
| "precedes (x # xs) a b \<longleftrightarrow> x = a \<and> b \<in> set xs \<or> precedes xs a b"

lemma precedes_set: "precedes xs a b \<Longrightarrow> a \<in> set xs \<and> b \<in> set xs"
  by (induction xs) auto

lemma precedes_append: "precedes xs a b \<Longrightarrow> precedes (xs @ ys) a b"
  by (induction xs) auto

lemma precedes_last: "a \<in> set xs \<Longrightarrow> precedes (xs @ [b]) a b"
  by (induction xs) auto

lemma precedes_filter: "precedes xs a b \<Longrightarrow> P a \<Longrightarrow> P b \<Longrightarrow> precedes (filter P xs) a b"
  by (induction xs) auto

lemma precedes_head: "distinct (x # xs) \<Longrightarrow> \<not> precedes (x # xs) a x"
  by (auto dest: precedes_set)

lemma precedes_take: "i < length xs \<Longrightarrow> a \<in> set (take i xs) \<Longrightarrow> precedes xs a (xs ! i)"
  by (induction xs arbitrary: i) (auto simp: take_Cons nth_Cons split: nat.splits)

text \<open>\<open>[&str]::join\<close>.\<close>

fun join :: "'a list \<Rightarrow> 'a list list \<Rightarrow> 'a list" where
  "join sep [] = []"
| "join sep [x] = x"
| "join sep (x # y # xs) = x @ sep @ join sep (y # xs)"

section \<open>Decimal numbers\<close>

text \<open>The decimal text of Rust's integer \<open>Display\<close>.\<close>

fun dec_string :: "nat \<Rightarrow> string" where
  "dec_string n =
     (if n < 10 then [char_of (48 + n)] else dec_string (n div 10) @ [char_of (48 + n mod 10)])"

declare dec_string.simps [simp del]

definition dec_value :: "string \<Rightarrow> nat" where
  "dec_value s = foldl (\<lambda>acc c. acc * 10 + (of_char c - 48)) 0 s"

lemma dec_value_dec_string [simp]: "dec_value (dec_string n) = n"
proof (induction n rule: dec_string.induct)
  case (1 n)
  show ?case
  proof (cases "n < 10")
    case True
    then show ?thesis by (simp add: dec_string.simps [of n] dec_value_def)
  next
    case False
    have "48 + n mod 10 < 256" by (simp add: less_trans [of "n mod 10" 10])
    then have "(of_char (char_of (48 + n mod 10) :: char) :: nat) = 48 + n mod 10" by simp
    then show ?thesis
      using 1 False by (subst dec_string.simps) (simp add: dec_value_def)
  qed
qed

lemma dec_string_inject [simp]: "dec_string m = dec_string n \<longleftrightarrow> m = n"
  by (metis dec_value_dec_string)

lemma dec_string_digits: "c \<in> set (dec_string n) \<Longrightarrow> 48 \<le> (of_char c :: nat) \<and> (of_char c :: nat) \<le> 57"
proof (induction n rule: dec_string.induct)
  case (1 n)
  have m: "n mod 10 < 10" by simp
  show ?case
  proof (cases "n < 10")
    case True
    then show ?thesis using 1(2) by (simp add: dec_string.simps [of n])
  next
    case False
    then have "c \<in> set (dec_string (n div 10)) \<or> c = char_of (48 + n mod 10)"
      using 1(2) by (auto simp: dec_string.simps [of n])
    then show ?thesis using 1(1) False m by auto
  qed
qed

lemma dec_string_nonempty [simp]: "dec_string n \<noteq> []"
  by (subst dec_string.simps) simp

end
