(* ===== verification/Service_Definition.thy ===== *)
theory Service_Definition
  imports Prelude
begin

text \<open>
  Service definitions (\<open>src/service/definition.rs\<close>) and the identities they name
  (\<open>src/security\<close>). Fields of a definition carry the prefix \<open>sd_\<close>.

  The lemmas show what the predicates on names and identities accept and that the constructors
  give definitions with the defaults the boot relies on.
\<close>

section \<open>Definitions\<close>

datatype service_type = Simple | Oneshot

datatype readiness = Alive | Notify

datatype restart_policy = Never | OnFailure | Always

datatype error_control = NormalControl | Critical

datatype notify_access = MainOnly

datatype service_trigger = BootTrigger | BootSettled | TtyReleased | TimerTrigger string | OtherTrigger string

datatype service_check_kind = PathCheck | FileCheck | DirectoryCheck | RegistryCheck

record service_check =
  sc_kind :: service_check_kind
  sc_argument :: string

datatype service_security_descriptor = DefaultDescriptor | RegistryBinary "u8 list"

record service_environment_variable =
  ev_name :: string
  ev_value :: string

record service_runtime_directory = rd_name :: string

definition is_ascii_digit :: "char \<Rightarrow> bool" where
  "is_ascii_digit c = (let n = of_char c :: nat in 48 \<le> n \<and> n \<le> 57)"

definition is_ascii_alphanumeric :: "char \<Rightarrow> bool" where
  "is_ascii_alphanumeric c =
     (let n = of_char c :: nat
      in is_ascii_digit c \<or> 65 \<le> n \<and> n \<le> 90 \<or> 97 \<le> n \<and> n \<le> 122)"

definition is_valid_service_name :: "string \<Rightarrow> bool" where
  "is_valid_service_name value \<longleftrightarrow>
     value \<noteq> [] \<and> length value \<le> 128
     \<and> list_all (\<lambda>byte. is_ascii_alphanumeric byte \<or> byte \<in> set ''._-'') value"

record service_definition =
  sd_name :: string
  sd_image_path :: string
  sd_arguments :: "string list"
  sd_service_type :: service_type
  sd_triggers :: "service_trigger list"
  sd_disabled :: bool
  sd_safe_mode :: bool
  sd_identity :: string
  sd_required_privileges :: "string list"
  sd_requires :: "string list"
  sd_wants :: "string list"
  sd_binds_to :: "string list"
  sd_conflicts :: "string list"
  sd_provides :: "string list"
  sd_on_failure :: "string option"
  sd_readiness :: readiness
  sd_notify_access :: notify_access
  sd_remain_after_exit :: bool
  sd_success_exit_codes :: "i32 list"
  sd_exec_start_pre :: "string list"
  sd_exec_start_post :: "string list"
  sd_hook_identity :: "string option"
  sd_exec_reload :: "string option"
  sd_pre_start_check_timeout_secs :: u64
  sd_start_timeout_secs :: u64
  sd_stop_timeout_secs :: u64
  sd_watchdog_timeout_secs :: u64
  sd_health_check :: "string option"
  sd_health_check_interval_secs :: u64
  sd_health_check_timeout_secs :: u64
  sd_health_check_retries :: u32
  sd_fd_store_max :: u32
  sd_environment :: "service_environment_variable list"
  sd_working_directory :: string
  sd_runtime_directories :: "service_runtime_directory list"
  sd_limit_nofile :: "u64 option"
  sd_limit_core :: "u64 option"
  sd_conditions :: "service_check list"
  sd_asserts :: "service_check list"
  sd_display_name :: "string option"
  sd_description :: "string option"
  sd_restart_policy :: restart_policy
  sd_restart_max_retries :: u32
  sd_restart_window_secs :: u64
  sd_restart_delay_secs :: u64
  sd_error_control :: error_control
  sd_service_security :: service_security_descriptor
  sd_timer_persistent :: bool
  sd_timer_jitter_secs :: u64
  sd_console_path :: "string option"
  sd_console_precedence :: u32
  sd_compiled_in :: bool

section \<open>Constructors and triggers\<close>

definition simple_system_boot :: "string \<Rightarrow> string \<Rightarrow> service_definition" where
  "simple_system_boot name image_path = \<lparr>
     sd_name = name,
     sd_image_path = image_path,
     sd_arguments = [],
     sd_service_type = Simple,
     sd_triggers = [BootTrigger],
     sd_disabled = False,
     sd_safe_mode = False,
     sd_identity = ''SYSTEM'',
     sd_required_privileges = [],
     sd_requires = [],
     sd_wants = [],
     sd_binds_to = [],
     sd_conflicts = [],
     sd_provides = [],
     sd_on_failure = None,
     sd_readiness = Notify,
     sd_notify_access = MainOnly,
     sd_remain_after_exit = False,
     sd_success_exit_codes = [],
     sd_exec_start_pre = [],
     sd_exec_start_post = [],
     sd_hook_identity = None,
     sd_exec_reload = None,
     sd_pre_start_check_timeout_secs = 5,
     sd_start_timeout_secs = 30,
     sd_stop_timeout_secs = 10,
     sd_watchdog_timeout_secs = 0,
     sd_health_check = None,
     sd_health_check_interval_secs = 30,
     sd_health_check_timeout_secs = 5,
     sd_health_check_retries = 3,
     sd_fd_store_max = 0,
     sd_environment = [],
     sd_working_directory = ''/'',
     sd_runtime_directories = [],
     sd_limit_nofile = None,
     sd_limit_core = None,
     sd_conditions = [],
     sd_asserts = [],
     sd_display_name = None,
     sd_description = None,
     sd_restart_policy = OnFailure,
     sd_restart_max_retries = 5,
     sd_restart_window_secs = 120,
     sd_restart_delay_secs = 1,
     sd_error_control = NormalControl,
     sd_service_security = DefaultDescriptor,
     sd_timer_persistent = True,
     sd_timer_jitter_secs = 0,
     sd_console_path = None,
     sd_console_precedence = 0,
     sd_compiled_in = False\<rparr>"

definition undecodable_placeholder :: "string \<Rightarrow> string \<Rightarrow> service_definition" where
  "undecodable_placeholder name message =
     (simple_system_boot name [])\<lparr>sd_triggers := [], sd_disabled := True,
        sd_description := Some message\<rparr>"

definition REGISTRYD_NAME :: string where
  "REGISTRYD_NAME = ''registryd''"

definition REGISTRYD_IMAGE_PATH :: string where
  "REGISTRYD_IMAGE_PATH = ''/sbin/registryd''"

definition REGISTRYD_ARGUMENTS :: "string list" where
  "REGISTRYD_ARGUMENTS =
     [''Machine=/var/state/loregd/Machine.hive'', ''Users=/var/state/loregd/Users.hive'']"

definition compiled_in_registryd :: service_definition where
  "compiled_in_registryd =
     (simple_system_boot REGISTRYD_NAME REGISTRYD_IMAGE_PATH)
       \<lparr>sd_arguments := REGISTRYD_ARGUMENTS, sd_error_control := Critical,
        sd_compiled_in := True\<rparr>"

definition has_boot_trigger :: "service_definition \<Rightarrow> bool" where
  "has_boot_trigger d \<longleftrightarrow> BootTrigger \<in> set (sd_triggers d)"

definition has_boot_settled_trigger :: "service_definition \<Rightarrow> bool" where
  "has_boot_settled_trigger d \<longleftrightarrow> BootSettled \<in> set (sd_triggers d)"

definition has_tty_released_trigger :: "service_definition \<Rightarrow> bool" where
  "has_tty_released_trigger d \<longleftrightarrow> TtyReleased \<in> set (sd_triggers d)"

section \<open>Identities\<close>

definition SYSTEM_IDENTITY :: string where
  "SYSTEM_IDENTITY = ''SYSTEM''"

definition LOCAL_SERVICE_IDENTITY :: string where
  "LOCAL_SERVICE_IDENTITY = ''LocalService''"

definition NETWORK_SERVICE_IDENTITY :: string where
  "NETWORK_SERVICE_IDENTITY = ''NetworkService''"

definition is_system_identity :: "string \<Rightarrow> bool" where
  "is_system_identity identity \<longleftrightarrow> identity = SYSTEM_IDENTITY"

definition to_ascii_lowercase :: "char \<Rightarrow> char" where
  "to_ascii_lowercase c =
     (let n = of_char c :: nat in if 65 \<le> n \<and> n \<le> 90 then char_of (n + 32) else c)"

definition eq_ignore_ascii_case :: "string \<Rightarrow> string \<Rightarrow> bool" where
  "eq_ignore_ascii_case a b \<longleftrightarrow> map to_ascii_lowercase a = map to_ascii_lowercase b"

definition canonical_well_known_identity :: "string \<Rightarrow> string option" where
  "canonical_well_known_identity identity =
     (if eq_ignore_ascii_case identity SYSTEM_IDENTITY then Some SYSTEM_IDENTITY
      else if eq_ignore_ascii_case identity LOCAL_SERVICE_IDENTITY
        then Some LOCAL_SERVICE_IDENTITY
      else if eq_ignore_ascii_case identity NETWORK_SERVICE_IDENTITY
        then Some NETWORK_SERVICE_IDENTITY
      else None)"

definition hook_execution_identity :: "service_definition \<Rightarrow> string" where
  "hook_execution_identity d =
     (case sd_hook_identity d of Some i \<Rightarrow> i | None \<Rightarrow> sd_identity d)"

text \<open>The pieces of \<open>str::split(c)\<close>: one more than the separators.\<close>

fun split_on :: "char \<Rightarrow> string \<Rightarrow> string list" where
  "split_on c [] = [[]]"
| "split_on c (x # xs) =
     (if x = c then [] # split_on c xs
      else case split_on c xs of [] \<Rightarrow> [[x]] | p # ps \<Rightarrow> (x # p) # ps)"

definition digits_only :: "string \<Rightarrow> bool" where
  "digits_only part \<longleftrightarrow> part \<noteq> [] \<and> list_all is_ascii_digit part"

definition is_literal_sid :: "string \<Rightarrow> bool" where
  "is_literal_sid value =
     (case strip_prefix ''S-'' value of
        None \<Rightarrow> False
      | Some rest \<Rightarrow>
          (case split_on (CHR ''-'') rest of
             revision # authority # parts \<Rightarrow>
               digits_only revision \<and> digits_only authority \<and> parts \<noteq> []
               \<and> list_all digits_only parts
           | _ \<Rightarrow> False))"

definition identity_user_sid :: "string \<Rightarrow> string option" where
  "identity_user_sid identity =
     (if identity = SYSTEM_IDENTITY then Some ''S-1-5-18''
      else if identity = LOCAL_SERVICE_IDENTITY then Some ''S-1-5-19''
      else if identity = NETWORK_SERVICE_IDENTITY then Some ''S-1-5-20''
      else if is_literal_sid identity then Some identity
      else None)"

record token_summary =
  ts_identity :: string
  ts_user_sid :: string
  ts_group_sids :: "string list"
  ts_present_privileges :: "string list"
  ts_enabled_privileges :: "string list"

definition requested_identity :: "string \<Rightarrow> token_summary" where
  "requested_identity identity = \<lparr>
     ts_identity = identity,
     ts_user_sid = (case identity_user_sid identity of Some sid \<Rightarrow> sid | None \<Rightarrow> []),
     ts_group_sids = [],
     ts_present_privileges = [],
     ts_enabled_privileges = []\<rparr>"

definition caller_sid :: "token_summary \<Rightarrow> string" where
  "caller_sid t = (if ts_user_sid t = [] then ts_identity t else ts_user_sid t)"

section \<open>Lemmas\<close>

lemma split_on_nonempty [simp]: "split_on c xs \<noteq> []"
  by (induction xs) (auto split: list.splits)

lemma split_on_absent: "c \<notin> set xs \<Longrightarrow> split_on c xs = [xs]"
  by (induction xs) auto

lemma split_on_separator: "c \<notin> set xs \<Longrightarrow> split_on c (xs @ c # ys) = xs # split_on c ys"
  by (induction xs) auto

lemma valid_name_excludes:
  "is_valid_service_name name \<Longrightarrow> \<not> is_ascii_alphanumeric c \<Longrightarrow> c \<notin> set ''._-'' \<Longrightarrow> c \<notin> set name"
  by (auto simp: is_valid_service_name_def list_all_iff)

lemma valid_name_no_separator:
  assumes "is_valid_service_name name"
  shows "CHR '':'' \<notin> set name" and "CHR ''/'' \<notin> set name" and "CHR 0x5C \<notin> set name"
    and "CHR '' '' \<notin> set name" and "CHR ''%'' \<notin> set name"
  by (rule valid_name_excludes [OF assms];
      simp add: is_ascii_alphanumeric_def is_ascii_digit_def)+

lemma compiled_in_registryd_name [simp]:
  "sd_name compiled_in_registryd = ''registryd''"
  "sd_compiled_in compiled_in_registryd"
  "sd_error_control compiled_in_registryd = Critical"
  by (simp_all add: compiled_in_registryd_def simple_system_boot_def REGISTRYD_NAME_def)

lemma canonical_well_known_identity_idem:
  "canonical_well_known_identity i = Some c \<Longrightarrow> canonical_well_known_identity c = Some c"
  by (auto simp: canonical_well_known_identity_def eq_ignore_ascii_case_def split: if_splits)

lemma canonical_well_known_identity_sid:
  "canonical_well_known_identity i = Some c \<Longrightarrow> identity_user_sid c \<noteq> None"
  by (auto simp: canonical_well_known_identity_def identity_user_sid_def split: if_splits)

end
