(* ===== verification/Dependency.thy ===== *)
theory Dependency
  imports Service_Definition
begin

text \<open>
  Declared dependencies and the dependency start order (\<open>src/service/dependency.rs\<close>).

  The lemmas show how a declaration splits into service and level, and that the depth-first
  start order is a duplicate-free enumeration of the startable services in which every startable
  dependency precedes its dependent, or reports a real dependency cycle; it fails exactly when
  there is one.
\<close>

section \<open>Declared dependencies\<close>

datatype service_dependency_kind = Requires | Wants | BindsTo

record service_dependency =
  dep_target :: string
  dep_level :: "string option"
  dep_kind :: service_dependency_kind

definition split_target :: "string \<Rightarrow> string \<times> string option" where
  "split_target declared =
     (case split_once (CHR '':'') declared of
        Some (service, level) \<Rightarrow> if level \<noteq> [] then (service, Some level) else (service, None)
      | None \<Rightarrow> (declared, None))"

definition dependency :: "string \<Rightarrow> service_dependency_kind \<Rightarrow> service_dependency" where
  "dependency declared kind =
     (let (target, level) = split_target declared
      in \<lparr>dep_target = target, dep_level = level, dep_kind = kind\<rparr>)"

definition hard_dependencies :: "service_definition \<Rightarrow> service_dependency list" where
  "hard_dependencies d =
     map (\<lambda>t. dependency t Requires) (sd_requires d)
     @ map (\<lambda>t. dependency t BindsTo) (sd_binds_to d)"

definition all_declared_dependencies :: "service_definition \<Rightarrow> service_dependency list" where
  "all_declared_dependencies d =
     map (\<lambda>t. dependency t Requires) (sd_requires d)
     @ map (\<lambda>t. dependency t Wants) (sd_wants d)
     @ map (\<lambda>t. dependency t BindsTo) (sd_binds_to d)"

definition start_order_dependency_targets :: "service_definition \<Rightarrow> string list" where
  "start_order_dependency_targets d =
     map (fst \<circ> split_target) (sd_requires d @ sd_binds_to d @ sd_wants d)"

text \<open>\<open>filter(|target| seen.insert(target))\<close>: the first occurrence of each element stays.\<close>

fun first_seen :: "'a set \<Rightarrow> 'a list \<Rightarrow> 'a list" where
  "first_seen seen [] = []"
| "first_seen seen (x # xs) =
     (if x \<in> seen then first_seen seen xs else x # first_seen (insert x seen) xs)"

definition existing_start_order_dependency_targets ::
  "service_definition \<Rightarrow> (string \<Rightarrow> bool) \<Rightarrow> string list" where
  "existing_start_order_dependency_targets d contains =
     first_seen {} (filter contains (start_order_dependency_targets d))"

section \<open>Start order\<close>

text \<open>
  The depth-first visit. \<open>temporary\<close> is the path being explored; every push is popped again on
  the way out, so it is an argument here, while \<open>permanent\<close> and \<open>order\<close> are threaded through.
  The error is the cycle found, the source's \<open>ServiceDependencyOrderCycle\<close>.
\<close>

type_synonym order_state = "string fset \<times> string list"

function (sequential)
  visit_order :: "string fset \<Rightarrow> (string \<Rightarrow> string list) \<Rightarrow> string \<Rightarrow> string list \<Rightarrow> order_state
    \<Rightarrow> string list + order_state" and
  visit_dependencies :: "string fset \<Rightarrow> (string \<Rightarrow> string list) \<Rightarrow> string list \<Rightarrow> string list
    \<Rightarrow> order_state \<Rightarrow> string list + order_state" where
  "visit_order startable deps service temporary (permanent, order) =
     (if service |\<in>| permanent then Inr (permanent, order)
      else case position (\<lambda>entry. entry = service) temporary of
          Some index \<Rightarrow> Inl (drop index temporary)
        | None \<Rightarrow>
            and_then
              (visit_dependencies startable deps (deps service) (temporary @ [service])
                 (permanent, order))
              (\<lambda>(permanent, order). Inr (finsert service permanent, order @ [service])))"
| "visit_dependencies startable deps [] temporary st = Inr st"
| "visit_dependencies startable deps (d # ds) temporary st =
     and_then
       (if d |\<in>| startable then visit_order startable deps d temporary st else Inr st)
       (visit_dependencies startable deps ds temporary)"
  by pat_completeness auto
termination
proof (relation "measures [
    \<lambda>arg. case arg of
        Inl (S, deps, s, temporary, st) \<Rightarrow> card (fset S - set temporary)
      | Inr (S, deps, ds, temporary, st) \<Rightarrow> card (fset S - set temporary),
    \<lambda>arg. case arg of
        Inl (S, deps, s, temporary, st) \<Rightarrow> if s |\<in>| S then 0 else 2
      | Inr (S, deps, ds, temporary, st) \<Rightarrow> 1,
    \<lambda>arg. case arg of
        Inl (S, deps, s, temporary, st) \<Rightarrow> 0
      | Inr (S, deps, ds, temporary, st) \<Rightarrow> length ds]", goal_cases)
  case 1
  then show ?case by simp
next
  case (2 S deps s temporary permanent order)
  then have "s \<notin> set temporary"
    by (auto simp: position_None)
  then have "s |\<in>| S \<Longrightarrow> card (fset S - set (temporary @ [s])) < card (fset S - set temporary)"
    by (intro psubset_card_mono) auto
  moreover have "s |\<notin>| S \<Longrightarrow> fset S - set (temporary @ [s]) = fset S - set temporary"
    by auto
  ultimately show ?case by (cases "s |\<in>| S") simp_all
qed simp_all

fun visit_all :: "string fset \<Rightarrow> (string \<Rightarrow> string list) \<Rightarrow> string list \<Rightarrow> order_state
    \<Rightarrow> string list + order_state" where
  "visit_all startable deps [] st = Inr st"
| "visit_all startable deps (service # services) st =
     and_then (visit_order startable deps service [] st) (visit_all startable deps services)"

definition dependency_start_order ::
  "string fset \<Rightarrow> (string \<Rightarrow> string list) \<Rightarrow> string list + string list" where
  "dependency_start_order startable deps =
     and_then (visit_all startable deps (sorted_list_of_fset startable) ({||}, []))
       (\<lambda>(permanent, order). Inr order)"

section \<open>What an order and a cycle are\<close>

text \<open>Every startable dependency of an entry stands before it.\<close>

definition dependency_ordered :: "string fset \<Rightarrow> (string \<Rightarrow> string list) \<Rightarrow> string list \<Rightarrow> bool" where
  "dependency_ordered startable deps order \<longleftrightarrow>
     (\<forall>i<length order. \<forall>d\<in>set (deps (order ! i)). d |\<in>| startable \<longrightarrow> d \<in> set (take i order))"

text \<open>Startable services each of which depends on the next, and the last on the first.\<close>

definition dependency_cycle :: "string fset \<Rightarrow> (string \<Rightarrow> string list) \<Rightarrow> string list \<Rightarrow> bool" where
  "dependency_cycle startable deps c \<longleftrightarrow>
     c \<noteq> [] \<and> set c \<subseteq> fset startable \<and> successively (\<lambda>a b. b \<in> set (deps a)) c
     \<and> hd c \<in> set (deps (last c))"

section \<open>Lemmas\<close>

lemma set_first_seen: "set (first_seen seen xs) = set xs - seen"
  by (induction xs arbitrary: seen) auto

lemma distinct_first_seen: "distinct (first_seen seen xs)"
  by (induction xs arbitrary: seen) (auto simp: set_first_seen)

lemma dependency_ordered_Nil [simp]: "dependency_ordered S deps []"
  by (simp add: dependency_ordered_def)

lemma dependency_ordered_snoc [simp]:
  "dependency_ordered S deps (xs @ [x]) \<longleftrightarrow>
   dependency_ordered S deps xs \<and> (\<forall>d\<in>set (deps x). d |\<in>| S \<longrightarrow> d \<in> set xs)"
  by (auto simp: dependency_ordered_def nth_append less_Suc_eq)

fun order_inv :: "string fset \<Rightarrow> (string \<Rightarrow> string list) \<Rightarrow> order_state \<Rightarrow> bool" where
  "order_inv S deps (permanent, order) \<longleftrightarrow>
     fset permanent = set order \<and> distinct order \<and> set order \<subseteq> fset S
     \<and> dependency_ordered S deps order"

lemma visit_sound:
  "visit_order S deps s temporary st = Inr st' \<Longrightarrow> s |\<in>| S \<Longrightarrow> order_inv S deps st
   \<Longrightarrow> set temporary \<inter> fset (fst st) = {}
   \<Longrightarrow> order_inv S deps st' \<and> fst st |\<subseteq>| fst st' \<and> s |\<in>| fst st' \<and> set temporary \<inter> fset (fst st') = {}"
  "visit_dependencies S deps ds temporary st = Inr st' \<Longrightarrow> order_inv S deps st
   \<Longrightarrow> set temporary \<inter> fset (fst st) = {}
   \<Longrightarrow> order_inv S deps st' \<and> fst st |\<subseteq>| fst st' \<and> (\<forall>d\<in>set ds. d |\<in>| S \<longrightarrow> d |\<in>| fst st')
     \<and> set temporary \<inter> fset (fst st') = {}"
proof (induction S deps s temporary st and S deps ds temporary st
    arbitrary: st' and st' rule: visit_order_visit_dependencies.induct)
  case (1 S deps s temporary permanent order)
  show ?case
  proof (cases "s |\<in>| permanent")
    case True
    then show ?thesis using 1 by auto
  next
    case False
    then obtain p ord where new: "position (\<lambda>entry. entry = s) temporary = None"
      and rec: "visit_dependencies S deps (deps s) (temporary @ [s]) (permanent, order) = Inr (p, ord)"
      and st': "st' = (finsert s p, ord @ [s])"
      using 1(2) by (auto simp: and_then_def split: option.splits sum.splits)
    have fresh: "s \<notin> set temporary" using new by (auto simp: position_None)
    have "order_inv S deps (p, ord) \<and> permanent |\<subseteq>| p
        \<and> (\<forall>d\<in>set (deps s). d |\<in>| S \<longrightarrow> d |\<in>| p) \<and> set (temporary @ [s]) \<inter> fset p = {}"
      using 1(1) [OF False new rec] 1(4,5) False by auto
    then show ?thesis
      using st' fresh 1(3) by auto
  qed
next
  case (2 S deps temporary st)
  then show ?case by simp
next
  case (3 S deps d ds temporary st)
  then obtain mid where
    mid: "(if d |\<in>| S then visit_order S deps d temporary st else Inr st) = Inr mid"
    and rest: "visit_dependencies S deps ds temporary mid = Inr st'"
    by (auto simp: and_then_def split: sum.splits)
  have m: "order_inv S deps mid \<and> fst st |\<subseteq>| fst mid \<and> (d |\<in>| S \<longrightarrow> d |\<in>| fst mid)
      \<and> set temporary \<inter> fset (fst mid) = {}"
    using 3(1) [of mid] 3(4,5) mid by (auto split: if_splits)
  then show ?case
    using 3(2) [OF rest] by auto
qed

lemma visit_cycle:
  "visit_order S deps s temporary st = Inl c \<Longrightarrow> s |\<in>| S \<Longrightarrow> set temporary \<subseteq> fset S
   \<Longrightarrow> successively (\<lambda>a b. b \<in> set (deps a)) (temporary @ [s]) \<Longrightarrow> dependency_cycle S deps c"
  "visit_dependencies S deps ds temporary st = Inl c \<Longrightarrow> set temporary \<subseteq> fset S \<Longrightarrow> temporary \<noteq> []
   \<Longrightarrow> successively (\<lambda>a b. b \<in> set (deps a)) temporary \<Longrightarrow> set ds \<subseteq> set (deps (last temporary))
   \<Longrightarrow> dependency_cycle S deps c"
proof (induction S deps s temporary st and S deps ds temporary st
    rule: visit_order_visit_dependencies.induct)
  case (1 S deps s temporary permanent order)
  have fresh: "s |\<notin>| permanent" using 1(2) by auto
  show ?case
  proof (cases "position (\<lambda>entry. entry = s) temporary")
    case None
    have "visit_dependencies S deps (deps s) (temporary @ [s]) (permanent, order) = Inl c"
      using 1(2) fresh None by (auto simp: and_then_def split: sum.splits)
    then show ?thesis
      using 1(1) [OF fresh None] 1(3-5) by simp
  next
    case (Some i)
    then have c: "c = drop i temporary"
      using 1(2) fresh by simp
    have i: "i < length temporary" "temporary ! i = s"
      using Some by (simp_all add: position_Some)
    have "successively (\<lambda>a b. b \<in> set (deps a)) (drop i temporary @ [s])"
      using 1(5) successively_append_iff [of _ "take i temporary" "drop i temporary @ [s]"]
      by (metis append.assoc append_take_drop_id)
    then show ?thesis
      using c i 1(4) set_drop_subset [of i temporary]
      by (auto simp: dependency_cycle_def successively_append_iff hd_drop_conv_nth)
  qed
next
  case (2 S deps temporary st)
  then show ?case by simp
next
  case (3 S deps d ds temporary st)
  show ?case
  proof (cases "if d |\<in>| S then visit_order S deps d temporary st else Inr st")
    case (Inl c')
    then show ?thesis
      using 3 by (auto simp: successively_append_iff and_then_def split: if_splits)
  next
    case (Inr mid)
    then show ?thesis using 3(2) [of mid] 3(3-) by (simp add: and_then_def)
  qed
qed

lemma visit_all_sound:
  "visit_all S deps services st = Inr st' \<Longrightarrow> set services \<subseteq> fset S \<Longrightarrow> order_inv S deps st
   \<Longrightarrow> order_inv S deps st' \<and> fst st |\<subseteq>| fst st' \<and> set services \<subseteq> fset (fst st')"
proof (induction services arbitrary: st)
  case (Cons s services)
  then obtain mid where mid: "visit_order S deps s [] st = Inr mid"
    and rest: "visit_all S deps services mid = Inr st'"
    by (auto simp: and_then_def split: sum.splits)
  then show ?case
    using visit_sound(1) [OF mid] Cons.IH [OF rest] Cons.prems by auto
qed simp

lemma visit_all_cycle:
  "visit_all S deps services st = Inl c \<Longrightarrow> set services \<subseteq> fset S \<Longrightarrow> dependency_cycle S deps c"
  by (induction services arbitrary: st)
    (auto simp: and_then_def split: sum.splits dest: visit_cycle(1))

text \<open>Along a chain of strictly falling positions the last is below the first.\<close>

lemma successively_falling:
  "successively (\<lambda>a b. (f b :: nat) < f a) c \<Longrightarrow> c \<noteq> [] \<Longrightarrow> f (last c) \<le> f (hd c)"
  by (induction c rule: induct_list012) auto

lemma ordered_acyclic:
  assumes ord: "dependency_ordered S deps order" and all: "fset S \<subseteq> set order"
  shows "\<not> dependency_cycle S deps c"
proof
  assume "dependency_cycle S deps c"
  then have c: "c \<noteq> []" "set c \<subseteq> fset S" "successively (\<lambda>a b. b \<in> set (deps a)) c"
    "hd c \<in> set (deps (last c))"
    by (simp_all add: dependency_cycle_def)
  define f where "f x = (LEAST i. i < length order \<and> order ! i = x)" for x
  have step: "f b < f a" if a: "a |\<in>| S" and b: "b |\<in>| S" "b \<in> set (deps a)" for a b
  proof -
    have "a \<in> set order" using a all by blast
    then obtain i where "i < length order \<and> order ! i = a"
      by (auto simp: in_set_conv_nth)
    then have fa: "f a < length order \<and> order ! f a = a"
      unfolding f_def by (rule LeastI)
    then have "b \<in> set (take (f a) order)"
      using ord b by (auto simp: dependency_ordered_def)
    then obtain j where j: "j < f a" "j < length order" "order ! j = b"
      by (auto simp: in_set_conv_nth)
    then have "f b \<le> j"
      unfolding f_def by (intro Least_le) simp
    then show ?thesis using j by simp
  qed
  have "successively (\<lambda>a b. f b < f a) c"
    by (rule successively_mono [OF c(3)]) (use c(2) step in blast)
  then have "f (last c) \<le> f (hd c)"
    by (rule successively_falling) (rule c(1))
  moreover have "f (hd c) < f (last c)"
    using c(1,2,4) by (intro step) (auto simp: subset_iff)
  ultimately show False by simp
qed

lemma start_order_sound:
  assumes "dependency_start_order S deps = Inr order"
  shows "set order = fset S" "distinct order" "dependency_ordered S deps order"
proof -
  obtain p where "visit_all S deps (sorted_list_of_fset S) ({||}, []) = Inr (p, order)"
    using assms by (auto simp: dependency_start_order_def and_then_def split: sum.splits)
  then have "order_inv S deps (p, order) \<and> fset S \<subseteq> fset p"
    using visit_all_sound [of S deps "sorted_list_of_fset S" "({||}, [])"] by auto
  then show "set order = fset S" "distinct order" "dependency_ordered S deps order"
    unfolding order_inv.simps by (metis subset_antisym)+
qed

lemma start_order_cycle:
  "dependency_start_order S deps = Inl c \<Longrightarrow> dependency_cycle S deps c"
  by (auto simp: dependency_start_order_def and_then_def split: sum.splits intro: visit_all_cycle)

lemma start_order_total:
  "(\<exists>order. dependency_start_order S deps = Inr order) \<longleftrightarrow> (\<nexists>c. dependency_cycle S deps c)"
proof (cases "dependency_start_order S deps")
  case (Inl c)
  then show ?thesis using start_order_cycle [OF Inl] by auto
next
  case (Inr order)
  then show ?thesis
    using ordered_acyclic [OF start_order_sound(3) [OF Inr]] start_order_sound(1) [OF Inr] by simp
qed

lemma split_target_plain: "CHR '':'' \<notin> set declared \<Longrightarrow> split_target declared = (declared, None)"
  by (simp add: split_target_def split_once_None [symmetric])

lemma split_target_no_colon: "CHR '':'' \<notin> set (fst (split_target declared))"
  by (auto simp: split_target_def split_once_None split_once_Some split: option.splits)

lemma split_target_level:
  "CHR '':'' \<notin> set service \<Longrightarrow> level \<noteq> []
   \<Longrightarrow> split_target (service @ '':'' @ level) = (service, Some level)"
  using split_once_Some [of "CHR '':''" "service @ '':'' @ level" service level]
  by (simp add: split_target_def)

lemma set_start_order_dependency_targets:
  "set (start_order_dependency_targets d)
   = (fst \<circ> split_target) ` (set (sd_requires d) \<union> set (sd_binds_to d) \<union> set (sd_wants d))"
  by (auto simp: start_order_dependency_targets_def)

lemma dependency_fields [simp]:
  "dep_target (dependency declared kind) = fst (split_target declared)"
  "dep_level (dependency declared kind) = snd (split_target declared)"
  "dep_kind (dependency declared kind) = kind"
  by (simp_all add: dependency_def split: prod.split)

lemma set_all_declared_targets:
  "dep_target ` set (all_declared_dependencies d) = set (start_order_dependency_targets d)"
  by (simp add: all_declared_dependencies_def start_order_dependency_targets_def image_Un
      image_image Un_ac)

lemma existing_targets:
  "set (existing_start_order_dependency_targets d contains)
   = {t \<in> set (start_order_dependency_targets d). contains t}"
  "distinct (existing_start_order_dependency_targets d contains)"
  by (auto simp: existing_start_order_dependency_targets_def set_first_seen distinct_first_seen)

section \<open>Properties\<close>

text \<open>
  C1: the start order is correct and complete. When it succeeds, the order lists each startable
  service exactly once and every startable dependency before its dependent, and the
  dependencies have no cycle among the startable services; when it fails, the services it names
  form such a cycle.
\<close>

theorem dependency_start_order_correct:
  "case dependency_start_order startable deps of
     Inl c \<Rightarrow> dependency_cycle startable deps c
   | Inr order \<Rightarrow>
       set order = fset startable \<and> distinct order \<and> dependency_ordered startable deps order
       \<and> (\<nexists>c. dependency_cycle startable deps c)"
  using start_order_sound [of startable deps] start_order_cycle [of startable deps]
    start_order_total [of startable deps]
  by (simp split: sum.split)

text \<open>
  A declaration \<open>service:level\<close> with a valid service name and a level splits into exactly
  those two, and a valid service name alone is a plain dependency.
\<close>

theorem split_target_declarations:
  assumes "is_valid_service_name service" and "level \<noteq> []"
  shows "split_target (service @ '':'' @ level) = (service, Some level)
    \<and> split_target service = (service, None) \<and> split_target (service @ '':'') = (service, None)"
  using split_target_level split_target_plain valid_name_no_separator(1) [OF assms(1)] assms(2)
    split_once_Some [of "CHR '':''" "service @ '':''" service "[]"]
  by (simp add: split_target_def)

theorem split_target_declarations_witness:
  "split_target ''netd:routed:v6'' = (''netd'', Some ''routed:v6'')"
  using split_target_declarations [of "''netd''" "''routed:v6''"]
  by (simp add: is_valid_service_name_def is_ascii_alphanumeric_def)

end
