(* ===== verification/Role.thy ===== *)
theory Role
  imports Dependency
begin

text \<open>
  Roles (\<open>src/service/role.rs\<close>): dependencies peinit derives from a service's identity, and
  declared references to a role, rewritten to the services that fill it.

  The lemmas show that synthesis touches nothing but the dependency lists, that it is idempotent
  on definitions with valid, distinct names, and that afterwards every service that needs the
  authority has a hard dependency on every provider of it but itself.
\<close>

section \<open>Definitions\<close>

definition AUTHN_ROLE :: string where
  "AUTHN_ROLE = ''authn''"

definition requires_authority :: "service_definition \<Rightarrow> bool" where
  "requires_authority d \<longleftrightarrow>
     (if \<not> is_system_identity (sd_identity d) then True
      else (sd_exec_start_pre d \<noteq> [] \<or> sd_exec_start_post d \<noteq> [])
        \<and> \<not> is_system_identity (hook_execution_identity d))"

text \<open>The providers of each role, in definition order.\<close>

definition add_provider :: "string \<Rightarrow> string \<Rightarrow> (string, string list) btmap
    \<Rightarrow> (string, string list) btmap" where
  "add_provider name role roles = bt_insert role (bt_get_or [] roles role @ [name]) roles"

definition role_index :: "service_definition list \<Rightarrow> (string, string list) btmap" where
  "role_index definitions =
     fold (\<lambda>d. fold (add_provider (sd_name d)) (sd_provides d)) definitions bt_empty"

definition resolve_entry ::
  "string set \<Rightarrow> (string, string list) btmap \<Rightarrow> string \<Rightarrow> string \<Rightarrow> string list" where
  "resolve_entry names roles me entry =
     (let (target, level) = split_target entry
      in case bt_get roles target of
          Some providers \<Rightarrow>
            if target \<notin> names
            then map (\<lambda>provider. case level of Some l \<Rightarrow> provider @ '':'' @ l | None \<Rightarrow> provider)
                   (filter (\<lambda>provider. provider \<noteq> me) providers)
            else [entry]
        | None \<Rightarrow> [entry])"

definition resolve_list ::
  "string set \<Rightarrow> (string, string list) btmap \<Rightarrow> string \<Rightarrow> string list \<Rightarrow> string list" where
  "resolve_list names roles me entries =
     fold push_new (concat (map (resolve_entry names roles me) entries)) []"

definition resolve_definition ::
  "string set \<Rightarrow> (string, string list) btmap \<Rightarrow> service_definition \<Rightarrow> service_definition" where
  "resolve_definition names roles d =
     d\<lparr>sd_requires := resolve_list names roles (sd_name d) (sd_requires d),
       sd_wants := resolve_list names roles (sd_name d) (sd_wants d),
       sd_binds_to := resolve_list names roles (sd_name d) (sd_binds_to d)\<rparr>"

definition resolve_role_references :: "service_definition list \<Rightarrow> service_definition list" where
  "resolve_role_references definitions =
     (let roles = role_index definitions
      in if bt_entries roles = [] then definitions
         else map (resolve_definition (set (map sd_name definitions)) roles) definitions)"

definition role_providers :: "service_definition list \<Rightarrow> string \<Rightarrow> string list" where
  "role_providers definitions role =
     map sd_name (filter (\<lambda>d. role \<in> set (sd_provides d)) definitions)"

definition add_authority :: "string list \<Rightarrow> service_definition \<Rightarrow> service_definition" where
  "add_authority providers d =
     (if \<not> requires_authority d \<or> AUTHN_ROLE \<in> set (sd_provides d) then d
      else
        let declared = set (map (fst \<circ> split_target) (sd_requires d @ sd_binds_to d));
            additions = filter (\<lambda>provider. provider \<noteq> sd_name d \<and> provider \<notin> declared) providers
        in d\<lparr>sd_requires := sd_requires d @ additions\<rparr>)"

definition synthesise_role_dependencies ::
  "service_definition list \<Rightarrow> service_definition list" where
  "synthesise_role_dependencies definitions =
     (let definitions = resolve_role_references definitions;
          providers = role_providers definitions AUTHN_ROLE
      in if providers = [] then definitions else map (add_authority providers) definitions)"

section \<open>What synthesis leaves alone\<close>

text \<open>A definition with its dependency lists blanked: everything synthesis must not touch.\<close>

definition sans_dependencies :: "service_definition \<Rightarrow> service_definition" where
  "sans_dependencies d = d\<lparr>sd_requires := [], sd_wants := [], sd_binds_to := []\<rparr>"

lemma sans_resolve [simp]: "sans_dependencies (resolve_definition names roles d) = sans_dependencies d"
  by (simp add: sans_dependencies_def resolve_definition_def)

lemma sans_add_authority [simp]: "sans_dependencies (add_authority providers d) = sans_dependencies d"
  by (simp add: sans_dependencies_def add_authority_def Let_def)

lemma sans_fields:
  assumes "sans_dependencies d = sans_dependencies e"
  shows "sd_name d = sd_name e" "sd_provides d = sd_provides e"
    "requires_authority d = requires_authority e"
proof -
  show "sd_name d = sd_name e" "sd_provides d = sd_provides e"
    using arg_cong [OF assms, of sd_name] arg_cong [OF assms, of sd_provides]
    by (simp_all add: sans_dependencies_def)
  show "requires_authority d = requires_authority e"
    using arg_cong [OF assms, of sd_identity] arg_cong [OF assms, of sd_exec_start_pre]
      arg_cong [OF assms, of sd_exec_start_post] arg_cong [OF assms, of sd_hook_identity]
    by (simp add: sans_dependencies_def requires_authority_def hook_execution_identity_def
        split: option.split)
qed

lemma synthesise_sans:
  "map sans_dependencies (synthesise_role_dependencies ds) = map sans_dependencies ds"
  by (simp add: synthesise_role_dependencies_def resolve_role_references_def Let_def o_def)

lemma map_sans_fields:
  assumes "map sans_dependencies ds = map sans_dependencies es"
  shows "map sd_name ds = map sd_name es" "role_index ds = role_index es"
    "role_providers ds role = role_providers es role"
proof -
  have *: "list_all2 (\<lambda>d e. sans_dependencies d = sans_dependencies e) ds es"
    using assms by (simp add: list_all2_conv_all_nth list_eq_iff_nth_eq)
  have index: "fold (\<lambda>d. fold (add_provider (sd_name d)) (sd_provides d)) ds m
      = fold (\<lambda>d. fold (add_provider (sd_name d)) (sd_provides d)) es m" for m
    using *
  proof (induction arbitrary: m rule: list_all2_induct)
    case (Cons d ds e es)
    then show ?case using sans_fields [OF Cons.hyps(1)] by simp
  qed simp
  have "map sd_name ds = map sd_name es \<and> role_providers ds role = role_providers es role"
    using *
  proof (induction rule: list_all2_induct)
    case (Cons d ds e es)
    then show ?case using sans_fields [OF Cons.hyps(1)] by (simp add: role_providers_def)
  qed (simp add: role_providers_def)
  then show "map sd_name ds = map sd_name es" "role_providers ds role = role_providers es role"
    by simp_all
  show "role_index ds = role_index es" by (simp add: role_index_def index)
qed

section \<open>Role references\<close>

lemma fold_push_new: "fold push_new xs acc = acc @ first_seen (set acc) xs"
  by (induction xs arbitrary: acc) (auto simp: push_new_def)

lemma first_seen_id: "distinct xs \<Longrightarrow> set xs \<inter> seen = {} \<Longrightarrow> first_seen seen xs = xs"
  by (induction xs arbitrary: seen) auto

lemma resolve_list_first_seen:
  "resolve_list names roles me entries
   = first_seen {} (concat (map (resolve_entry names roles me) entries))"
  by (simp add: resolve_list_def fold_push_new)

text \<open>An entry the rewriting leaves as written: its target is a service, or no role at all.\<close>

definition settled :: "string set \<Rightarrow> (string, string list) btmap \<Rightarrow> string \<Rightarrow> bool" where
  "settled names roles entry \<longleftrightarrow>
     fst (split_target entry) \<in> names \<or> bt_get roles (fst (split_target entry)) = None"

lemma resolve_entry_settled: "settled names roles entry \<Longrightarrow> resolve_entry names roles me entry = [entry]"
  by (auto simp: settled_def resolve_entry_def split: prod.splits option.splits)

lemma resolve_list_settled:
  "distinct entries \<Longrightarrow> (\<And>e. e \<in> set entries \<Longrightarrow> settled names roles e)
   \<Longrightarrow> resolve_list names roles me entries = entries"
proof -
  assume d: "distinct entries" and s: "\<And>e. e \<in> set entries \<Longrightarrow> settled names roles e"
  have "concat (map (resolve_entry names roles me) entries) = entries"
    using s by (induction entries) (simp_all add: resolve_entry_settled)
  then show ?thesis using d by (simp add: resolve_list_first_seen first_seen_id)
qed

text \<open>Every provider in the index is the name of a definition.\<close>

definition roles_within :: "string set \<Rightarrow> (string, string list) btmap \<Rightarrow> bool" where
  "roles_within names roles \<longleftrightarrow> (\<forall>role ps. bt_get roles role = Some ps \<longrightarrow> set ps \<subseteq> names)"

lemma roles_within_add: "roles_within names roles \<Longrightarrow> name \<in> names
    \<Longrightarrow> roles_within names (add_provider name role roles)"
  unfolding roles_within_def add_provider_def bt_get_or_def
  by (cases "bt_get roles role") (auto split: if_splits)

lemma roles_within_fold:
  "roles_within names roles \<Longrightarrow> name \<in> names \<Longrightarrow> roles_within names (fold (add_provider name) rs roles)"
  by (induction rs arbitrary: roles) (simp_all add: roles_within_add)

lemma roles_within_index: "roles_within (sd_name ` set ds) (role_index ds)"
proof -
  have "roles_within names roles \<Longrightarrow> sd_name ` set ds \<subseteq> names
    \<Longrightarrow> roles_within names (fold (\<lambda>d. fold (add_provider (sd_name d)) (sd_provides d)) ds roles)"
    for names roles
    by (induction ds arbitrary: roles) (simp_all add: roles_within_fold)
  from this [of "sd_name ` set ds" bt_empty] show ?thesis
    by (simp add: role_index_def) (simp add: roles_within_def)
qed

lemma resolve_entry_settles:
  assumes "roles_within names roles" and "\<And>n. n \<in> names \<Longrightarrow> CHR '':'' \<notin> set n"
    and "e \<in> set (resolve_entry names roles me entry)"
  shows "settled names roles e"
proof -
  obtain target level where st: "split_target entry = (target, level)" by (cases "split_target entry")
  show ?thesis
  proof (cases "settled names roles entry")
    case True
    then show ?thesis using assms(3) by (simp add: resolve_entry_settled)
  next
    case False
    then obtain ps where ps: "bt_get roles target = Some ps" "target \<notin> names"
      using st by (auto simp: settled_def)
    then obtain p where p: "p \<in> names" and e: "e = (case level of Some l \<Rightarrow> p @ '':'' @ l | None \<Rightarrow> p)"
      using assms(1,3) st by (auto simp: resolve_entry_def roles_within_def)
    have "fst (split_target e) = p"
    proof (cases level)
      case None
      then show ?thesis using e assms(2) [OF p] by (simp add: split_target_plain)
    next
      case (Some l)
      moreover have "l \<noteq> []"
        using st Some by (auto simp: split_target_def split: option.splits prod.splits if_splits)
      ultimately show ?thesis using e assms(2) [OF p] split_target_level [of p l] by simp
    qed
    then show ?thesis using p by (simp add: settled_def)
  qed
qed

lemma resolve_list_settles:
  assumes "roles_within names roles" and "\<And>n. n \<in> names \<Longrightarrow> CHR '':'' \<notin> set n"
  shows "e \<in> set (resolve_list names roles me entries) \<Longrightarrow> settled names roles e"
    and "distinct (resolve_list names roles me entries)"
  using resolve_entry_settles [OF assms]
  by (auto simp: resolve_list_first_seen set_first_seen distinct_first_seen)

section \<open>Synthesis\<close>

lemma set_role_providers: "set (role_providers ds role) \<subseteq> sd_name ` set ds"
  by (auto simp: role_providers_def)

lemma distinct_role_providers: "distinct (map sd_name ds) \<Longrightarrow> distinct (role_providers ds role)"
  by (simp add: role_providers_def distinct_map_filter)

lemma add_authority_requires:
  "sd_requires (add_authority P d) =
     sd_requires d @
     (if \<not> requires_authority d \<or> AUTHN_ROLE \<in> set (sd_provides d) then []
      else filter (\<lambda>p. p \<noteq> sd_name d \<and> p \<notin> (fst \<circ> split_target) ` set (sd_requires d @ sd_binds_to d))
        P)"
  "sd_wants (add_authority P d) = sd_wants d" "sd_binds_to (add_authority P d) = sd_binds_to d"
  by (simp_all add: add_authority_def Let_def image_Un)

lemma add_authority_idem:
  assumes "\<And>p. p \<in> set P \<Longrightarrow> CHR '':'' \<notin> set p"
  shows "add_authority P (add_authority P d) = add_authority P d"
proof (cases "\<not> requires_authority d \<or> AUTHN_ROLE \<in> set (sd_provides d)")
  case True
  then show ?thesis by (simp add: add_authority_def)
next
  case False
  let ?e = "add_authority P d"
  have same: "sd_name ?e = sd_name d" "\<not> (\<not> requires_authority ?e \<or> AUTHN_ROLE \<in> set (sd_provides ?e))"
    using sans_fields [of ?e d] False by simp_all
  have "filter (\<lambda>p. p \<noteq> sd_name ?e
      \<and> p \<notin> (fst \<circ> split_target) ` set (sd_requires ?e @ sd_binds_to ?e)) P = []"
    using assms False by (force simp: filter_empty_conv add_authority_requires same(1)
        split_target_plain image_Un)
  then show ?thesis
    using same(2) by (simp add: add_authority_def [of P ?e] Let_def image_Un)
qed

lemma resolve_synthesised:
  assumes d: "distinct (sd_requires d)" "distinct (sd_wants d)" "distinct (sd_binds_to d)"
    and s: "\<And>e. e \<in> set (sd_requires d @ sd_wants d @ sd_binds_to d) \<Longrightarrow> settled names roles e"
    and P: "distinct P" "set P \<subseteq> names" "\<And>p. p \<in> set P \<Longrightarrow> CHR '':'' \<notin> set p"
  shows "resolve_definition names roles (add_authority P d) = add_authority P d"
    and "resolve_definition names roles d = d"
proof -
  let ?e = "add_authority P d"
  have split: "fst (split_target p) = p" if "p \<in> set P" for p
    using split_target_plain P(3) [OF that] by simp
  have "distinct (sd_requires ?e)"
    using d(1) P(1) split by (force simp: add_authority_requires)
  moreover have "settled names roles e" if "e \<in> set (sd_requires ?e)" for e
  proof (cases "e \<in> set (sd_requires d)")
    case True
    then show ?thesis using s by simp
  next
    case False
    then show ?thesis
      using that P(2) split by (auto simp: add_authority_requires settled_def split: if_splits)
  qed
  ultimately have "resolve_list names roles me (sd_requires ?e) = sd_requires ?e" for me
    by (rule resolve_list_settled)
  moreover have "resolve_list names roles me (sd_wants d) = sd_wants d"
    "resolve_list names roles me (sd_binds_to d) = sd_binds_to d"
    "resolve_list names roles me (sd_requires d) = sd_requires d" for me
    using d s by (auto intro!: resolve_list_settled)
  ultimately show "resolve_definition names roles ?e = ?e" "resolve_definition names roles d = d"
    by (simp_all add: resolve_definition_def add_authority_requires(2,3))
qed

lemma map_idem: "(\<And>x. x \<in> set xs \<Longrightarrow> f (f x) = f x) \<Longrightarrow> map (\<lambda>x. f (f x)) xs = map f xs"
  by simp

lemma synthesise_idem:
  assumes valid: "\<And>d. d \<in> set ds \<Longrightarrow> is_valid_service_name (sd_name d)"
    and dist: "distinct (map sd_name ds)"
  shows "synthesise_role_dependencies (synthesise_role_dependencies ds)
    = synthesise_role_dependencies ds"
proof -
  let ?ds = "synthesise_role_dependencies ds" and ?N = "sd_name ` set ds"
  define P where "P = role_providers ds AUTHN_ROLE"
  define R where "R = role_index ds"
  define A where "A = (if P = [] then id else add_authority P)"
  have P: "distinct P" "set P \<subseteq> ?N"
    using distinct_role_providers [OF dist] set_role_providers by (auto simp: P_def)
  have colon: "n \<in> ?N \<Longrightarrow> CHR '':'' \<notin> set n" for n
    using valid valid_name_no_separator(1) by auto
  have AA: "A (A d) = A d" for d
    using add_authority_idem [of P d] P colon by (auto simp: A_def)
  have within: "roles_within ?N R" unfolding R_def by (rule roles_within_index)
  have syn: "synthesise_role_dependencies es =
      (if bt_entries R = [] then map A es else map A (map (resolve_definition ?N R) es))"
    if "map sans_dependencies es = map sans_dependencies ds" for es
    using map_sans_fields [OF that] map_sans_fields(3) [of "map (resolve_definition ?N R) es" es]
      arg_cong [OF map_sans_fields(1) [OF that], of set]
    by (simp add: synthesise_role_dependencies_def resolve_role_references_def A_def P_def R_def
        o_def)
  have ds1: "?ds = (if bt_entries R = [] then map A ds else map A (map (resolve_definition ?N R) ds))"
    by (rule syn) simp
  have "resolve_definition ?N R (A (resolve_definition ?N R d)) = A (resolve_definition ?N R d)" for d
  proof -
    let ?d = "resolve_definition ?N R d"
    have "distinct (sd_requires ?d)" "distinct (sd_wants ?d)" "distinct (sd_binds_to ?d)"
      using resolve_list_settles(2) [OF within colon] by (simp_all add: resolve_definition_def)
    moreover have "settled ?N R e" if "e \<in> set (sd_requires ?d @ sd_wants ?d @ sd_binds_to ?d)" for e
      using that resolve_list_settles(1) [OF within colon] by (auto simp: resolve_definition_def)
    ultimately show ?thesis
      using resolve_synthesised [of ?d ?N R P] P colon by (auto simp: A_def)
  qed
  then have "synthesise_role_dependencies ?ds = ?ds"
    using syn [OF synthesise_sans [of ds]] AA ds1 by (simp add: o_def)
  then show ?thesis .
qed

lemma synthesise_authority_edges:
  assumes "d \<in> set (synthesise_role_dependencies ds)" "requires_authority d"
    "AUTHN_ROLE \<notin> set (sd_provides d)" "p \<in> set (role_providers ds AUTHN_ROLE)" "p \<noteq> sd_name d"
    "CHR '':'' \<notin> set p"
  shows "p \<in> dep_target ` set (hard_dependencies d)"
proof -
  let ?ds = "resolve_role_references ds"
  have "map sans_dependencies ?ds = map sans_dependencies ds"
    by (simp add: resolve_role_references_def Let_def o_def)
  then have P: "role_providers ?ds AUTHN_ROLE = role_providers ds AUTHN_ROLE"
    by (rule map_sans_fields(3))
  then obtain e where e: "d = add_authority (role_providers ds AUTHN_ROLE) e"
    using assms(1,4) by (auto simp: synthesise_role_dependencies_def Let_def split: if_splits)
  have "requires_authority e" "AUTHN_ROLE \<notin> set (sd_provides e)" "p \<noteq> sd_name e"
    using assms(2,3,5) sans_fields [of d e] e by simp_all
  then have "p \<in> (fst \<circ> split_target) ` set (sd_requires d @ sd_binds_to d)"
    using e assms(4) split_target_plain [OF assms(6)]
    by (force simp: add_authority_requires image_Un)
  then show ?thesis
    by (auto simp: hard_dependencies_def image_Un image_image)
qed

section \<open>Properties\<close>

text \<open>
  C23: role synthesis is idempotent on any set of definitions with valid and distinct names, as its
  documentation claims.
\<close>

theorem role_synthesis_idempotent:
  assumes "\<And>d. d \<in> set ds \<Longrightarrow> is_valid_service_name (sd_name d)" and "distinct (map sd_name ds)"
  shows "synthesise_role_dependencies (synthesise_role_dependencies ds)
    = synthesise_role_dependencies ds"
  using assms by (rule synthesise_idem)

theorem role_synthesis_idempotent_witness:
  "let ds = synthesise_role_dependencies
       [(simple_system_boot ''authd'' ''/a'')\<lparr>sd_provides := [''authn'']\<rparr>,
        (simple_system_boot ''web'' ''/w'')\<lparr>sd_identity := ''LocalService''\<rparr>]
   in synthesise_role_dependencies ds = ds"
  unfolding Let_def
  by (rule role_synthesis_idempotent)
    (auto simp: simple_system_boot_def is_valid_service_name_def is_ascii_alphanumeric_def)

text \<open>
  C22: when all service names are valid, after synthesis every service that needs the authority and
  does not itself provide it has a hard dependency on each provider of the authority other than
  itself; and synthesis changes nothing of a definition but its \<open>requires\<close>, \<open>wants\<close> and \<open>binds_to\<close>
  lists.
\<close>

theorem role_synthesis_orders_authority:
  assumes "\<And>d. d \<in> set ds \<Longrightarrow> is_valid_service_name (sd_name d)"
    and "d \<in> set (synthesise_role_dependencies ds)" and "requires_authority d"
    and "AUTHN_ROLE \<notin> set (sd_provides d)"
  shows "set (role_providers ds AUTHN_ROLE) - {sd_name d} \<subseteq> dep_target ` set (hard_dependencies d)
    \<and> map sans_dependencies (synthesise_role_dependencies ds) = map sans_dependencies ds"
proof -
  have "p \<in> dep_target ` set (hard_dependencies d)"
    if "p \<in> set (role_providers ds AUTHN_ROLE) - {sd_name d}" for p
    using that assms set_role_providers [of ds AUTHN_ROLE] valid_name_no_separator(1)
    by (intro synthesise_authority_edges [of d ds]) auto
  then show ?thesis using synthesise_sans by blast
qed

theorem role_synthesis_orders_authority_witness:
  "let ds = [(simple_system_boot ''authd'' ''/a'')\<lparr>sd_provides := [''authn'']\<rparr>,
             (simple_system_boot ''web'' ''/w'')\<lparr>sd_identity := ''LocalService''\<rparr>];
       d = last (synthesise_role_dependencies ds)
   in set (role_providers ds AUTHN_ROLE) - {sd_name d} \<subseteq> dep_target ` set (hard_dependencies d)
    \<and> map sans_dependencies (synthesise_role_dependencies ds) = map sans_dependencies ds"
  unfolding Let_def
proof (rule role_synthesis_orders_authority)
  let ?ds = "[(simple_system_boot ''authd'' ''/a'')\<lparr>sd_provides := [''authn'']\<rparr>,
             (simple_system_boot ''web'' ''/w'')\<lparr>sd_identity := ''LocalService''\<rparr>]"
  show "\<And>d. d \<in> set ?ds \<Longrightarrow> is_valid_service_name (sd_name d)"
    by (auto simp: simple_system_boot_def is_valid_service_name_def is_ascii_alphanumeric_def)
  have len: "length (synthesise_role_dependencies ?ds) = 2"
    using arg_cong [OF synthesise_sans [of ?ds], of length] by simp
  then have ne: "synthesise_role_dependencies ?ds \<noteq> []" by auto
  then show "last (synthesise_role_dependencies ?ds) \<in> set (synthesise_role_dependencies ?ds)"
    by (rule last_in_set)
  have "sans_dependencies (last (synthesise_role_dependencies ?ds)) = sans_dependencies (last ?ds)"
    using arg_cong [OF synthesise_sans [of ?ds], of last] by (simp add: last_map [OF ne])
  note f = sans_fields [OF this]
  show "requires_authority (last (synthesise_role_dependencies ?ds))"
    "AUTHN_ROLE \<notin> set (sd_provides (last (synthesise_role_dependencies ?ds)))"
    unfolding f by (simp_all add: requires_authority_def is_system_identity_def SYSTEM_IDENTITY_def
        simple_system_boot_def)
qed

end
