(* ===== verification/Runtime.thy ===== *)
theory Runtime
  imports Service_Definition
begin

text \<open>
  The runtime state of one service (\<open>src/service/runtime\<close>) and the restart decision taken when
  it fails (\<open>src/service/restart.rs\<close>): the ten states, the causes, the table of allowed
  transitions, the snapshot and its transition function. Snapshot fields carry the prefix
  \<open>rt_\<close>; \<open>JobProgress\<close> and \<open>JobProgressUnit\<close> are the types of \<open>src/submitted/model.rs\<close>.

  The lemmas show what each accepted transition changes, that a refused one changes nothing,
  the shape of the transition relation, that a service's generation counts its activations,
  and the bounds and the budget of the restart decision.
\<close>

section \<open>States, causes and health\<close>

datatype service_state =
    Inactive | Starting | Active | Reloading | Stopping | Completed | Backoff | Failed
  | Abandoned | Skipped

fun satisfies_dependents :: "service_state \<Rightarrow> bool" where
  "satisfies_dependents Active = True"
| "satisfies_dependents Reloading = True"
| "satisfies_dependents Completed = True"
| "satisfies_dependents Skipped = True"
| "satisfies_dependents _ = False"

datatype presence = PresenceNone | PresenceOptional | PresenceExpected

definition process_presence :: "service_state \<Rightarrow> presence" where
  "process_presence s =
     (case s of
        Starting \<Rightarrow> PresenceOptional
      | Active \<Rightarrow> PresenceExpected
      | Reloading \<Rightarrow> PresenceExpected
      | Stopping \<Rightarrow> PresenceExpected
      | Abandoned \<Rightarrow> PresenceExpected
      | _ \<Rightarrow> PresenceNone)"

datatype service_health_status = UnknownHealth | Healthy | Unhealthy

record service_health_snapshot =
  hs_status :: service_health_status
  hs_consecutive_failures :: u32
  hs_last_checked_at_ns :: "u64 option"

definition health_unknown :: service_health_snapshot where
  "health_unknown =
     \<lparr>hs_status = UnknownHealth, hs_consecutive_failures = 0, hs_last_checked_at_ns = None\<rparr>"

definition record_success :: "u64 \<Rightarrow> service_health_snapshot \<Rightarrow> service_health_snapshot" where
  "record_success checked_at_ns h =
     h\<lparr>hs_status := Healthy, hs_consecutive_failures := 0,
       hs_last_checked_at_ns := Some checked_at_ns\<rparr>"

definition record_failure ::
  "u64 \<Rightarrow> service_health_snapshot \<Rightarrow> u32 \<times> service_health_snapshot" where
  "record_failure checked_at_ns h =
     (let failures = sat_add (hs_consecutive_failures h) 1
      in (failures,
          h\<lparr>hs_status := Unhealthy, hs_consecutive_failures := failures,
            hs_last_checked_at_ns := Some checked_at_ns\<rparr>))"

datatype leaked_cgroup_kind = ServiceTree | HealthTree | HooksTree | HelperTree

record leaked_cgroup =
  lc_path :: string
  lc_kind :: leaked_cgroup_kind
  lc_detected_at_ns :: u64

datatype transition_cause =
    ExplicitStart | DependencyStart | RestartByPolicy | BindsToRecovery | ExplicitStop
  | ExplicitReload | ExplicitReset | ConflictEviction | BindsToPropagation | TimerCause
  | ShutdownWave | ProcessCrash | CleanExit | CleanExitRestart | ReadinessTimeout
  | WatchdogTimeout | HealthCheckFailure | PreHookFailure | ParentSetupFailure
  | PreExecFailure | DependencyFailure | RestartBudgetExhausted | CycleDetected
  | ValidationError | AssertionError | ConditionSkipped | TtyUnavailable
  | ProcessUnkillable | InternalError

record service_stopping_timeout_evidence =
  st_started_at_ns :: u64
  st_due_at_ns :: u64
  st_cause :: transition_cause

datatype consultation = RestartEligible | AlwaysOnly | BudgetExempt | NeverConsulted

definition restart_consultation :: "transition_cause \<Rightarrow> consultation" where
  "restart_consultation c =
     (case c of
        ProcessCrash \<Rightarrow> RestartEligible
      | WatchdogTimeout \<Rightarrow> RestartEligible
      | HealthCheckFailure \<Rightarrow> RestartEligible
      | ReadinessTimeout \<Rightarrow> RestartEligible
      | PreHookFailure \<Rightarrow> RestartEligible
      | PreExecFailure \<Rightarrow> RestartEligible
      | ParentSetupFailure \<Rightarrow> RestartEligible
      | CleanExitRestart \<Rightarrow> AlwaysOnly
      | BindsToRecovery \<Rightarrow> BudgetExempt
      | _ \<Rightarrow> NeverConsulted)"

definition triggers_on_failure :: "transition_cause \<Rightarrow> bool" where
  "triggers_on_failure c \<longleftrightarrow>
     c \<notin> {ShutdownWave, ValidationError, CycleDetected, DependencyFailure, AssertionError,
          ConditionSkipped, TtyUnavailable, InternalError}"

section \<open>Snapshots\<close>

datatype job_progress_unit = Bytes | Items | Percent

record job_progress =
  jp_current :: u64
  jp_total :: "u64 option"
  jp_bounded :: bool

record service_runtime_snapshot =
  rt_service :: string
  rt_state :: service_state
  rt_cause :: "transition_cause option"
  rt_generation :: u64
  rt_cgroup_generation :: u64
  rt_dependent_satisfied_since_ns :: "u64 option"
  rt_consecutive_restart_failures :: u32
  rt_restart_backoff_until_ns :: "u64 option"
  rt_status_text :: "string option"
  rt_progress :: "job_progress option"
  rt_progress_unit :: "job_progress_unit option"
  rt_last_progress_event_ns :: "u64 option"
  rt_levels :: "string fset"
  rt_stopping_acknowledged :: bool
  rt_stopping_timeout :: "service_stopping_timeout_evidence option"
  rt_pending_timer :: bool
  rt_health :: service_health_snapshot
  rt_leaked_cgroups :: "leaked_cgroup list"

definition runtime_inactive :: "string \<Rightarrow> service_runtime_snapshot" where
  "runtime_inactive service = \<lparr>
     rt_service = service,
     rt_state = Inactive,
     rt_cause = None,
     rt_generation = 0,
     rt_cgroup_generation = 0,
     rt_dependent_satisfied_since_ns = None,
     rt_consecutive_restart_failures = 0,
     rt_restart_backoff_until_ns = None,
     rt_status_text = None,
     rt_progress = None,
     rt_progress_unit = None,
     rt_last_progress_event_ns = None,
     rt_levels = {||},
     rt_stopping_acknowledged = False,
     rt_stopping_timeout = None,
     rt_pending_timer = False,
     rt_health = health_unknown,
     rt_leaked_cgroups = []\<rparr>"

definition mark_dependent_satisfied_since ::
  "u64 \<Rightarrow> service_runtime_snapshot \<Rightarrow> service_runtime_snapshot" where
  "mark_dependent_satisfied_since satisfied_at_ns r =
     (if satisfies_dependents (rt_state r)
      then r\<lparr>rt_dependent_satisfied_since_ns := Some satisfied_at_ns\<rparr>
      else r)"

section \<open>The transition rules\<close>

definition start_succeeded :: "transition_cause \<Rightarrow> bool" where
  "start_succeeded c \<longleftrightarrow>
     c \<in> {ExplicitStart, DependencyStart, RestartByPolicy, BindsToRecovery, TimerCause}"

definition is_startup_retry_cause :: "transition_cause \<Rightarrow> bool" where
  "is_startup_retry_cause c \<longleftrightarrow>
     c \<in> {ReadinessTimeout, PreHookFailure, ProcessCrash, PreExecFailure, ParentSetupFailure}"

definition is_stop_cause :: "transition_cause \<Rightarrow> bool" where
  "is_stop_cause c \<longleftrightarrow> c \<in> {ExplicitStop, ConflictEviction, BindsToPropagation, ShutdownWave}"

definition is_allowed_transition ::
  "service_state \<Rightarrow> service_state \<Rightarrow> transition_cause \<Rightarrow> bool" where
  "is_allowed_transition from to c =
     (case (from, to) of
        (Inactive, Starting) \<Rightarrow> c \<in> {ExplicitStart, DependencyStart, TimerCause}
      | (Inactive, Skipped) \<Rightarrow> c \<in> {ConditionSkipped, TtyUnavailable}
      | (Inactive, Failed) \<Rightarrow>
          c \<in> {ValidationError, AssertionError, CycleDetected, DependencyFailure}
      | (Starting, Active) \<Rightarrow> start_succeeded c
      | (Starting, Completed) \<Rightarrow> start_succeeded c
      | (Starting, Skipped) \<Rightarrow> c = ConditionSkipped
      | (Starting, Backoff) \<Rightarrow> is_startup_retry_cause c
      | (Starting, Stopping) \<Rightarrow> c = ExplicitStop
      | (Starting, Failed) \<Rightarrow>
          c \<in> {AssertionError, ReadinessTimeout, PreHookFailure, ParentSetupFailure,
               PreExecFailure, ProcessCrash, ShutdownWave, DependencyFailure, ValidationError,
               CycleDetected, RestartBudgetExhausted, InternalError}
      | (Active, Reloading) \<Rightarrow> c = ExplicitReload
      | (Active, Stopping) \<Rightarrow> is_stop_cause c
      | (Active, Backoff) \<Rightarrow>
          c \<in> {ProcessCrash, CleanExitRestart, HealthCheckFailure, WatchdogTimeout}
      | (Active, Failed) \<Rightarrow>
          c \<in> {ProcessCrash, HealthCheckFailure, WatchdogTimeout, RestartBudgetExhausted,
               InternalError}
      | (Active, Inactive) \<Rightarrow> c = CleanExit
      | (Backoff, Starting) \<Rightarrow> c = RestartByPolicy
      | (Backoff, Inactive) \<Rightarrow> c = ExplicitStop
      | (Backoff, Skipped) \<Rightarrow> c \<in> {ConditionSkipped, TtyUnavailable}
      | (Backoff, Failed) \<Rightarrow> c = InternalError
      | (Reloading, Active) \<Rightarrow> c = ExplicitReload
      | (Reloading, Stopping) \<Rightarrow> is_stop_cause c
      | (Reloading, Backoff) \<Rightarrow> c = ProcessCrash
      | (Reloading, Failed) \<Rightarrow> c \<in> {ProcessCrash, RestartBudgetExhausted, InternalError}
      | (Stopping, Inactive) \<Rightarrow> c \<in> {ExplicitStop, ShutdownWave}
      | (Stopping, Failed) \<Rightarrow> c \<in> {ConflictEviction, BindsToPropagation, InternalError}
      | (Stopping, Abandoned) \<Rightarrow> c = ProcessUnkillable
      | (Stopping, Starting) \<Rightarrow> c = ExplicitStart
      | (Completed, Inactive) \<Rightarrow> c \<in> {CleanExit, ExplicitStop, ShutdownWave}
      | (Completed, Starting) \<Rightarrow> c \<in> {ExplicitStart, TimerCause}
      | (Failed, Starting) \<Rightarrow> c \<in> {ExplicitStart, BindsToRecovery, TimerCause}
      | (Failed, Inactive) \<Rightarrow> c = ExplicitReset
      | (Failed, Abandoned) \<Rightarrow> c = ProcessUnkillable
      | (Abandoned, Inactive) \<Rightarrow> c = ExplicitReset
      | (Skipped, Inactive) \<Rightarrow> c \<in> {ExplicitReset, ExplicitStart}
      | _ \<Rightarrow> False)"

section \<open>The transition function\<close>

record service_transition =
  tr_to :: service_state
  tr_cause :: transition_cause

record service_transition_event =
  te_service :: string
  te_from :: service_state
  te_to :: service_state
  te_cause :: transition_cause
  te_generation :: u64

datatype service_transition_error =
  InvalidTransition string service_state service_state transition_cause

text \<open>The updates of \<open>transition\<close>, in the order the source makes them.\<close>

definition enter_starting :: "service_runtime_snapshot \<Rightarrow> service_runtime_snapshot" where
  "enter_starting r =
     r\<lparr>rt_generation := rt_generation r + 1, rt_status_text := None, rt_progress := None,
       rt_progress_unit := None, rt_last_progress_event_ns := None,
       rt_stopping_acknowledged := False, rt_pending_timer := False,
       rt_health := health_unknown\<rparr>"

definition transition ::
  "service_transition \<Rightarrow> service_runtime_snapshot
   \<Rightarrow> (service_transition_error, service_transition_event, service_runtime_snapshot) outcome"
where
  "transition t r =
     (if \<not> is_allowed_transition (rt_state r) (tr_to t) (tr_cause t)
      then (Inl (InvalidTransition (rt_service r) (rt_state r) (tr_to t) (tr_cause t)), r)
      else
        let r1 = (if tr_to t = Starting then enter_starting r else r);
            r2 = (if tr_to t = Stopping \<or> rt_state r = Stopping
                  then r1\<lparr>rt_stopping_timeout := None\<rparr> else r1);
            r3 = r2\<lparr>rt_state := tr_to t, rt_cause := Some (tr_cause t)\<rparr>;
            r4 = (if \<not> satisfies_dependents (tr_to t)
                  then r3\<lparr>rt_dependent_satisfied_since_ns := None, rt_levels := {||}\<rparr> else r3)
        in (Inr \<lparr>te_service = rt_service r, te_from = rt_state r, te_to = tr_to t,
                 te_cause = tr_cause t, te_generation = rt_generation r4\<rparr>, r4))"

section \<open>The restart decision\<close>

definition MAX_RESTART_DELAY_SECS :: u64 where
  "MAX_RESTART_DELAY_SECS = 60"

datatype restart_evaluation_action =
    BackoffAction (ba_cause: transition_cause) (ba_delay_secs: u64)
      (ba_next_consecutive_failures: u32)
  | FailAction (fa_cause: transition_cause) (fa_state: service_state)

definition restart_fail :: "transition_cause \<Rightarrow> restart_evaluation_action" where
  "restart_fail c = FailAction c Failed"

definition is_success_exit_code :: "service_definition \<Rightarrow> i32 \<Rightarrow> bool" where
  "is_success_exit_code d exit_code \<longleftrightarrow>
     exit_code = 0 \<or> exit_code \<in> set (sd_success_exit_codes d)"

definition restart_delay_secs :: "u64 \<Rightarrow> u32 \<Rightarrow> u64" where
  "restart_delay_secs base_delay_secs consecutive_failures =
     (let multiplier = (case checked_shl 1 consecutive_failures of
            Some m \<Rightarrow> m | None \<Rightarrow> word_max)
      in min (sat_mul base_delay_secs multiplier) MAX_RESTART_DELAY_SECS)"

definition evaluate_restart_after_failure ::
  "service_definition \<Rightarrow> transition_cause \<Rightarrow> i32 option \<Rightarrow> u32 \<Rightarrow> restart_evaluation_action"
where
  "evaluate_restart_after_failure d c exit_code consecutive_failures =
     (if restart_consultation c = NeverConsulted then restart_fail c
      else if c = CleanExitRestart \<and> sd_restart_policy d \<noteq> Always then restart_fail c
      else if sd_restart_policy d = Never then restart_fail c
      else if sd_restart_policy d = OnFailure \<and> c = ProcessCrash
           \<and> (case exit_code of Some code \<Rightarrow> is_success_exit_code d code | None \<Rightarrow> False)
        then restart_fail c
      else if c = CleanExitRestart \<and> sd_console_path d \<noteq> None
        then BackoffAction c (min (sd_restart_delay_secs d) MAX_RESTART_DELAY_SECS) 0
      else if consecutive_failures \<ge> sd_restart_max_retries d
        then restart_fail RestartBudgetExhausted
      else BackoffAction c (restart_delay_secs (sd_restart_delay_secs d) consecutive_failures)
             (sat_add consecutive_failures 1))"

section \<open>Transition lemmas\<close>

lemma transition_refused:
  "\<not> is_allowed_transition (rt_state r) (tr_to t) (tr_cause t)
   \<Longrightarrow> transition t r
     = (Inl (InvalidTransition (rt_service r) (rt_state r) (tr_to t) (tr_cause t)), r)"
  by (simp add: transition_def)

lemma transition_Inr_iff:
  "(\<exists>e. fst (transition t r) = Inr e) \<longleftrightarrow> is_allowed_transition (rt_state r) (tr_to t) (tr_cause t)"
  by (simp add: transition_def Let_def)

lemma transition_fields:
  assumes "transition t r = (Inr e, r')"
  shows "is_allowed_transition (rt_state r) (tr_to t) (tr_cause t)"
    "rt_state r' = tr_to t" "rt_cause r' = Some (tr_cause t)" "rt_service r' = rt_service r"
    "rt_generation r' = (if tr_to t = Starting then rt_generation r + 1 else rt_generation r)"
    "rt_cgroup_generation r' = rt_cgroup_generation r"
    "rt_consecutive_restart_failures r' = rt_consecutive_restart_failures r"
    "rt_restart_backoff_until_ns r' = rt_restart_backoff_until_ns r"
    "rt_leaked_cgroups r' = rt_leaked_cgroups r"
    "rt_levels r' = (if satisfies_dependents (tr_to t) then rt_levels r else {||})"
    "rt_dependent_satisfied_since_ns r' =
       (if satisfies_dependents (tr_to t) then rt_dependent_satisfied_since_ns r else None)"
    "rt_stopping_timeout r' =
       (if tr_to t = Stopping \<or> rt_state r = Stopping then None else rt_stopping_timeout r)"
    "rt_health r' = (if tr_to t = Starting then health_unknown else rt_health r)"
    "rt_status_text r' = (if tr_to t = Starting then None else rt_status_text r)"
    "rt_pending_timer r' = (tr_to t \<noteq> Starting \<and> rt_pending_timer r)"
    "rt_stopping_acknowledged r' = (tr_to t \<noteq> Starting \<and> rt_stopping_acknowledged r)"
    "e = \<lparr>te_service = rt_service r, te_from = rt_state r, te_to = tr_to t,
          te_cause = tr_cause t, te_generation = rt_generation r'\<rparr>"
  using assms by (auto simp: transition_def Let_def enter_starting_def split: if_splits)

lemma transition_Inl:
  "transition t r = (Inl e, r') \<Longrightarrow>
   r' = r \<and> \<not> is_allowed_transition (rt_state r) (tr_to t) (tr_cause t)"
  by (auto simp: transition_def Let_def split: if_splits)

text \<open>A level or a satisfied-since stamp is kept only by a state that satisfies dependents.\<close>

definition runtime_wf :: "service_runtime_snapshot \<Rightarrow> bool" where
  "runtime_wf r \<longleftrightarrow>
     satisfies_dependents (rt_state r)
     \<or> rt_levels r = {||} \<and> rt_dependent_satisfied_since_ns r = None"

lemma runtime_wf_inactive [simp]: "runtime_wf (runtime_inactive service)"
  by (simp add: runtime_wf_def runtime_inactive_def)

lemma runtime_wf_transition: "runtime_wf r \<Longrightarrow> runtime_wf (snd (transition t r))"
  by (auto simp: runtime_wf_def transition_def Let_def)

lemma runtime_wf_mark [simp]:
  "runtime_wf (mark_dependent_satisfied_since n r) \<longleftrightarrow> runtime_wf r"
  by (auto simp: runtime_wf_def mark_dependent_satisfied_since_def)

section \<open>Runs\<close>

text \<open>The accepted transitions of one service, with the events they emit.\<close>

inductive service_run ::
  "service_runtime_snapshot \<Rightarrow> service_transition_event list \<Rightarrow> service_runtime_snapshot \<Rightarrow> bool"
where
  run_refl: "service_run r [] r"
| run_step: "service_run r es r' \<Longrightarrow> transition t r' = (Inr e, r'') \<Longrightarrow> service_run r (es @ [e]) r''"

inductive_cases service_run_NilE: "service_run r [] r'"

lemma service_run_step1: "transition t r = (Inr e, r') \<Longrightarrow> service_run r [e] r'"
  using run_step [OF run_refl, of t r e r'] by simp

lemma service_run_step2:
  "transition t r = (Inr e, r1) \<Longrightarrow> transition t' r1 = (Inr e', r2) \<Longrightarrow> service_run r [e, e'] r2"
  using run_step [OF service_run_step1, of t r e r1 t' e' r2] by simp

lemma service_run_generation:
  "service_run r es r' \<Longrightarrow>
   rt_generation r' = rt_generation r + of_nat (length (filter (\<lambda>e. te_to e = Starting) es))"
proof (induction rule: service_run.induct)
  case (run_step r es r' t e r'')
  then show ?case using transition_fields(5,17) [OF run_step.hyps(2)] by simp
qed simp

lemma service_run_chain:
  "service_run r es r' \<Longrightarrow>
   successively (\<lambda>a b. te_from b = te_to a) es
   \<and> (if es = [] then r' = r else te_from (hd es) = rt_state r \<and> te_to (last es) = rt_state r')"
proof (induction rule: service_run.induct)
  case (run_step r es r' t e r'')
  then show ?case
    using transition_fields(2,17) [OF run_step.hyps(2)]
    by (cases "es = []") (simp_all add: successively_append_iff)
qed simp

lemma service_run_wf: "service_run r es r' \<Longrightarrow> runtime_wf r \<Longrightarrow> runtime_wf r'"
proof (induction rule: service_run.induct)
  case (run_step r es r' t e r'')
  then show ?case using runtime_wf_transition [of r' t] by simp
qed simp

lemma service_run_service: "service_run r es r' \<Longrightarrow> rt_service r' = rt_service r"
  by (induction rule: service_run.induct) (auto dest: transition_fields(4))

text \<open>States only a started service reaches.\<close>

definition started_state :: "service_state \<Rightarrow> bool" where
  "started_state s \<longleftrightarrow> s \<notin> {Inactive, Failed, Skipped, Abandoned}"

lemma allowed_into_started:
  "is_allowed_transition from to c \<Longrightarrow> started_state to \<Longrightarrow> started_state from \<or> to = Starting"
  by (cases "from"; cases to) (simp_all add: is_allowed_transition_def started_state_def)

lemma service_run_started:
  "service_run r es r' \<Longrightarrow> \<not> started_state (rt_state r) \<Longrightarrow> started_state (rt_state r')
   \<Longrightarrow> \<exists>e\<in>set es. te_to e = Starting"
proof (induction rule: service_run.induct)
  case (run_step r es r' t e r'')
  note f = transition_fields [OF run_step.hyps(2)]
  have "started_state (rt_state r') \<or> tr_to t = Starting"
    using allowed_into_started [OF f(1)] run_step.prems f(2) by simp
  then show ?case using run_step f(17) by auto
qed simp

section \<open>Restart lemmas\<close>

lemma restart_delay_nat:
  "unat (restart_delay_secs base n) = min 60 (unat base * 2 ^ unat n)"
proof (cases "unat n < 64")
  case True
  have "unat (push_bit (unat n) 1 :: u64) = 2 ^ unat n"
    unfolding unsigned_push_bit_eq using True
    by (simp add: push_bit_eq_mult take_bit_nat_eq_self power_strict_increasing)
  then have p: "unat (2 ^ unat n :: u64) = 2 ^ unat n"
    by (simp only: push_bit_of_1)
  have "unat (sat_mul base (2 ^ unat n)) = min (2 ^ 64 - 1) (unat base * 2 ^ unat n)"
    by (simp add: unat_sat_mul p min.commute)
  then show ?thesis
    using True by (simp add: restart_delay_secs_def checked_shl_def MAX_RESTART_DELAY_SECS_def
        min_def word_le_nat_alt)
next
  case False
  have "(2 :: nat) ^ 64 \<le> 2 ^ unat n" using False by (intro power_increasing) auto
  then have big: "unat base = 0 \<or> 60 \<le> unat base * 2 ^ unat n \<and> 60 \<le> unat base * (2 ^ 64 - 1)"
    by (cases "unat base") auto
  have "unat (sat_mul base word_max) = min (2 ^ 64 - 1) (unat base * (2 ^ 64 - 1))"
    by (simp add: unat_sat_mul min.commute)
  with big have "unat (min (sat_mul base word_max) 60) = min 60 (unat base * 2 ^ unat n)"
    by (cases "unat base") (auto simp: min_def word_le_nat_alt)
  then show ?thesis
    using False by (simp add: restart_delay_secs_def checked_shl_def MAX_RESTART_DELAY_SECS_def)
qed

lemma evaluate_restart_Backoff:
  assumes "evaluate_restart_after_failure d c exit_code n = BackoffAction c' delay m"
  shows "c' = c" "unat delay \<le> 60" "restart_consultation c \<noteq> NeverConsulted"
    "sd_restart_policy d \<noteq> Never"
    "c = CleanExitRestart \<and> sd_console_path d \<noteq> None \<and> m = 0
     \<or> n < sd_restart_max_retries d \<and> unat m = unat n + 1"
proof -
  have sat: "unat (sat_add n 1) = unat n + 1" if "n < sd_restart_max_retries d"
    using that unat_bounded [of "sd_restart_max_retries d"]
    by (simp add: unat_sat_add word_less_nat_alt)
  show "c' = c" "restart_consultation c \<noteq> NeverConsulted" "sd_restart_policy d \<noteq> Never"
    using assms by (auto simp: evaluate_restart_after_failure_def restart_fail_def split: if_splits)
  show "unat delay \<le> 60"
    using assms restart_delay_nat [of "sd_restart_delay_secs d" n]
    by (auto simp: evaluate_restart_after_failure_def restart_fail_def MAX_RESTART_DELAY_SECS_def
        min_def word_le_nat_alt split: if_splits)
  show "c = CleanExitRestart \<and> sd_console_path d \<noteq> None \<and> m = 0
     \<or> n < sd_restart_max_retries d \<and> unat m = unat n + 1"
    using assms sat
    by (auto simp: evaluate_restart_after_failure_def restart_fail_def not_le split: if_splits)
qed

section \<open>Properties\<close>

text \<open>
  C25: along every run of accepted transitions the generation advances by exactly the number of
  activations, the events form one chain from the first state to the last, and levels and the
  satisfied-since stamp are never left on a state that does not satisfy dependents.
\<close>

theorem service_run_invariants:
  assumes "service_run r es r'" and "runtime_wf r"
  shows "rt_generation r' = rt_generation r + of_nat (length (filter (\<lambda>e. te_to e = Starting) es))
    \<and> successively (\<lambda>a b. te_from b = te_to a) es
    \<and> (if es = [] then r' = r else te_from (hd es) = rt_state r \<and> te_to (last es) = rt_state r')
    \<and> runtime_wf r'"
  using service_run_generation service_run_chain service_run_wf assms by blast

theorem service_run_invariants_witness:
  "runtime_wf (snd (transition \<lparr>tr_to = Starting, tr_cause = ExplicitStart\<rparr> (runtime_inactive ''a'')))
   \<and> rt_generation
       (snd (transition \<lparr>tr_to = Starting, tr_cause = ExplicitStart\<rparr> (runtime_inactive ''a'')))
     = 1"
proof -
  let ?t = "\<lparr>tr_to = Starting, tr_cause = ExplicitStart\<rparr>" and ?r = "runtime_inactive ''a''"
  have "transition ?t ?r
      = (Inr \<lparr>te_service = ''a'', te_from = Inactive, te_to = Starting,
          te_cause = ExplicitStart, te_generation = 1\<rparr>, snd (transition ?t ?r))"
    by (simp add: transition_def is_allowed_transition_def runtime_inactive_def enter_starting_def)
  from service_run_invariants [OF service_run_step1 [OF this] runtime_wf_inactive]
  show ?thesis by (simp add: runtime_inactive_def)
qed

text \<open>
  C26: a service that has never been asked to start is never Starting, Active, Reloading,
  Stopping, Completed or in Backoff: from any state outside those, a run into one of them
  contains an activation.
\<close>

theorem started_states_need_start:
  assumes "service_run r es r'" and "\<not> started_state (rt_state r)"
    and "started_state (rt_state r')"
  shows "\<exists>e\<in>set es. te_to e = Starting"
  using assms by (rule service_run_started)

theorem started_states_need_start_witness:
  "\<exists>e\<in>set [\<lparr>te_service = ''a'', te_from = Inactive, te_to = Starting,
      te_cause = ExplicitStart, te_generation = 1\<rparr>]. te_to e = Starting"
proof (rule started_states_need_start)
  let ?t = "\<lparr>tr_to = Starting, tr_cause = ExplicitStart\<rparr>" and ?r = "runtime_inactive ''a''"
  show "service_run ?r [\<lparr>te_service = ''a'', te_from = Inactive, te_to = Starting,
      te_cause = ExplicitStart, te_generation = 1\<rparr>] (snd (transition ?t ?r))"
    by (rule service_run_step1 [of ?t])
      (simp add: transition_def is_allowed_transition_def runtime_inactive_def enter_starting_def)
  show "\<not> started_state (rt_state ?r)"
    by (simp add: started_state_def runtime_inactive_def)
  show "started_state (rt_state (snd (transition ?t ?r)))"
    by (simp add: started_state_def transition_def is_allowed_transition_def
        runtime_inactive_def Let_def)
qed

text \<open>
  C27: no state is a trap: from every state, operator requests alone (an explicit stop or an
  explicit reset) bring the service to Inactive in at most two transitions.
\<close>

theorem service_can_return_to_inactive:
  "\<exists>es r'. service_run r es r' \<and> rt_state r' = Inactive \<and> length es \<le> 2
     \<and> te_cause ` set es \<subseteq> {ExplicitStop, ExplicitReset}"
proof -
  have run: "\<exists>e r'. transition \<lparr>tr_to = s, tr_cause = c\<rparr> q = (Inr e, r')
      \<and> rt_state r' = s \<and> te_cause e = c" if "is_allowed_transition (rt_state q) s c" for q s c
    using that by (simp add: transition_def Let_def)
  consider "rt_state r = Inactive"
    | c where "c \<in> {ExplicitStop, ExplicitReset}" "is_allowed_transition (rt_state r) Inactive c"
    | "is_allowed_transition (rt_state r) Stopping ExplicitStop"
    by (cases "rt_state r") (auto simp: is_allowed_transition_def is_stop_cause_def)
  then show ?thesis
  proof cases
    case 1
    then show ?thesis using run_refl [of r] by fastforce
  next
    case (2 c)
    then obtain e r' where "transition \<lparr>tr_to = Inactive, tr_cause = c\<rparr> r = (Inr e, r')"
      "rt_state r' = Inactive" "te_cause e = c"
      using run by blast
    then show ?thesis
      using 2(1) service_run_step1 by (intro exI [of _ "[e]"] exI [of _ r']) auto
  next
    case 3
    then obtain e r1 where one: "transition \<lparr>tr_to = Stopping, tr_cause = ExplicitStop\<rparr> r = (Inr e, r1)"
      "rt_state r1 = Stopping" "te_cause e = ExplicitStop"
      using run by blast
    then obtain e' r2 where "transition \<lparr>tr_to = Inactive, tr_cause = ExplicitStop\<rparr> r1 = (Inr e', r2)"
      "rt_state r2 = Inactive" "te_cause e' = ExplicitStop"
      using run [of r1 Inactive ExplicitStop] by (auto simp: is_allowed_transition_def)
    then show ?thesis
      using one service_run_step2 by (intro exI [of _ "[e, e']"] exI [of _ r2]) auto
  qed
qed

text \<open>
  C28: the restart delay is exactly the base delay doubled once per consecutive failure and capped
  at sixty seconds, for every base and every failure count: no shift or product overflows.
\<close>

theorem restart_delay_is_capped_exponential:
  "unat (restart_delay_secs base n) = min 60 (unat base * 2 ^ unat n)"
  by (rule restart_delay_nat)

end
