(* ===== verification/Ids.thy ===== *)
theory Ids
  imports Prelude
begin

unbundle bit_operations_syntax

text \<open>
  Operation and job identifiers (\<open>src/ids\<close>): the UUIDv7 layout peinit fills from a
  monotonic observation time and an allocation sequence number, its canonical text and the
  parser of it, and the two batch allocators.

  The lemmas show the layout's version and variant bits, that printing and parsing are inverse
  on every identifier peinit allocates, that identifiers of distinct sequence numbers below
  \<open>2 ^ 46\<close> are distinct whatever the observation times, and that a batch is all or nothing.
\<close>

section \<open>Layout\<close>

datatype uuid_v7 = UuidV7 "u8 list"

datatype operation_id = OperationId uuid_v7

datatype job_id = JobId uuid_v7

datatype id_allocation_error =
    CountOverflow nat
  | SequenceExhausted u64 nat
  | TimestampOverflow u64

definition NANOS_PER_MILLI :: u64 where
  "NANOS_PER_MILLI = 1000000"

definition UUIDV7_TIMESTAMP_MAX_MS :: u64 where
  "UUIDV7_TIMESTAMP_MAX_MS = 0x0000ffffffffffff"

definition from_seed :: "u64 \<Rightarrow> u64 \<Rightarrow> id_allocation_error + uuid_v7" where
  "from_seed observed_at_ns sequence =
     (let timestamp_ms = observed_at_ns div NANOS_PER_MILLI
      in if timestamp_ms > UUIDV7_TIMESTAMP_MAX_MS then Inl (TimestampOverflow observed_at_ns)
         else
           let timestamp = to_be_bytes timestamp_ms; seq = to_be_bytes sequence
           in Inr (UuidV7
             [timestamp ! 2, timestamp ! 3, timestamp ! 4, timestamp ! 5, timestamp ! 6,
              timestamp ! 7,
              0x70 OR (seq ! 0 AND 0x0f), seq ! 1,
              0x80 OR (seq ! 2 AND 0x3f), seq ! 3, seq ! 4, seq ! 5, seq ! 6, seq ! 7,
              ucast (drop_bit 8 observed_at_ns AND 0xff), ucast (observed_at_ns AND 0xff)]))"

fun as_bytes :: "uuid_v7 \<Rightarrow> u8 list" where
  "as_bytes (UuidV7 b) = b"

section \<open>Text\<close>

datatype uuid_v7_parse_error =
    UuidLength nat
  | UuidHyphen nat
  | UuidHex nat
  | UuidVersion u8
  | UuidVariant u8

text \<open>One hex digit of Rust's \<open>{:02x}\<close>.\<close>

definition hex_digit :: "nat \<Rightarrow> char" where
  "hex_digit n = (if n < 10 then char_of (48 + n) else char_of (87 + n))"

definition hex2 :: "u8 \<Rightarrow> string" where
  "hex2 b = [hex_digit (unat b div 16), hex_digit (unat b mod 16)]"

definition hex_bytes :: "u8 list \<Rightarrow> string" where
  "hex_bytes bs = concat (map hex2 bs)"

definition uuid_to_canonical_string :: "uuid_v7 \<Rightarrow> string" where
  "uuid_to_canonical_string u =
     (let b = as_bytes u
      in hex_bytes (take 4 b) @ ''-'' @ hex_bytes (take 2 (drop 4 b)) @ ''-''
         @ hex_bytes (take 2 (drop 6 b)) @ ''-'' @ hex_bytes (take 2 (drop 8 b)) @ ''-''
         @ hex_bytes (drop 10 b))"

definition hex_nibble :: "char \<Rightarrow> u8 option" where
  "hex_nibble c =
     (let n = of_char c :: nat
      in if 48 \<le> n \<and> n \<le> 57 then Some (of_nat (n - 48))
         else if 97 \<le> n \<and> n \<le> 102 then Some (of_nat (n - 97 + 10))
         else if 65 \<le> n \<and> n \<le> 70 then Some (of_nat (n - 65 + 10))
         else None)"

text \<open>
  The digit loop of the parser: \<open>index\<close> is the position in the text, \<open>bytes\<close> the bytes
  completed so far and \<open>high\<close> the pending high nibble. A hyphen is skipped wherever it
  stands.
\<close>

fun uuid_digits ::
  "nat \<Rightarrow> string \<Rightarrow> u8 list \<Rightarrow> u8 option \<Rightarrow> uuid_v7_parse_error + u8 list" where
  "uuid_digits index [] bytes high = Inr bytes"
| "uuid_digits index (c # cs) bytes high =
     (if c = CHR ''-'' then uuid_digits (Suc index) cs bytes high
      else case hex_nibble c of
          None \<Rightarrow> Inl (UuidHex index)
        | Some nibble \<Rightarrow>
            (case high of
               Some h \<Rightarrow> uuid_digits (Suc index) cs (bytes @ [push_bit 4 h OR nibble]) None
             | None \<Rightarrow> uuid_digits (Suc index) cs bytes (Some nibble)))"

definition from_canonical_bytes :: "u8 list \<Rightarrow> uuid_v7_parse_error + uuid_v7" where
  "from_canonical_bytes bytes =
     (if drop_bit 4 (bytes ! 6) \<noteq> 7 then Inl (UuidVersion (drop_bit 4 (bytes ! 6)))
      else if drop_bit 6 (bytes ! 8) \<noteq> 2 then Inl (UuidVariant (drop_bit 6 (bytes ! 8)))
      else Inr (UuidV7 bytes))"

text \<open>The source writes the bytes into a zeroed array of sixteen.\<close>

definition parse_uuid_v7_canonical :: "string \<Rightarrow> uuid_v7_parse_error + uuid_v7" where
  "parse_uuid_v7_canonical value =
     (if length value \<noteq> 36 then Inl (UuidLength (length value))
      else case find (\<lambda>index. value ! index \<noteq> CHR ''-'') [8, 13, 18, 23] of
          Some index \<Rightarrow> Inl (UuidHyphen index)
        | None \<Rightarrow>
            and_then (uuid_digits 0 value [] None)
              (\<lambda>bytes. from_canonical_bytes (bytes @ replicate (16 - length bytes) 0)))"

section \<open>Allocation\<close>

text \<open>One loop for both allocators; \<open>wrap\<close> is the newtype constructor.\<close>

fun seeded_ids ::
  "(uuid_v7 \<Rightarrow> 'id) \<Rightarrow> u64 \<Rightarrow> u64 \<Rightarrow> nat \<Rightarrow> id_allocation_error + 'id list" where
  "seeded_ids wrap observed_at_ns sequence 0 = Inr []"
| "seeded_ids wrap observed_at_ns sequence (Suc n) =
     and_then (from_seed observed_at_ns sequence)
       (\<lambda>u. and_then (seeded_ids wrap observed_at_ns (sequence + 1) n)
         (\<lambda>ids. Inr (wrap u # ids)))"

definition allocate_batch ::
  "(uuid_v7 \<Rightarrow> 'id) \<Rightarrow> u64 \<Rightarrow> nat \<Rightarrow> u64 \<Rightarrow> (id_allocation_error, 'id list, u64) outcome"
where
  "allocate_batch wrap next_sequence count observed_at_ns =
     (if count = 0 then (Inr [], next_sequence)
      else if 2 ^ 64 \<le> count then (Inl (CountOverflow count), next_sequence)
      else case checked_add next_sequence (of_nat count) of
          None \<Rightarrow> (Inl (SequenceExhausted next_sequence count), next_sequence)
        | Some _ \<Rightarrow>
            (case seeded_ids wrap observed_at_ns next_sequence count of
               Inl e \<Rightarrow> (Inl e, next_sequence)
             | Inr ids \<Rightarrow> (Inr ids, next_sequence + of_nat count)))"

record operation_id_allocator = oa_next_sequence :: u64

record job_id_allocator = ja_next_sequence :: u64

definition operation_allocate_batch ::
  "nat \<Rightarrow> u64 \<Rightarrow> operation_id_allocator
   \<Rightarrow> (id_allocation_error, operation_id list, operation_id_allocator) outcome" where
  "operation_allocate_batch count observed_at_ns a =
     map_prod id (\<lambda>n. a\<lparr>oa_next_sequence := n\<rparr>)
       (allocate_batch OperationId (oa_next_sequence a) count observed_at_ns)"

definition job_allocate_batch ::
  "nat \<Rightarrow> u64 \<Rightarrow> job_id_allocator
   \<Rightarrow> (id_allocation_error, job_id list, job_id_allocator) outcome" where
  "job_allocate_batch count observed_at_ns a =
     map_prod id (\<lambda>n. a\<lparr>ja_next_sequence := n\<rparr>)
       (allocate_batch JobId (ja_next_sequence a) count observed_at_ns)"

section \<open>Order\<close>

text \<open>The derived \<open>Ord\<close> of the source compares the bytes lexicographically.\<close>

fun operation_uuid :: "operation_id \<Rightarrow> uuid_v7" where
  "operation_uuid (OperationId u) = u"

fun job_uuid :: "job_id \<Rightarrow> uuid_v7" where
  "job_uuid (JobId u) = u"

lemma as_bytes_inject [simp]: "as_bytes u = as_bytes v \<longleftrightarrow> u = v"
  by (cases u; cases v) simp

lemma operation_uuid_inject [simp]: "operation_uuid a = operation_uuid b \<longleftrightarrow> a = b"
  by (cases a; cases b) simp

lemma job_uuid_inject [simp]: "job_uuid a = job_uuid b \<longleftrightarrow> a = b"
  by (cases a; cases b) simp

instantiation uuid_v7 :: linorder
begin

definition less_eq_uuid_v7 :: "uuid_v7 \<Rightarrow> uuid_v7 \<Rightarrow> bool" where
  "less_eq_uuid_v7 u v \<longleftrightarrow> as_bytes u \<le> as_bytes v"

definition less_uuid_v7 :: "uuid_v7 \<Rightarrow> uuid_v7 \<Rightarrow> bool" where
  "less_uuid_v7 u v \<longleftrightarrow> as_bytes u < as_bytes v"

instance
  by standard
    (simp_all add: less_eq_uuid_v7_def less_uuid_v7_def less_le_not_le linear)

end

instantiation operation_id :: linorder
begin

definition less_eq_operation_id :: "operation_id \<Rightarrow> operation_id \<Rightarrow> bool" where
  "less_eq_operation_id a b \<longleftrightarrow> operation_uuid a \<le> operation_uuid b"

definition less_operation_id :: "operation_id \<Rightarrow> operation_id \<Rightarrow> bool" where
  "less_operation_id a b \<longleftrightarrow> operation_uuid a < operation_uuid b"

instance
  by standard
    (simp_all add: less_eq_operation_id_def less_operation_id_def less_le_not_le linear)

end

instantiation job_id :: linorder
begin

definition less_eq_job_id :: "job_id \<Rightarrow> job_id \<Rightarrow> bool" where
  "less_eq_job_id a b \<longleftrightarrow> job_uuid a \<le> job_uuid b"

definition less_job_id :: "job_id \<Rightarrow> job_id \<Rightarrow> bool" where
  "less_job_id a b \<longleftrightarrow> job_uuid a < job_uuid b"

instance
  by standard
    (simp_all add: less_eq_job_id_def less_job_id_def less_le_not_le linear)

end

section \<open>Layout lemmas\<close>

text \<open>Sixteen bytes with the version nibble 7 and the variant bits 10.\<close>

definition uuid_wf :: "u8 list \<Rightarrow> bool" where
  "uuid_wf b \<longleftrightarrow> length b = 16 \<and> drop_bit 4 (b ! 6) = 7 \<and> drop_bit 6 (b ! 8) = 2"

lemma low_nibble: "x AND 0x0f = take_bit 4 (x :: u8)"
  by (simp add: take_bit_eq_mask mask_eq_exp_minus_1)
lemma low_six: "x AND 0x3f = take_bit 6 (x :: u8)"
  by (simp add: take_bit_eq_mask mask_eq_exp_minus_1)

lemma from_seed_wf: "from_seed observed_at_ns sequence = Inr u \<Longrightarrow> uuid_wf (as_bytes u)"
  by (auto simp: from_seed_def uuid_wf_def Let_def low_nibble low_six drop_bit_take_bit
      split: if_splits)

lemma be_byte_bit: "i < 8 \<Longrightarrow> bit (to_be_bytes (w :: u64) ! i) k \<longleftrightarrow> k < 8 \<and> bit w (8 * (7 - i) + k)"
proof -
  assume "i < 8"
  then consider "i = 0" | "i = 1" | "i = 2" | "i = 3" | "i = 4" | "i = 5" | "i = 6" | "i = 7"
    by linarith
  then show ?thesis
    by cases (auto simp: to_be_bytes_def bit_simps)
qed

lemma seq2_bit: "k < 6 \<Longrightarrow> bit (0x80 OR (x AND 0x3f)) k \<longleftrightarrow> bit (x :: u8) k"
proof -
  assume k: "k < 6"
  then consider "k = 0" | "k = 1" | "k = 2" | "k = 3" | "k = 4" | "k = 5"
    by linarith
  then have "\<not> bit (0x80 :: u8) k"
    by cases simp_all
  with k show ?thesis by (simp add: low_six bit_simps)
qed

lemma from_seed_sequence_bits:
  assumes "from_seed t s = Inr u" "from_seed t' s' = Inr u" "n < 46"
  shows "bit s n \<longleftrightarrow> bit s' n"
proof -
  let ?b = "to_be_bytes s" and ?c = "to_be_bytes s'"
  have eq: "?b ! 3 = ?c ! 3" "?b ! 4 = ?c ! 4" "?b ! 5 = ?c ! 5" "?b ! 6 = ?c ! 6"
    "?b ! 7 = ?c ! 7" "0x80 OR (?b ! 2 AND 0x3f) = 0x80 OR (?c ! 2 AND 0x3f)"
    using assms by (auto simp: from_seed_def Let_def split: if_splits)
  then have "i \<in> {3..7} \<Longrightarrow> ?b ! i = ?c ! i" for i
    by (auto simp: numeral_eq_Suc atLeastAtMost_iff le_Suc_eq)
  then have low: "i < 5 \<Longrightarrow> k < 8 \<Longrightarrow> bit s (8 * i + k) = bit s' (8 * i + k)" for i k
    using be_byte_bit [of "7 - i" s k] be_byte_bit [of "7 - i" s' k] by simp
  have high: "k < 6 \<Longrightarrow> bit s (40 + k) = bit s' (40 + k)" for k
    using be_byte_bit [of 2 s k] be_byte_bit [of 2 s' k] seq2_bit [of k "?b ! 2"] 
      seq2_bit [of k "?c ! 2"] eq(6) by simp
  show ?thesis
  proof (cases "n < 40")
    case True
    then show ?thesis using low [of "n div 8" "n mod 8"] by simp
  next
    case False
    then show ?thesis using high [of "n - 40"] assms(3) by simp
  qed
qed

lemma from_seed_sequence_inj:
  assumes "from_seed t s = Inr u" "from_seed t' s' = Inr u" "unat s < 2 ^ 46" "unat s' < 2 ^ 46"
  shows "s = s'"
proof -
  have "take_bit 46 s = take_bit 46 s'"
    using from_seed_sequence_bits [OF assms(1,2)] by (auto intro!: bit_word_eqI simp: bit_simps)
  moreover have "take_bit 46 w = w" if "unat w < 2 ^ 46" for w :: u64
    unfolding word_unat_eq_iff unsigned_take_bit_eq using that by (simp add: take_bit_nat_eq_self)
  ultimately show ?thesis using assms by simp
qed

lemma from_seed_total: "observed_at_ns div NANOS_PER_MILLI \<le> UUIDV7_TIMESTAMP_MAX_MS"
proof -
  have "unat observed_at_ns < 18446744073709551616" using unat_bounded [of observed_at_ns] by simp
  then have "unat observed_at_ns div 1000000 \<le> 281474976710655" by linarith
  moreover have "unat (observed_at_ns div NANOS_PER_MILLI) = unat observed_at_ns div 1000000"
    unfolding NANOS_PER_MILLI_def unat_div by simp
  ultimately show ?thesis
    unfolding word_le_nat_alt UUIDV7_TIMESTAMP_MAX_MS_def by simp
qed

lemma bit_sequence_mask:
  "bit (0x0fff3fffffffffff :: u64) n \<longleftrightarrow> n < 60 \<and> n \<noteq> 46 \<and> n \<noteq> 47"
proof -
  have eq: "(0x0fff3fffffffffff :: u64) = mask 60 AND NOT (push_bit 46 (mask 2))"
    by (simp add: mask_eq_exp_minus_1)
  show ?thesis
    unfolding eq by (auto simp: bit_simps)
qed

lemma masked_byte_eq_iff: "i < 8 \<Longrightarrow> m \<le> 8 \<Longrightarrow>
   take_bit m (to_be_bytes (s :: u64) ! i) = take_bit m (to_be_bytes s' ! i)
   \<longleftrightarrow> (\<forall>k<m. bit s (8 * (7 - i) + k) = bit s' (8 * (7 - i) + k))"
  by (auto simp: bit_eq_iff be_byte_bit bit_take_bit_iff) (meson less_le_trans)+

lemma byte_eq_iff: "i < 8 \<Longrightarrow> to_be_bytes (s :: u64) ! i = to_be_bytes s' ! i
   \<longleftrightarrow> (\<forall>k<8. bit s (8 * (7 - i) + k) = bit s' (8 * (7 - i) + k))"
  using masked_byte_eq_iff [of i 8 s s'] by (simp add: take_bit_word_eq_self)

lemma or_disjoint_eq_iff:
  "0x70 OR take_bit 4 a = 0x70 OR take_bit 4 b \<longleftrightarrow> take_bit 4 a = take_bit 4 (b :: u8)"
  "0x80 OR take_bit 6 a = 0x80 OR take_bit 6 b \<longleftrightarrow> take_bit 6 a = take_bit 6 (b :: u8)"
proof -
  have "\<not> bit (0x70 :: u8) k" if "k < 4" for k
    using that by (auto simp: numeral_eq_Suc less_Suc_eq)
  then show "0x70 OR take_bit 4 a = 0x70 OR take_bit 4 b \<longleftrightarrow> take_bit 4 a = take_bit 4 b"
    by (auto simp: bit_eq_iff bit_simps)
  have "\<not> bit (0x80 :: u8) k" if "k < 6" for k
    using that by (auto simp: numeral_eq_Suc less_Suc_eq)
  then show "0x80 OR take_bit 6 a = 0x80 OR take_bit 6 b \<longleftrightarrow> take_bit 6 a = take_bit 6 b"
    by (auto simp: bit_eq_iff bit_simps)
qed

lemma from_seed_eq_iff:
  "from_seed t s = from_seed t s' \<longleftrightarrow>
     take_bit 4 (to_be_bytes s ! 0) = take_bit 4 (to_be_bytes s' ! 0)
     \<and> to_be_bytes s ! 1 = to_be_bytes s' ! 1
     \<and> take_bit 6 (to_be_bytes s ! 2) = take_bit 6 (to_be_bytes s' ! 2)
     \<and> to_be_bytes s ! 3 = to_be_bytes s' ! 3 \<and> to_be_bytes s ! 4 = to_be_bytes s' ! 4
     \<and> to_be_bytes s ! 5 = to_be_bytes s' ! 5 \<and> to_be_bytes s ! 6 = to_be_bytes s' ! 6
     \<and> to_be_bytes s ! 7 = to_be_bytes s' ! 7"
  using from_seed_total [of t]
  by (auto simp: from_seed_def Let_def not_less low_nibble low_six or_disjoint_eq_iff)

lemma bytes_cover_sequence:
  fixes P :: "nat \<Rightarrow> bool"
  shows "((\<forall>k<4. P (56 + k)) \<and> (\<forall>k<8. P (48 + k)) \<and> (\<forall>k<6. P (40 + k)) \<and> (\<forall>k<8. P (32 + k))
     \<and> (\<forall>k<8. P (24 + k)) \<and> (\<forall>k<8. P (16 + k)) \<and> (\<forall>k<8. P (8 + k)) \<and> (\<forall>k<8. P k))
   \<longleftrightarrow> (\<forall>n. n < 60 \<and> n \<noteq> 46 \<and> n \<noteq> 47 \<longrightarrow> P n)" (is "?l \<longleftrightarrow> ?r")
proof
  assume l: ?l
  have byte: "P (8 * i + k)" if "i < 8" "k < 8" "8 * i + k < 60" "8 * i + k \<noteq> 46" "8 * i + k \<noteq> 47" for i k
  proof -
    from that(1) consider "i = 0" | "i = 1" | "i = 2" | "i = 3" | "i = 4" | "i = 5" | "i = 6" | "i = 7"
      by linarith
    then show ?thesis using l that(2-) by cases simp_all
  qed
  have "P n" if "n < 60" "n \<noteq> 46" "n \<noteq> 47" for n
    using byte [of "n div 8" "n mod 8"] that by simp
  then show ?r by simp
qed simp

lemma sequence_mask_eq_iff:
  "(s :: u64) AND 0x0fff3fffffffffff = s' AND 0x0fff3fffffffffff
   \<longleftrightarrow> (\<forall>n. n < 60 \<and> n \<noteq> 46 \<and> n \<noteq> 47 \<longrightarrow> bit s n = bit s' n)"
  unfolding bit_eq_iff [where 'a = "64 word"] bit_and_iff bit_sequence_mask possible_bit_word
proof
  assume eq: "\<forall>n<LENGTH(64). (bit s n \<and> n < 60 \<and> n \<noteq> 46 \<and> n \<noteq> 47)
      = (bit s' n \<and> n < 60 \<and> n \<noteq> 46 \<and> n \<noteq> 47)"
  have "bit s n = bit s' n" if "n < 60 \<and> n \<noteq> 46 \<and> n \<noteq> 47" for n
    using eq [rule_format, of n] that by simp
  then show "\<forall>n. n < 60 \<and> n \<noteq> 46 \<and> n \<noteq> 47 \<longrightarrow> bit s n = bit s' n" by blast
qed blast

section \<open>Text lemmas\<close>

lemma nibble_join: "push_bit 4 (of_nat (unat b div 16)) OR of_nat (unat b mod 16) = (b :: u8)"
proof -
  have l: "(of_nat (unat b mod 16) :: u8) = take_bit 4 b"
    unfolding word_unat_eq_iff unsigned_take_bit_eq by (simp add: take_bit_eq_mod unsigned_of_nat)
  have h: "(of_nat (unat b div 16) :: u8) = drop_bit 4 b"
    using unat_bounded [of b]
    unfolding word_unat_eq_iff unat_drop_bit_eq
    by (simp add: drop_bit_eq_div unsigned_of_nat take_bit_nat_eq_self_iff)
  show ?thesis
    unfolding l h by (rule bit_word_eqI) (auto simp: bit_simps)
qed

lemma hex_nibble_digit: "n < 16 \<Longrightarrow> hex_nibble (hex_digit n) = Some (of_nat n)"
  by (auto simp: hex_nibble_def hex_digit_def Let_def)

lemma hex_digit_not_hyphen: "n < 16 \<Longrightarrow> hex_digit n \<noteq> CHR ''-''"
proof -
  assume n: "n < 16"
  have "of_char (hex_digit n) \<noteq> (45 :: nat)"
    using n by (auto simp: hex_digit_def)
  then show ?thesis by auto
qed
lemma uuid_digits_hex2:
  "uuid_digits i (hex2 b @ rest) bytes None = uuid_digits (i + 2) rest (bytes @ [b]) None"
  using hex_nibble_digit [of "unat b div 16"] hex_nibble_digit [of "unat b mod 16"]
    hex_digit_not_hyphen [of "unat b div 16"] hex_digit_not_hyphen [of "unat b mod 16"]
    unat_bounded [of b]
  by (simp add: hex2_def nibble_join less_mult_imp_div_less)

lemma uuid_digits_hex_bytes:
  "uuid_digits i (hex_bytes bs @ rest) bytes None
   = uuid_digits (i + 2 * length bs) rest (bytes @ bs) None"
  by (induction bs arbitrary: i bytes) (simp_all add: hex_bytes_def uuid_digits_hex2)

lemma length_hex_bytes: "length (hex_bytes bs) = 2 * length bs"
  by (induction bs) (simp_all add: hex_bytes_def hex2_def)

lemma uuid_digits_hyphen [simp]:
  "uuid_digits i (CHR ''-'' # cs) bytes h = uuid_digits (Suc i) cs bytes h"
  by simp

lemma parse_print_bytes:
  assumes "uuid_wf b"
  shows "parse_uuid_v7_canonical (uuid_to_canonical_string (UuidV7 b)) = Inr (UuidV7 b)"
proof -
  have len: "length b = 16" using assms by (simp add: uuid_wf_def)
  have cat: "take 4 b @ take 2 (drop 4 b) @ take 2 (drop 6 b) @ take 2 (drop 8 b) @ drop 10 b = b"
    using append_take_drop_id [of 4 b] append_take_drop_id [of 2 "drop 4 b"]
      append_take_drop_id [of 2 "drop 6 b"] append_take_drop_id [of 2 "drop 8 b"]
    by simp
  let ?t = "uuid_to_canonical_string (UuidV7 b)"
  have t: "?t = hex_bytes (take 4 b) @ CHR ''-'' # hex_bytes (take 2 (drop 4 b)) @ CHR ''-''
         # hex_bytes (take 2 (drop 6 b)) @ CHR ''-'' # hex_bytes (take 2 (drop 8 b)) @ CHR ''-''
         # hex_bytes (drop 10 b) @ []"
    by (simp add: uuid_to_canonical_string_def)
  have "length ?t = 36" and "?t ! 8 = CHR ''-''" "?t ! 13 = CHR ''-''" "?t ! 18 = CHR ''-''" "?t ! 23 = CHR ''-''"
    unfolding t by (simp_all add: length_hex_bytes len nth_append nth_Cons')
  moreover have "uuid_digits 0 ?t [] None = Inr b"
    unfolding t uuid_digits_hex_bytes uuid_digits_hyphen uuid_digits.simps(1) by (simp add: cat)
  ultimately show ?thesis
    using assms by (simp add: parse_uuid_v7_canonical_def from_canonical_bytes_def uuid_wf_def)
qed

section \<open>Allocation lemmas\<close>

lemma seeded_ids_Inr:
  "seeded_ids wrap t s n = Inr ids \<Longrightarrow>
   length ids = n \<and> (\<forall>i<n. \<exists>u. from_seed t (s + of_nat i) = Inr u \<and> ids ! i = wrap u)"
proof (induction n arbitrary: s ids)
  case (Suc n)
  then obtain u us where u: "from_seed t s = Inr u" "seeded_ids wrap t (s + 1) n = Inr us"
    and ids: "ids = wrap u # us"
    by (auto simp: and_then_def split: sum.splits)
  have "\<exists>v. from_seed t (s + of_nat i) = Inr v \<and> ids ! i = wrap v" if "i < Suc n" for i
    using that u ids Suc.IH [OF u(2)] by (cases i) (auto simp: add.assoc)
  then show ?case
    using ids Suc.IH [OF u(2)] by simp
qed simp

text \<open>What a batch does to the sequence counter, on every branch.\<close>

lemma allocate_batch_Inl:
  "allocate_batch wrap s count t = (Inl e, s') \<Longrightarrow> s' = s"
  by (auto simp: allocate_batch_def split: if_splits option.splits sum.splits)

lemma allocate_batch_Inr:
  assumes "allocate_batch wrap s count t = (Inr ids, s')"
  shows "unat s' = unat s + count" "length ids = count"
    "\<forall>i<count. \<exists>u. from_seed t (s + of_nat i) = Inr u \<and> ids ! i = wrap u"
proof -
  have "unat s' = unat s + count \<and> length ids = count
    \<and> (\<forall>i<count. \<exists>u. from_seed t (s + of_nat i) = Inr u \<and> ids ! i = wrap u)"
  proof (cases "count = 0")
    case False
    then obtain n where n: "checked_add s (of_nat count) = Some n" and c: "count < 2 ^ 64"
      and ids: "seeded_ids wrap t s count = Inr ids" and s': "s' = s + of_nat count"
      using assms by (auto simp: allocate_batch_def not_le split: if_splits option.splits sum.splits)
    have "s' = n" using n s' by (simp add: checked_add_def split: if_splits)
    then have "unat s' = unat s + count"
      using n c by (simp add: checked_add_Some_iff unsigned_of_nat take_bit_nat_eq_self)
    then show ?thesis using seeded_ids_Inr [OF ids] by simp
  qed (use assms in \<open>auto simp: allocate_batch_def\<close>)
  then show "unat s' = unat s + count" "length ids = count"
    "\<forall>i<count. \<exists>u. from_seed t (s + of_nat i) = Inr u \<and> ids ! i = wrap u"
    by simp_all
qed

text \<open>A batch is granted while the time is representable and the counter does not overflow.\<close>

lemma seeded_ids_granted:
  "t div NANOS_PER_MILLI \<le> UUIDV7_TIMESTAMP_MAX_MS \<Longrightarrow> \<exists>ids. seeded_ids wrap t s n = Inr ids"
proof (induction n arbitrary: s)
  case (Suc n)
  then obtain ids where "seeded_ids wrap t (s + 1) n = Inr ids" by blast
  moreover obtain u where "from_seed t s = Inr u" using Suc.prems by (auto simp: from_seed_def Let_def not_less)
  ultimately show ?case by simp
qed simp

lemma allocate_batch_granted:
  assumes "t div NANOS_PER_MILLI \<le> UUIDV7_TIMESTAMP_MAX_MS" and "unat s + count < 2 ^ 64"
  shows "\<exists>ids. allocate_batch wrap s count t = (Inr ids, s + of_nat count)"
proof -
  have "unat (of_nat count :: u64) = count"
    using assms(2) by (simp add: unsigned_of_nat take_bit_nat_eq_self)
  then have "checked_add s (of_nat count) \<noteq> None"
    using assms(2) by (auto simp: checked_add_def split: if_splits)
  then show ?thesis
    using seeded_ids_granted [OF assms(1), of wrap s count] assms(2)
    by (auto simp: allocate_batch_def split: option.split)
qed

section \<open>The allocator interface\<close>

text \<open>A sequence of batch requests; a refused batch issues nothing.\<close>

fun issue ::
  "(nat \<Rightarrow> u64 \<Rightarrow> 'a \<Rightarrow> (id_allocation_error, 'id list, 'a) outcome) \<Rightarrow> (nat \<times> u64) list \<Rightarrow> 'a
   \<Rightarrow> 'id list" where
  "issue allocate [] a = []"
| "issue allocate ((count, t) # requests) a =
     (case allocate count t a of
        (Inl e, a') \<Rightarrow> issue allocate requests a'
      | (Inr ids, a') \<Rightarrow> ids @ issue allocate requests a')"

locale id_allocator =
  fixes wrap :: "uuid_v7 \<Rightarrow> 'id"
    and next_sequence :: "'a \<Rightarrow> u64"
    and allocate :: "nat \<Rightarrow> u64 \<Rightarrow> 'a \<Rightarrow> (id_allocation_error, 'id list, 'a) outcome"
  assumes wrap_inject: "wrap u = wrap v \<Longrightarrow> u = v"
    and allocate_batch_of:
      "allocate count t a = (r, a') \<Longrightarrow>
       allocate_batch wrap (next_sequence a) count t = (r, next_sequence a')"
begin

lemma refused_keeps_counter: "allocate count t a = (Inl e, a') \<Longrightarrow> next_sequence a' = next_sequence a"
  by (blast dest: allocate_batch_of allocate_batch_Inl)

text \<open>The identifiers of a batch come from the sequence numbers the counter passes over.\<close>

lemma issued_range:
  assumes "allocate count t a = (Inr ids, a')"
  shows "unat (next_sequence a') = unat (next_sequence a) + count"
    and "x \<in> set ids \<Longrightarrow> \<exists>u n. x = wrap u \<and> from_seed t n = Inr u
           \<and> unat (next_sequence a) \<le> unat n \<and> unat n < unat (next_sequence a')"
    and "unat (next_sequence a') \<le> 2 ^ 46 \<Longrightarrow> distinct ids"
proof -
  note b = allocate_batch_Inr [OF allocate_batch_of [OF assms]]
  show end_: "unat (next_sequence a') = unat (next_sequence a) + count" by (rule b)
  have seq: "unat (next_sequence a + of_nat i) = unat (next_sequence a) + i" if "i < count" for i
    using that end_ unat_bounded [of "next_sequence a'"]
    by (simp add: unat_word_ariths unsigned_of_nat take_bit_nat_eq_self)
  show "\<exists>u n. x = wrap u \<and> from_seed t n = Inr u
          \<and> unat (next_sequence a) \<le> unat n \<and> unat n < unat (next_sequence a')" if "x \<in> set ids"
    using that b(2,3) seq end_ by (fastforce simp: in_set_conv_nth)
  show "distinct ids" if small: "unat (next_sequence a') \<le> 2 ^ 46"
    unfolding distinct_conv_nth
  proof (intro allI impI notI)
    fix i j assume ij: "i < length ids" "j < length ids" "i \<noteq> j" "ids ! i = ids ! j"
    then obtain u where "from_seed t (next_sequence a + of_nat i) = Inr u"
      "from_seed t (next_sequence a + of_nat j) = Inr u"
      using b(2,3) wrap_inject by metis
    then have "next_sequence a + of_nat i = next_sequence a + (of_nat j :: u64)"
      using ij b(2) seq end_ small by (intro from_seed_sequence_inj) auto
    then show False using ij b(2) seq by (metis add_left_cancel)
  qed
qed

lemma issue_range:
  "x \<in> set (issue allocate requests a) \<Longrightarrow>
   unat (next_sequence a) + sum_list (map fst requests) \<le> 2 ^ 46 \<Longrightarrow>
   \<exists>u t n. x = wrap u \<and> from_seed t n = Inr u \<and> unat (next_sequence a) \<le> unat n \<and> unat n < 2 ^ 46"
proof (induction requests arbitrary: a)
  case (Cons r requests)
  obtain count t where r: "r = (count, t)" by (cases r)
  obtain q a' where q: "allocate count t a = (q, a')" by (cases "allocate count t a")
  show ?case
  proof (cases q)
    case (Inl e)
    then show ?thesis
      using Cons.IH [of a'] Cons.prems r q refused_keeps_counter [of count t a e a'] by simp
  next
    case (Inr ids)
    note ir = issued_range [OF q [unfolded Inr]]
    show ?thesis
    proof (cases "x \<in> set ids")
      case True
      then show ?thesis using ir(1) ir(2) [OF True] Cons.prems r by fastforce
    next
      case False
      then show ?thesis using Cons.IH [of a'] Cons.prems r q Inr ir(1) by fastforce
    qed
  qed
qed simp

lemma issue_distinct:
  "unat (next_sequence a) + sum_list (map fst requests) \<le> 2 ^ 46 \<Longrightarrow> distinct (issue allocate requests a)"
proof (induction requests arbitrary: a)
  case (Cons r requests)
  obtain count t where r: "r = (count, t)" by (cases r)
  obtain q a' where q: "allocate count t a = (q, a')" by (cases "allocate count t a")
  show ?case
  proof (cases q)
    case (Inl e)
    then show ?thesis using Cons r q refused_keeps_counter [of count t a e a'] by simp
  next
    case (Inr ids)
    note ir = issued_range [OF q [unfolded Inr]]
    have small: "unat (next_sequence a') + sum_list (map fst requests) \<le> 2 ^ 46"
      using ir(1) Cons.prems r by simp
    have "x \<notin> set (issue allocate requests a')" if x: "x \<in> set ids" for x
    proof
      assume "x \<in> set (issue allocate requests a')"
      then obtain u t' n where later: "x = wrap u" "from_seed t' n = Inr u"
        "unat (next_sequence a') \<le> unat n" "unat n < 2 ^ 46"
        using issue_range small by blast
      obtain v m where now: "x = wrap v" "from_seed t m = Inr v" "unat m < unat (next_sequence a')"
        using ir(2) [OF x] by blast
      have "m = n"
        using later now wrap_inject by (intro from_seed_sequence_inj [of t m u t' n]) auto
      with later now show False by simp
    qed
    moreover have "distinct ids" using ir(3) small by simp
    ultimately show ?thesis using Cons.IH [OF small] r q Inr by auto
  qed
qed simp

end

interpretation operation_ids: id_allocator OperationId oa_next_sequence operation_allocate_batch
  by unfold_locales (auto simp: operation_allocate_batch_def map_prod_def split: prod.splits)

interpretation job_ids: id_allocator JobId ja_next_sequence job_allocate_batch
  by unfold_locales (auto simp: job_allocate_batch_def map_prod_def split: prod.splits)

section \<open>Properties\<close>

text \<open>C36: every identifier peinit allocates prints to a canonical text that parses back to it.\<close>

theorem uuid_parse_print:
  assumes "from_seed observed_at_ns sequence = Inr u"
  shows "parse_uuid_v7_canonical (uuid_to_canonical_string u) = Inr u"
  using parse_print_bytes [OF from_seed_wf [OF assms]] by (cases u) simp

theorem uuid_parse_print_witness:
  "parse_uuid_v7_canonical (uuid_to_canonical_string
     (UuidV7 [0, 0, 0, 0, 0, 1, 0x70, 0, 0x80, 0, 0, 0, 0, 5, 0x42, 0x41]))
   = Inr (UuidV7 [0, 0, 0, 0, 0, 1, 0x70, 0, 0x80, 0, 0, 0, 0, 5, 0x42, 0x41])"
  by (rule uuid_parse_print [of 1000001 5])
    (simp add: from_seed_def NANOS_PER_MILLI_def UUIDV7_TIMESTAMP_MAX_MS_def to_be_bytes_def Let_def)

text \<open>
  C37: whatever batches are requested and whenever, the operation identifiers issued while the
  sequence counter stays within \<open>2 ^ 46\<close> are pairwise distinct.
\<close>

theorem operation_ids_distinct:
  assumes "unat (oa_next_sequence a) + sum_list (map fst requests) \<le> 2 ^ 46"
  shows "distinct (issue operation_allocate_batch requests a)"
  using assms by (rule operation_ids.issue_distinct)

theorem operation_ids_distinct_witness:
  "distinct (issue operation_allocate_batch [(2, 1000001), (1, 5)] \<lparr>oa_next_sequence = 7\<rparr>)"
  by (rule operation_ids_distinct) simp

text \<open>The same for job identifiers.\<close>

lemma job_ids_distinct:
  assumes "unat (ja_next_sequence a) + sum_list (map fst requests) \<le> 2 ^ 46"
  shows "distinct (issue job_allocate_batch requests a)"
  using assms by (rule job_ids.issue_distinct)

text \<open>
  C38: a batch is all or nothing: a refused batch leaves the counter where it was, and an accepted
  one returns exactly the requested number of identifiers and moves the counter past them
  without wrapping.
\<close>

theorem operation_batch_all_or_nothing:
  assumes "operation_allocate_batch count observed_at_ns a = (r, a')"
  shows "case r of
      Inl e \<Rightarrow> a' = a
    | Inr ids \<Rightarrow> length ids = count
        \<and> unat (oa_next_sequence a') = unat (oa_next_sequence a) + count"
proof (cases r)
  case (Inl e)
  then show ?thesis
    using operation_ids.refused_keeps_counter [of count observed_at_ns a e a'] assms by simp
next
  case (Inr ids)
  then show ?thesis
    using allocate_batch_Inr(2) [OF operation_ids.allocate_batch_of]
      operation_ids.issued_range(1) assms by auto
qed

theorem operation_batch_all_or_nothing_witness:
  "snd (operation_allocate_batch 2 18446744073709551615 \<lparr>oa_next_sequence = 18446744073709551614\<rparr>)
   = \<lparr>oa_next_sequence = 18446744073709551614\<rparr>"
  using operation_batch_all_or_nothing
    [of 2 18446744073709551615 "\<lparr>oa_next_sequence = 18446744073709551614\<rparr>"
      "Inl (SequenceExhausted 18446744073709551614 2)"]
  by (simp add: operation_allocate_batch_def allocate_batch_def checked_add_def)

text \<open>
  The parser skips a hyphen wherever it stands. So for every identifier peinit allocates, its
  canonical text with the last two digits replaced by hyphens is accepted too, and read as the
  identifier with a zero in its last byte.
\<close>

theorem parse_accepts_stray_hyphens:
  assumes "from_seed observed_at_ns sequence = Inr u"
  shows "parse_uuid_v7_canonical (take 34 (uuid_to_canonical_string u) @ ''--'')
    = Inr (UuidV7 (take 15 (as_bytes u) @ [0]))"
proof -
  obtain b where u: "u = UuidV7 b" by (cases u)
  have wf: "uuid_wf b" using from_seed_wf [OF assms] u by simp
  then have len: "length b = 16" by (simp add: uuid_wf_def)
  have cat: "take 4 b @ take 2 (drop 4 b) @ take 2 (drop 6 b) @ take 2 (drop 8 b) @ take 5 (drop 10 b) = take 15 b"
    using take_add [of 4 2 b] take_add [of 6 2 b] take_add [of 8 2 b] take_add [of 10 5 b]
    by simp
  have split: "drop 10 b = take 5 (drop 10 b) @ [b ! 15]"
    using len by (intro nth_equalityI) (auto simp: nth_append less_Suc_eq numeral_eq_Suc)
  have "hex_bytes (drop 10 b) = hex_bytes (take 5 (drop 10 b)) @ hex2 (b ! 15)"
    by (subst split) (simp add: hex_bytes_def)
  then have t: "take 34 (uuid_to_canonical_string u) @ ''--'' =
      hex_bytes (take 4 b) @ CHR ''-'' # hex_bytes (take 2 (drop 4 b)) @ CHR ''-''
         # hex_bytes (take 2 (drop 6 b)) @ CHR ''-'' # hex_bytes (take 2 (drop 8 b)) @ CHR ''-''
         # hex_bytes (take 5 (drop 10 b)) @ ''--''" (is "?t = _")
    using len by (simp add: u uuid_to_canonical_string_def length_hex_bytes numeral_eq_Suc)
  have "length ?t = 36" and "?t ! 8 = CHR ''-''" "?t ! 13 = CHR ''-''" "?t ! 18 = CHR ''-''" "?t ! 23 = CHR ''-''"
    unfolding t by (simp_all add: length_hex_bytes len nth_append nth_Cons')
  moreover have "uuid_digits 0 ?t [] None = Inr (take 15 b)"
    unfolding t uuid_digits_hex_bytes uuid_digits_hyphen uuid_digits.simps(1) by (simp add: cat)
  ultimately show ?thesis
    using wf len
    by (simp add: parse_uuid_v7_canonical_def from_canonical_bytes_def uuid_wf_def u nth_append)
qed

theorem parse_accepts_stray_hyphens_witness:
  "parse_uuid_v7_canonical (take 34 (uuid_to_canonical_string
     (UuidV7 [0, 0, 0, 0, 0, 1, 0x70, 0, 0x80, 0, 0, 0, 0, 5, 0x42, 0x41])) @ ''--'')
   = Inr (UuidV7 [0, 0, 0, 0, 0, 1, 0x70, 0, 0x80, 0, 0, 0, 0, 5, 0x42, 0])"
  using parse_accepts_stray_hyphens [of 1000001 5 "UuidV7 [0, 0, 0, 0, 0, 1, 0x70, 0, 0x80, 0, 0, 0, 0, 5, 0x42, 0x41]"]
  by (simp add: from_seed_def NANOS_PER_MILLI_def UUIDV7_TIMESTAMP_MAX_MS_def to_be_bytes_def Let_def)

text \<open>
  C39: allocation never fails for its time stamp, and at one observation time the identifiers of two
  sequence numbers coincide exactly when the numbers agree outside the bits 46, 47 and 60 to 63,
  which the layout has no room for. Within \<open>2 ^ 46\<close> numbers none repeat; the next one does.
\<close>

theorem from_seed_collisions:
  "is_ok (from_seed t s) \<and>
   (from_seed t s = from_seed t s' \<longleftrightarrow> s AND 0x0fff3fffffffffff = s' AND 0x0fff3fffffffffff)"
proof -
  have "from_seed t s = from_seed t s'
    \<longleftrightarrow> (\<forall>n. n < 60 \<and> n \<noteq> 46 \<and> n \<noteq> 47 \<longrightarrow> bit s n = bit s' n)"
    unfolding bytes_cover_sequence [symmetric] from_seed_eq_iff
    by (simp only: masked_byte_eq_iff byte_eq_iff) simp
  moreover have "is_ok (from_seed t s)"
    using from_seed_total [of t] by (simp add: from_seed_def Let_def not_less is_ok_def)
  ultimately show ?thesis by (simp only: sequence_mask_eq_iff simp_thms)
qed

end
