(* ===== verification/Cgroup.thy ===== *)
theory Cgroup
  imports Ids Service_Definition
begin

text \<open>
  The cgroup tree (\<open>src/job/cgroup.rs\<close>): the encoding of service names, the paths of services,
  their parts and submitted jobs, and the reading of \<open>/proc/<pid>/cgroup\<close> back to what a process
  belongs to. \<open>String::from_utf8\<close>, \<open>str::lines\<close> and \<open>u8::from_str_radix\<close> are spelled out on bytes.

  The lemmas show that two services or two generations never share a tree, and that reading a
  path back gives the service and the part, or the job, it was made for.
\<close>

section \<open>Paths\<close>

definition PEINIT_CGROUP_ROOT :: string where
  "PEINIT_CGROUP_ROOT = ''/sys/fs/cgroup/peinit''"

datatype service_cgroup_kind = MainCgroup | HooksCgroup | HealthCgroup

fun path_component :: "service_cgroup_kind \<Rightarrow> string" where
  "path_component MainCgroup = ''main''"
| "path_component HooksCgroup = ''hooks''"
| "path_component HealthCgroup = ''health''"

definition is_cgroup_safe :: "char \<Rightarrow> bool" where
  "is_cgroup_safe byte \<longleftrightarrow> is_ascii_alphanumeric byte \<or> byte \<in> set ''._-''"

definition upper_hex :: "nat \<Rightarrow> char" where
  "upper_hex n = (if n < 10 then char_of (48 + n) else char_of (55 + n))"

definition encode_byte :: "char \<Rightarrow> string" where
  "encode_byte byte =
     (if is_cgroup_safe byte then [byte]
      else [CHR ''%'', upper_hex (of_char byte div 16), upper_hex (of_char byte mod 16)])"

definition encode_service_cgroup_id :: "string \<Rightarrow> string" where
  "encode_service_cgroup_id service = concat (map encode_byte service)"

definition GENERATION_SEPARATOR :: string where
  "GENERATION_SEPARATOR = ''%gen''"

definition generation_suffix :: "u64 \<Rightarrow> string" where
  "generation_suffix generation =
     (if generation = 0 then [] else GENERATION_SEPARATOR @ dec_string (unat generation))"

definition service_cgroup_root_path :: "string \<Rightarrow> u64 \<Rightarrow> string" where
  "service_cgroup_root_path service generation =
     PEINIT_CGROUP_ROOT @ ''/'' @ encode_service_cgroup_id service @ generation_suffix generation"

definition service_job_cgroup_path :: "string \<Rightarrow> u64 \<Rightarrow> service_cgroup_kind \<Rightarrow> string" where
  "service_job_cgroup_path service generation kind =
     service_cgroup_root_path service generation @ ''/'' @ path_component kind"

definition submitted_job_cgroup_path :: "job_id \<Rightarrow> string" where
  "submitted_job_cgroup_path job_id =
     PEINIT_CGROUP_ROOT @ ''/jobs/'' @ uuid_to_canonical_string (job_uuid job_id)"

section \<open>Reading back\<close>

definition is_continuation :: "char \<Rightarrow> bool" where
  "is_continuation c = (let n = of_char c :: nat in 0x80 \<le> n \<and> n \<le> 0xBF)"

definition second_ok :: "nat \<Rightarrow> char \<Rightarrow> bool" where
  "second_ok lead c =
     (let n = of_char c :: nat
      in if lead = 0xE0 then 0xA0 \<le> n \<and> n \<le> 0xBF
         else if lead = 0xED then 0x80 \<le> n \<and> n \<le> 0x9F
         else if lead = 0xF0 then 0x90 \<le> n \<and> n \<le> 0xBF
         else if lead = 0xF4 then 0x80 \<le> n \<and> n \<le> 0x8F
         else 0x80 \<le> n \<and> n \<le> 0xBF)"

fun utf8_valid :: "string \<Rightarrow> bool" where
  "utf8_valid [] = True"
| "utf8_valid (a # s) =
     (let n = of_char a :: nat
      in if n < 0x80 then utf8_valid s
         else if 0xC2 \<le> n \<and> n \<le> 0xDF then
           (case s of b # s' \<Rightarrow> is_continuation b \<and> utf8_valid s' | _ \<Rightarrow> False)
         else if 0xE0 \<le> n \<and> n \<le> 0xEF then
           (case s of b # c # s' \<Rightarrow> second_ok n b \<and> is_continuation c \<and> utf8_valid s' | _ \<Rightarrow> False)
         else if 0xF0 \<le> n \<and> n \<le> 0xF4 then
           (case s of
              b # c # d # s' \<Rightarrow>
                second_ok n b \<and> is_continuation c \<and> is_continuation d \<and> utf8_valid s'
            | _ \<Rightarrow> False)
         else False)"

definition hex_value :: "char \<Rightarrow> nat option" where
  "hex_value c = map_option unat (hex_nibble c)"

definition from_hex2 :: "char \<Rightarrow> char \<Rightarrow> nat option" where
  "from_hex2 a b =
     (if a = CHR ''+'' then hex_value b
      else case (hex_value a, hex_value b) of
          (Some h, Some l) \<Rightarrow> Some (h * 16 + l)
        | _ \<Rightarrow> None)"

text \<open>
  The byte loop of the decoder. \<open>encoded.get(i + 1..i + 3)\<close> also fails when the slice would end
  inside a character.
\<close>

fun decode_bytes :: "string \<Rightarrow> string option" where
  "decode_bytes [] = Some []"
| "decode_bytes (c # cs) =
     (if c = CHR ''%'' then
        (case cs of
           a # b # rest \<Rightarrow>
             if rest \<noteq> [] \<and> is_continuation (hd rest) then None
             else (case from_hex2 a b of
                     None \<Rightarrow> None
                   | Some n \<Rightarrow> map_option (Cons (char_of n)) (decode_bytes rest))
         | _ \<Rightarrow> None)
      else map_option (Cons c) (decode_bytes cs))"

definition decode_service_cgroup_id :: "string \<Rightarrow> string option" where
  "decode_service_cgroup_id encoded =
     (case decode_bytes encoded of
        None \<Rightarrow> None
      | Some out \<Rightarrow> if utf8_valid out then Some out else None)"

datatype service_part = MainPart | HooksPart | HealthPart | ChecksPart

datatype cgroup_membership = ServiceMember string "service_part option" | JobMember string

definition service_part_of :: "string option \<Rightarrow> service_part option" where
  "service_part_of name =
     (if name = Some ''main'' then Some MainPart
      else if name = Some ''hooks'' then Some HooksPart
      else if name = Some ''health'' then Some HealthPart
      else if name = Some ''checks'' then Some ChecksPart
      else None)"

definition strip_cr :: "string \<Rightarrow> string" where
  "strip_cr s = (if s \<noteq> [] \<and> last s = CHR 0x0D then butlast s else s)"

text \<open>\<open>str::lines\<close>: the terminated lines, and the rest when it is not empty.\<close>

definition str_lines :: "string \<Rightarrow> string list" where
  "str_lines s =
     (let pieces = split_on (CHR 0x0A) s
      in map strip_cr (butlast pieces) @ (if last pieces = [] then [] else [last pieces]))"

text \<open>What stands before the first generation separator.\<close>

fun before_separator :: "string \<Rightarrow> string" where
  "before_separator [] = []"
| "before_separator (c # cs) =
     (if strip_prefix GENERATION_SEPARATOR (c # cs) \<noteq> None then []
      else c # before_separator cs)"

definition cgroup_member :: "string \<Rightarrow> cgroup_membership option" where
  "cgroup_member proc_cgroup =
     (case find_map (strip_prefix ''0::'') (str_lines proc_cgroup) of
        None \<Rightarrow> None
      | Some path \<Rightarrow>
          (case strip_prefix ''/peinit/'' path of
             None \<Rightarrow> None
           | Some rest \<Rightarrow>
               (case split_on (CHR ''/'') rest of
                  [] \<Rightarrow> None
                | first # others \<Rightarrow>
                    let second = (case others of [] \<Rightarrow> None | s # _ \<Rightarrow> Some s)
                    in if first = ''jobs'' \<and> second \<noteq> None \<and> service_part_of second = None
                       then map_option JobMember second
                       else map_option (\<lambda>service. ServiceMember service (service_part_of second))
                              (decode_service_cgroup_id (before_separator first)))))"

text \<open>The part a process put under a cgroup of a kind belongs to.\<close>

fun part_of_kind :: "service_cgroup_kind \<Rightarrow> service_part" where
  "part_of_kind MainCgroup = MainPart"
| "part_of_kind HooksCgroup = HooksPart"
| "part_of_kind HealthCgroup = HealthPart"

section \<open>The encoding\<close>

lemma upper_hex_cases: "n < 16 \<Longrightarrow>
    (if n < 10 then (of_char (upper_hex n) :: nat) = 48 + n else of_char (upper_hex n) = 55 + n)"
  by (auto simp: upper_hex_def)

lemma hex_value_upper: "n < 16 \<Longrightarrow> hex_value (upper_hex n) = Some n"
  using upper_hex_cases [of n] by (auto simp: hex_value_def hex_nibble_def Let_def unsigned_of_nat
      take_bit_nat_eq_self split: if_splits)

lemma upper_hex_not:
  assumes "n < 16"
  shows "upper_hex n \<noteq> CHR ''+''" "upper_hex n \<noteq> CHR ''g''" "upper_hex n \<noteq> CHR ''/''"
    "upper_hex n \<noteq> CHR 0x0A" "upper_hex n \<noteq> CHR ''%''" "\<not> is_continuation (upper_hex n)"
  using upper_hex_cases [OF assms] assms
  by (auto simp: is_continuation_def Let_def split: if_splits)

lemma of_char_split:
  "(of_char c :: nat) div 16 < 16" "(of_char c :: nat) mod 16 < 16"
  "char_of ((of_char c :: nat) div 16 * 16 + of_char c mod 16) = c"
  using nat_of_char_less_256 [of c] by (simp_all add: less_mult_imp_div_less)

lemma safe_not:
  assumes "is_cgroup_safe c"
  shows "c \<noteq> CHR ''%''" "c \<noteq> CHR ''/''" "c \<noteq> CHR 0x0A" "c \<noteq> CHR 0x0D" "\<not> is_continuation c"
  using assms
  by (auto simp: is_cgroup_safe_def is_ascii_alphanumeric_def is_ascii_digit_def
      is_continuation_def Let_def)

lemma encode_chars:
  assumes "c \<in> set (encode_service_cgroup_id s)"
  shows "c \<noteq> CHR ''/''" "c \<noteq> CHR 0x0A" "\<not> is_continuation c"
proof -
  obtain b where b: "c \<in> set (encode_byte b)"
    using assms by (auto simp: encode_service_cgroup_id_def)
  show "c \<noteq> CHR ''/''" "c \<noteq> CHR 0x0A" "\<not> is_continuation c"
    using b safe_not [of c] upper_hex_not [OF of_char_split(1) [of b]]
      upper_hex_not [OF of_char_split(2) [of b]]
    by (auto simp: encode_byte_def is_continuation_def split: if_splits)
qed

lemma encode_Cons: "encode_service_cgroup_id (c # s) = encode_byte c @ encode_service_cgroup_id s"
  by (simp add: encode_service_cgroup_id_def)

lemma from_hex2_upper: "a < 16 \<Longrightarrow> b < 16 \<Longrightarrow> from_hex2 (upper_hex a) (upper_hex b) = Some (a * 16 + b)"
  by (simp add: from_hex2_def hex_value_upper upper_hex_not)

lemma decode_encode: "decode_bytes (encode_service_cgroup_id s) = Some s"
proof (induction s)
  case Nil
  then show ?case by (simp add: encode_service_cgroup_id_def)
next
  case (Cons c s)
  show ?case
  proof (cases "is_cgroup_safe c")
    case True
    then show ?thesis using Cons safe_not(1) by (simp add: encode_Cons encode_byte_def)
  next
    case False
    let ?e = "encode_service_cgroup_id s"
    have "\<not> (?e \<noteq> [] \<and> is_continuation (hd ?e))"
      using encode_chars(3) [of "hd ?e" s] by auto
    then show ?thesis
      using Cons False from_hex2_upper [OF of_char_split(1,2) [of c]] of_char_split(3) [of c]
      by (simp add: encode_Cons encode_byte_def)
  qed
qed

lemma encode_inject [simp]: "encode_service_cgroup_id s = encode_service_cgroup_id t \<longleftrightarrow> s = t"
  by (metis decode_encode option.inject)

section \<open>Paths and back\<close>

lemma before_separator_no:
  "c \<noteq> CHR ''%'' \<Longrightarrow> before_separator (c # cs) = c # before_separator cs"
  "d \<noteq> CHR ''g'' \<Longrightarrow> before_separator (c # d # cs) = c # before_separator (d # cs)"
  by (simp_all add: GENERATION_SEPARATOR_def)

declare before_separator.simps(2) [simp del]

lemma before_separator_suffix: "before_separator (generation_suffix g) = []"
  by (auto simp: generation_suffix_def GENERATION_SEPARATOR_def before_separator.simps(2))

lemma before_separator_encode:
  "before_separator (encode_service_cgroup_id s @ generation_suffix g) = encode_service_cgroup_id s"
proof (induction s)
  case Nil
  then show ?case by (simp add: encode_service_cgroup_id_def before_separator_suffix)
next
  case (Cons c s)
  show ?case
  proof (cases "is_cgroup_safe c")
    case True
    then show ?thesis
      using Cons safe_not(1) by (simp add: encode_Cons encode_byte_def before_separator_no)
  next
    case False
    then show ?thesis
      using Cons upper_hex_not [OF of_char_split(1) [of c]] upper_hex_not [OF of_char_split(2) [of c]]
      by (simp add: encode_Cons encode_byte_def before_separator_no)
  qed
qed

lemma generation_suffix_inject [simp]: "generation_suffix g = generation_suffix h \<longleftrightarrow> g = h"
  by (auto simp: generation_suffix_def GENERATION_SEPARATOR_def word_unat_eq_iff)

lemma root_path_inject:
  "service_cgroup_root_path s g = service_cgroup_root_path t h \<longleftrightarrow> s = t \<and> g = h"
proof
  assume "service_cgroup_root_path s g = service_cgroup_root_path t h"
  then have eq: "encode_service_cgroup_id s @ generation_suffix g
      = encode_service_cgroup_id t @ generation_suffix h"
    by (simp add: service_cgroup_root_path_def)
  then have "s = t"
    using before_separator_encode [of s g] before_separator_encode [of t h] by simp
  with eq show "s = t \<and> g = h" by simp
qed simp

lemma generation_suffix_chars:
  assumes "c \<in> set (generation_suffix g)"
  shows "c \<noteq> CHR ''/''" "c \<noteq> CHR 0x0A"
  using assms dec_string_digits [of c "unat g"]
  by (auto simp: generation_suffix_def GENERATION_SEPARATOR_def split: if_splits)

lemma str_lines_single:
  "CHR 0x0A \<notin> set line \<Longrightarrow> line = [] \<or> last line \<noteq> CHR 0x0D \<Longrightarrow> str_lines (line @ [CHR 0x0A]) = [line]"
  by (auto simp: str_lines_def split_on_separator strip_cr_def)

lemma cgroup_member_line:
  assumes "CHR 0x0A \<notin> set first" "CHR ''/'' \<notin> set first" "CHR 0x0A \<notin> set second"
    "CHR ''/'' \<notin> set second" "second \<noteq> []" "last second \<noteq> CHR 0x0D"
  shows "cgroup_member (''0::/peinit/'' @ first @ ''/'' @ second @ [CHR 0x0A]) =
     (if first = ''jobs'' \<and> service_part_of (Some second) = None then Some (JobMember second)
      else map_option (\<lambda>service. ServiceMember service (service_part_of (Some second)))
             (decode_service_cgroup_id (before_separator first)))"
proof -
  have "str_lines ((''0::/peinit/'' @ first @ ''/'' @ second) @ [CHR 0x0A])
      = [''0::/peinit/'' @ first @ ''/'' @ second]"
    using assms by (intro str_lines_single) auto
  then have lines: "str_lines (''0::/peinit/'' @ first @ ''/'' @ second @ [CHR 0x0A])
      = [''0::/peinit/'' @ first @ ''/'' @ second]"
    by simp
  have "split_on (CHR ''/'') (first @ CHR ''/'' # second) = [first, second]"
    using assms by (simp add: split_on_separator split_on_absent)
  then show ?thesis
    unfolding cgroup_member_def lines by (simp add: Let_def)
qed

lemma hex_bytes_char: "c \<in> set (hex_bytes bs) \<Longrightarrow> hex_nibble c \<noteq> None"
proof (induction bs)
  case (Cons b bs)
  have "unat b div 16 < 16" using unat_bounded [of b] by (simp add: less_mult_imp_div_less)
  then show ?case
    using Cons hex_nibble_digit [of "unat b div 16"] hex_nibble_digit [of "unat b mod 16"]
    by (auto simp: hex_bytes_def hex2_def)
qed (simp add: hex_bytes_def)

lemma canonical_char:
  "c \<in> set (uuid_to_canonical_string u) \<Longrightarrow> hex_nibble c \<noteq> None \<or> c = CHR ''-''"
  unfolding uuid_to_canonical_string_def Let_def by (auto dest: hex_bytes_char)

lemma canonical_not:
  assumes "c = CHR 0x0A \<or> c = CHR ''/'' \<or> c = CHR 0x0D"
  shows "c \<notin> set (uuid_to_canonical_string u)"
proof
  assume "c \<in> set (uuid_to_canonical_string u)"
  from canonical_char [OF this] show False
    using assms by (elim disjE) (simp_all add: hex_nibble_def)
qed

lemma canonical_hyphen: "CHR ''-'' \<in> set (uuid_to_canonical_string u)"
  by (simp add: uuid_to_canonical_string_def Let_def)

lemma hyphen_no_part:
  assumes "CHR ''-'' \<in> set t"
  shows "service_part_of (Some t) = None"
proof -
  have "CHR ''-'' \<notin> set ''main''" "CHR ''-'' \<notin> set ''hooks''" "CHR ''-'' \<notin> set ''health''"
    "CHR ''-'' \<notin> set ''checks''"
    by simp_all
  with assms have "t \<noteq> ''main''" "t \<noteq> ''hooks''" "t \<noteq> ''health''" "t \<noteq> ''checks''"
    by metis+
  then show ?thesis by (simp add: service_part_of_def)
qed

lemma canonical_name:
  "CHR 0x0A \<notin> set (uuid_to_canonical_string u)" "CHR ''/'' \<notin> set (uuid_to_canonical_string u)"
  "uuid_to_canonical_string u \<noteq> []" "last (uuid_to_canonical_string u) \<noteq> CHR 0x0D"
  "service_part_of (Some (uuid_to_canonical_string u)) = None"
proof -
  show ne: "uuid_to_canonical_string u \<noteq> []"
    using canonical_hyphen [of u] by (metis list.set_cases neq_Nil_conv)
  show "last (uuid_to_canonical_string u) \<noteq> CHR 0x0D"
    using last_in_set [OF ne] canonical_not [of "CHR 0x0D" u] by metis
qed (simp_all only: canonical_not hyphen_no_part canonical_hyphen simp_thms)

section \<open>Properties\<close>

text \<open>
  C33: no two services, and no two generations of one service, have the same cgroup root path: the
  path, as a string, determines both. (How the kernel resolves a path, and so a service named
  \<open>.\<close> or \<open>..\<close>, is outside the statement.)
\<close>

theorem cgroup_trees_are_distinct:
  "service_cgroup_root_path s g = service_cgroup_root_path t h \<longleftrightarrow> s = t \<and> g = h"
  by (rule root_path_inject)

text \<open>
  C34: the reading of \<open>/proc/<pid>/cgroup\<close> inverts the paths peinit makes: the line of a process
  put under a service's cgroup, whatever its name and generation, reads back as that service and
  part.
\<close>

theorem cgroup_member_inverts_service_path:
  assumes "utf8_valid service"
    and "''/sys/fs/cgroup'' @ p = service_job_cgroup_path service generation kind"
  shows "cgroup_member (''0::'' @ p @ [CHR 0x0A])
    = Some (ServiceMember service (Some (part_of_kind kind)))"
proof -
  let ?first = "encode_service_cgroup_id service @ generation_suffix generation"
  have p: "p = ''/peinit/'' @ ?first @ ''/'' @ path_component kind"
    using assms(2)
    by (simp add: service_job_cgroup_path_def service_cgroup_root_path_def PEINIT_CGROUP_ROOT_def)
  have kind: "CHR 0x0A \<notin> set (path_component kind)" "CHR ''/'' \<notin> set (path_component kind)"
    "path_component kind \<noteq> []" "last (path_component kind) \<noteq> CHR 0x0D"
    "service_part_of (Some (path_component kind)) = Some (part_of_kind kind)"
    by (cases kind; simp add: service_part_of_def)+
  have "CHR 0x0A \<notin> set ?first" "CHR ''/'' \<notin> set ?first"
    using encode_chars generation_suffix_chars by fastforce+
  then show ?thesis
    using cgroup_member_line [of ?first "path_component kind"] kind assms(1)
    by (simp add: p before_separator_encode decode_service_cgroup_id_def decode_encode)
qed

theorem cgroup_member_inverts_service_path_witness:
  "cgroup_member (''0::/peinit/a%2Fb%gen3/hooks'' @ [CHR 0x0A])
   = Some (ServiceMember ''a/b'' (Some HooksPart))"
proof -
  have "service_job_cgroup_path ''a/b'' 3 HooksCgroup = ''/sys/fs/cgroup/peinit/a%2Fb%gen3/hooks''"
    by code_simp
  then show ?thesis
    using cgroup_member_inverts_service_path [of "''a/b''" "''/peinit/a%2Fb%gen3/hooks''" 3 HooksCgroup]
    by simp
qed

text \<open>
  C35: the line of a submitted job's process reads back as that job's identifier, never as a
  service, although a service may itself be named \<open>jobs\<close>.
\<close>

theorem cgroup_member_inverts_job_path:
  assumes "''/sys/fs/cgroup'' @ p = submitted_job_cgroup_path job_id"
  shows "cgroup_member (''0::'' @ p @ [CHR 0x0A])
    = Some (JobMember (uuid_to_canonical_string (job_uuid job_id)))"
proof -
  have "p = ''/peinit/jobs/'' @ uuid_to_canonical_string (job_uuid job_id)"
    using assms by (simp add: submitted_job_cgroup_path_def PEINIT_CGROUP_ROOT_def)
  then show ?thesis
    using cgroup_member_line [of "''jobs''" "uuid_to_canonical_string (job_uuid job_id)"]
      canonical_name [of "job_uuid job_id"]
    by simp
qed

theorem cgroup_member_inverts_job_path_witness:
  "\<exists>id text. text = ''00000000-0000-0000-0000-000000000000'' \<and>
     cgroup_member (''0::/peinit/jobs/'' @ text @ [CHR 0x0A]) = Some (JobMember text) \<and>
     uuid_to_canonical_string (job_uuid id) = text"
proof -
  let ?id = "JobId (UuidV7 (replicate 16 0))"
  let ?text = "''00000000-0000-0000-0000-000000000000''"
  have t: "uuid_to_canonical_string (job_uuid ?id) = ?text"
    "submitted_job_cgroup_path ?id = ''/sys/fs/cgroup/peinit/jobs/'' @ ?text"
    by code_simp+
  then show ?thesis
    using cgroup_member_inverts_job_path [of "''/peinit/jobs/'' @ ?text" ?id]
    by (intro exI [of _ ?id] exI [of _ ?text]) simp
qed

end
