(* ===== verification/Service_Table.thy ===== *)
theory Service_Table
  imports Role Runtime Cgroup "HOL-Library.Product_Lexorder"
begin

text \<open>
  The service table (\<open>src/service/table/mod.rs\<close>, \<open>model.rs\<close> and \<open>activation/\<close>): the map from
  names to entries and every operation on one entry, with \<open>holds_tty\<close> of
  \<open>src/service/tty.rs\<close>. The table is its one field, the map of entries. Most operations look
  an entry up, fail with \<open>UnknownService\<close> when there is none, and write through it: they are
  \<open>with_entry\<close> of the update they make. Entry fields carry the prefix \<open>en_\<close>.

  The locale \<open>entry_operation\<close> is the contract of those operations; each of them interprets
  it. The lemmas show the invariant \<open>table_wf\<close> for every reachable table, what a transition
  does to the table, that the restart decision is recorded as it was made, that deadlines are
  found when due, and that a service never runs in a
  cgroup tree with a recorded leak.
\<close>

section \<open>Entries\<close>

record service_entry =
  en_definition :: service_definition
  en_pending_definition :: "service_definition option"
  en_runtime :: service_runtime_snapshot
  en_definition_removed :: bool

definition entry_satisfies :: "service_entry \<Rightarrow> string option \<Rightarrow> bool" where
  "entry_satisfies entry level =
     (if \<not> satisfies_dependents (rt_state (en_runtime entry)) then False
      else case level of
          None \<Rightarrow> True
        | Some wanted \<Rightarrow> wanted |\<in>| rt_levels (en_runtime entry))"

record service_activation_snapshot =
  as_service :: string
  as_activation_generation :: u64
  as_cgroup_generation :: u64
  as_definition :: service_definition

record service_table_transition =
  tt_event :: service_transition_event
  tt_discarded_definition_removed :: bool
  tt_released_tty :: "string option"

record restart_backoff_deadline =
  bd_service :: string
  bd_due_at_ns :: u64

record restart_window_reset_deadline =
  wd_service :: string
  wd_due_at_ns :: u64

datatype service_table_error =
    DuplicateEntry string
  | UnknownService string
  | DefinitionRemoved string
  | TransitionError service_transition_error

definition retains_definition_after_removal :: "service_state \<Rightarrow> bool" where
  "retains_definition_after_removal state \<longleftrightarrow> state \<in> {Starting, Active, Reloading, Stopping}"

definition holds_tty :: "service_state \<Rightarrow> bool" where
  "holds_tty state =
     (case state of
        Starting \<Rightarrow> True
      | Active \<Rightarrow> True
      | Reloading \<Rightarrow> True
      | Stopping \<Rightarrow> True
      | Backoff \<Rightarrow> True
      | Inactive \<Rightarrow> False
      | Completed \<Rightarrow> False
      | Failed \<Rightarrow> False
      | Skipped \<Rightarrow> False
      | Abandoned \<Rightarrow> False)"

section \<open>The table\<close>

type_synonym service_table = "(string, service_entry) btmap"

text \<open>Indexing definitions by name; the second definition of a name is an error.\<close>

fun map_definitions_loop ::
  "service_definition list \<Rightarrow> (string, service_definition) btmap
   \<Rightarrow> service_table_error + (string, service_definition) btmap" where
  "map_definitions_loop [] mapped = Inr mapped"
| "map_definitions_loop (d # ds) mapped =
     (if bt_contains_key mapped (sd_name d) then Inl (DuplicateEntry (sd_name d))
      else map_definitions_loop ds (bt_insert (sd_name d) d mapped))"

definition map_definitions ::
  "service_definition list \<Rightarrow> service_table_error + (string, service_definition) btmap" where
  "map_definitions definitions =
     map_definitions_loop (synthesise_role_dependencies definitions) bt_empty"

definition new_entry :: "service_definition \<Rightarrow> string \<Rightarrow> service_entry" where
  "new_entry d name =
     \<lparr>en_definition = d, en_pending_definition = None, en_runtime = runtime_inactive name,
      en_definition_removed = False\<rparr>"

definition table_new :: service_table where
  "table_new = bt_empty"

definition from_boot_snapshot ::
  "service_definition list \<Rightarrow> service_table_error + service_table" where
  "from_boot_snapshot definitions =
     and_then (map_definitions definitions) (\<lambda>mapped.
       Inr (fold (\<lambda>(name, d). bt_insert name (new_entry d name)) (bt_entries mapped) bt_empty))"

definition insert_undecodable_placeholder ::
  "string \<Rightarrow> transition_cause \<Rightarrow> string \<Rightarrow> service_table
   \<Rightarrow> (service_table_error, unit, service_table) outcome" where
  "insert_undecodable_placeholder service c message t =
     (case transition \<lparr>tr_to = Failed, tr_cause = c\<rparr> (runtime_inactive service) of
        (Inl e, _) \<Rightarrow> (Inl (TransitionError e), t)
      | (Inr _, runtime) \<Rightarrow>
          (Inr (),
           bt_insert service
             \<lparr>en_definition = undecodable_placeholder service message,
              en_pending_definition = None, en_runtime = runtime, en_definition_removed = True\<rparr> t))"

definition service_names :: "service_table \<Rightarrow> string list" where
  "service_names t = bt_keys t"

definition table_get :: "service_table \<Rightarrow> string \<Rightarrow> service_entry option" where
  "table_get t service = bt_get t service"

definition table_definition :: "service_table \<Rightarrow> string \<Rightarrow> service_definition option" where
  "table_definition t service = map_option en_definition (bt_get t service)"

definition table_runtime :: "service_table \<Rightarrow> string \<Rightarrow> service_runtime_snapshot option" where
  "table_runtime t service = map_option en_runtime (bt_get t service)"

definition require_entry :: "service_table \<Rightarrow> string \<Rightarrow> service_table_error + service_entry" where
  "require_entry t service = ok_or (bt_get t service) (UnknownService service)"

text \<open>\<open>require_entry_mut\<close> and what its caller then writes through the reference.\<close>

definition with_entry ::
  "string \<Rightarrow> (service_entry \<Rightarrow> 'a \<times> service_entry) \<Rightarrow> service_table
   \<Rightarrow> (service_table_error, 'a, service_table) outcome" where
  "with_entry service update t =
     (case bt_get t service of
        None \<Rightarrow> (Inl (UnknownService service), t)
      | Some entry \<Rightarrow> (case update entry of (a, entry') \<Rightarrow> (Inr a, bt_insert service entry' t)))"

definition on_runtime ::
  "(service_runtime_snapshot \<Rightarrow> service_runtime_snapshot) \<Rightarrow> service_entry \<Rightarrow> service_entry" where
  "on_runtime f entry = entry\<lparr>en_runtime := f (en_runtime entry)\<rparr>"

section \<open>Leaks, health, status and timers\<close>

definition leak_affects_tree :: "string \<Rightarrow> string \<Rightarrow> bool" where
  "leak_affects_tree path root \<longleftrightarrow>
     path = root
     \<or> (case strip_prefix root path of
          Some rest \<Rightarrow> (case rest of c # _ \<Rightarrow> c = CHR ''/'' | [] \<Rightarrow> False)
        | None \<Rightarrow> False)"

definition record_leaked_cgroup ::
  "string \<Rightarrow> string \<Rightarrow> leaked_cgroup_kind \<Rightarrow> u64 \<Rightarrow> service_table
   \<Rightarrow> (service_table_error, bool, service_table) outcome" where
  "record_leaked_cgroup service path kind detected_at_ns =
     with_entry service (\<lambda>entry.
       let r = en_runtime entry
       in if \<exists>leak\<in>set (rt_leaked_cgroups r). lc_path leak = path \<and> lc_kind leak = kind
          then (False, entry)
          else
            let advances = leak_affects_tree path
                  (service_cgroup_root_path service (rt_cgroup_generation r));
                r1 = r\<lparr>rt_leaked_cgroups := rt_leaked_cgroups r
                  @ [\<lparr>lc_path = path, lc_kind = kind, lc_detected_at_ns = detected_at_ns\<rparr>]\<rparr>;
                r2 = (if advances
                      then r1\<lparr>rt_cgroup_generation := sat_add (rt_cgroup_generation r1) 1\<rparr> else r1)
            in (True, entry\<lparr>en_runtime := r2\<rparr>))"

definition record_health_success ::
  "string \<Rightarrow> u64 \<Rightarrow> service_table \<Rightarrow> (service_table_error, unit, service_table) outcome" where
  "record_health_success service checked_at_ns =
     with_entry service (\<lambda>entry.
       ((), on_runtime (\<lambda>r. r\<lparr>rt_health := record_success checked_at_ns (rt_health r)\<rparr>) entry))"

definition record_health_failure ::
  "string \<Rightarrow> u64 \<Rightarrow> service_table \<Rightarrow> (service_table_error, u32, service_table) outcome" where
  "record_health_failure service checked_at_ns =
     with_entry service (\<lambda>entry.
       let (failures, health) = record_failure checked_at_ns (rt_health (en_runtime entry))
       in (failures, on_runtime (\<lambda>r. r\<lparr>rt_health := health\<rparr>) entry))"

definition update_status_text ::
  "string \<Rightarrow> string \<Rightarrow> service_table \<Rightarrow> (service_table_error, unit, service_table) outcome" where
  "update_status_text service status_text =
     with_entry service (\<lambda>entry.
       ((), on_runtime (\<lambda>r. r\<lparr>rt_status_text := Some status_text\<rparr>) entry))"

definition update_progress ::
  "string \<Rightarrow> job_progress \<Rightarrow> service_table \<Rightarrow> (service_table_error, unit, service_table) outcome"
where
  "update_progress service progress =
     with_entry service (\<lambda>entry.
       ((), on_runtime (\<lambda>r. r\<lparr>rt_progress := Some progress\<rparr>) entry))"

definition update_progress_unit ::
  "string \<Rightarrow> job_progress_unit \<Rightarrow> service_table
   \<Rightarrow> (service_table_error, unit, service_table) outcome" where
  "update_progress_unit service unit' =
     with_entry service (\<lambda>entry.
       ((), on_runtime (\<lambda>r. r\<lparr>rt_progress_unit := Some unit'\<rparr>) entry))"

record service_progress_report =
  pr_progress :: "job_progress option"
  pr_unit :: "job_progress_unit option"

definition PROGRESS_EVENT_INTERVAL_NS :: u64 where
  "PROGRESS_EVENT_INTERVAL_NS = 1000000000"

definition take_progress_event ::
  "string \<Rightarrow> u64 \<Rightarrow> service_table
   \<Rightarrow> (service_table_error, service_progress_report option, service_table) outcome" where
  "take_progress_event service observed_at_ns =
     with_entry service (\<lambda>entry.
       let r = en_runtime entry;
           due = (case rt_last_progress_event_ns r of
                    None \<Rightarrow> True
                  | Some last_ns \<Rightarrow> sat_sub observed_at_ns last_ns \<ge> PROGRESS_EVENT_INTERVAL_NS)
       in if \<not> due then (None, entry)
          else
            (Some \<lparr>pr_progress = rt_progress r, pr_unit = rt_progress_unit r\<rparr>,
             on_runtime (\<lambda>r. r\<lparr>rt_last_progress_event_ns := Some observed_at_ns\<rparr>) entry))"

definition update_levels ::
  "string \<Rightarrow> string list \<Rightarrow> service_table \<Rightarrow> (service_table_error, bool, service_table) outcome"
where
  "update_levels service levels =
     with_entry service (\<lambda>entry.
       let next_levels = fset_of_list (filter (\<lambda>level. level \<noteq> []) levels)
       in (rt_levels (en_runtime entry) \<noteq> next_levels,
           on_runtime (\<lambda>r. r\<lparr>rt_levels := next_levels\<rparr>) entry))"

definition clear_level ::
  "string \<Rightarrow> service_table \<Rightarrow> (service_table_error, bool, service_table) outcome" where
  "clear_level service =
     with_entry service (\<lambda>entry.
       (rt_levels (en_runtime entry) \<noteq> {||}, on_runtime (\<lambda>r. r\<lparr>rt_levels := {||}\<rparr>) entry))"

definition acknowledge_stopping ::
  "string \<Rightarrow> service_table \<Rightarrow> (service_table_error, unit, service_table) outcome" where
  "acknowledge_stopping service =
     with_entry service (\<lambda>entry.
       ((), on_runtime (\<lambda>r. r\<lparr>rt_stopping_acknowledged := True\<rparr>) entry))"

definition record_stopping_timeout ::
  "string \<Rightarrow> service_stopping_timeout_evidence \<Rightarrow> service_table
   \<Rightarrow> (service_table_error, unit, service_table) outcome" where
  "record_stopping_timeout service evidence =
     with_entry service (\<lambda>entry.
       ((), on_runtime (\<lambda>r. r\<lparr>rt_stopping_timeout := Some evidence\<rparr>) entry))"

definition set_pending_timer ::
  "string \<Rightarrow> service_table \<Rightarrow> (service_table_error, bool, service_table) outcome" where
  "set_pending_timer service =
     with_entry service (\<lambda>entry.
       (\<not> rt_pending_timer (en_runtime entry),
        on_runtime (\<lambda>r. r\<lparr>rt_pending_timer := True\<rparr>) entry))"

definition clear_pending_timer ::
  "string \<Rightarrow> service_table \<Rightarrow> (service_table_error, bool, service_table) outcome" where
  "clear_pending_timer service =
     with_entry service (\<lambda>entry.
       (rt_pending_timer (en_runtime entry),
        on_runtime (\<lambda>r. r\<lparr>rt_pending_timer := False\<rparr>) entry))"

section \<open>Transitions\<close>

definition prepare_activation_snapshot ::
  "service_table \<Rightarrow> string \<Rightarrow> service_table_error + service_activation_snapshot" where
  "prepare_activation_snapshot t service =
     and_then (require_entry t service) (\<lambda>entry.
       if en_definition_removed entry then Inl (DefinitionRemoved service)
       else Inr \<lparr>as_service = service,
                 as_activation_generation = rt_generation (en_runtime entry) + 1,
                 as_cgroup_generation = rt_cgroup_generation (en_runtime entry),
                 as_definition = en_definition entry\<rparr>)"

definition update_restart_metadata_after_transition ::
  "service_transition_event \<Rightarrow> service_runtime_snapshot \<Rightarrow> service_runtime_snapshot" where
  "update_restart_metadata_after_transition event r =
     (let r1 = (if te_to event \<noteq> Backoff then r\<lparr>rt_restart_backoff_until_ns := None\<rparr> else r)
      in if te_to event = Inactive \<and> te_cause event \<in> {CleanExit, ExplicitReset}
         then r1\<lparr>rt_consecutive_restart_failures := 0\<rparr> else r1)"

definition discard_drained_definition_removed ::
  "string \<Rightarrow> service_table \<Rightarrow> bool \<times> service_table" where
  "discard_drained_definition_removed service t =
     (let should_discard =
        (case bt_get t service of
           None \<Rightarrow> False
         | Some entry \<Rightarrow>
             en_definition_removed entry
             \<and> \<not> retains_definition_after_removal (rt_state (en_runtime entry)))
      in (should_discard, if should_discard then bt_remove service t else t))"

definition apply_pending_definition_if_drained :: "string \<Rightarrow> service_table \<Rightarrow> service_table" where
  "apply_pending_definition_if_drained service t =
     (case bt_get t service of
        None \<Rightarrow> t
      | Some entry \<Rightarrow>
          if en_definition_removed entry
             \<or> retains_definition_after_removal (rt_state (en_runtime entry)) then t
          else (case en_pending_definition entry of
                  None \<Rightarrow> t
                | Some pending_definition \<Rightarrow>
                    bt_insert service
                      (entry\<lparr>en_pending_definition := None, en_definition := pending_definition\<rparr>) t))"

definition transition_service ::
  "string \<Rightarrow> service_transition \<Rightarrow> service_table
   \<Rightarrow> (service_table_error, service_table_transition, service_table) outcome" where
  "transition_service service tr t =
     (case bt_get t service of
        None \<Rightarrow> (Inl (UnknownService service), t)
      | Some entry \<Rightarrow>
          (case transition tr (en_runtime entry) of
             (Inl e, r) \<Rightarrow> (Inl (TransitionError e), bt_insert service (entry\<lparr>en_runtime := r\<rparr>) t)
           | (Inr event, r) \<Rightarrow>
               let r' = update_restart_metadata_after_transition event r;
                   released_tty = (if holds_tty (te_from event) \<and> \<not> holds_tty (te_to event)
                                   then sd_console_path (en_definition entry) else None);
                   t1 = bt_insert service (entry\<lparr>en_runtime := r'\<rparr>) t;
                   t2 = apply_pending_definition_if_drained service t1;
                   (discarded, t3) = discard_drained_definition_removed service t2
               in (Inr \<lparr>tt_event = event, tt_discarded_definition_removed = discarded,
                        tt_released_tty = released_tty\<rparr>, t3)))"

definition table_mark_dependent_satisfied_since ::
  "string \<Rightarrow> u64 \<Rightarrow> service_table \<Rightarrow> (service_table_error, unit, service_table) outcome" where
  "table_mark_dependent_satisfied_since service satisfied_at_ns =
     with_entry service (\<lambda>entry.
       ((), on_runtime (mark_dependent_satisfied_since satisfied_at_ns) entry))"

definition release_completed_oneshot_if_not_retained ::
  "string \<Rightarrow> service_table
   \<Rightarrow> (service_table_error, service_table_transition option, service_table) outcome" where
  "release_completed_oneshot_if_not_retained service t =
     (case require_entry t service of
        Inl e \<Rightarrow> (Inl e, t)
      | Inr entry \<Rightarrow>
          let should_release = sd_service_type (en_definition entry) = Oneshot
                \<and> \<not> sd_remain_after_exit (en_definition entry)
                \<and> rt_state (en_runtime entry) = Completed
          in if \<not> should_release then (Inr None, t)
             else (case transition_service service \<lparr>tr_to = Inactive, tr_cause = CleanExit\<rparr> t of
                     (Inl e, t') \<Rightarrow> (Inl e, t')
                   | (Inr x, t') \<Rightarrow> (Inr (Some x), t')))"

section \<open>Restart deadlines\<close>

definition NANOS_PER_SEC :: u64 where
  "NANOS_PER_SEC = 1000000000"

definition transition_service_to_restart_backoff ::
  "string \<Rightarrow> transition_cause \<Rightarrow> u64 \<Rightarrow> service_table
   \<Rightarrow> (service_table_error, service_table_transition, service_table) outcome" where
  "transition_service_to_restart_backoff service c backoff_until_ns t =
     (case transition_service service \<lparr>tr_to = Backoff, tr_cause = c\<rparr> t of
        (Inl e, t') \<Rightarrow> (Inl e, t')
      | (Inr tt, t') \<Rightarrow>
          with_entry service (\<lambda>entry.
            (tt,
             on_runtime (\<lambda>r.
               r\<lparr>rt_consecutive_restart_failures :=
                   (if c = CleanExitRestart \<and> sd_console_path (en_definition entry) \<noteq> None then 0
                    else sat_add (rt_consecutive_restart_failures r) 1),
                 rt_restart_backoff_until_ns := Some backoff_until_ns\<rparr>) entry)) t')"

definition consume_restart_backoff ::
  "string \<Rightarrow> service_table \<Rightarrow> (service_table_error, unit, service_table) outcome" where
  "consume_restart_backoff service =
     with_entry service (\<lambda>entry.
       ((), on_runtime (\<lambda>r. r\<lparr>rt_restart_backoff_until_ns := None\<rparr>) entry))"

definition restart_backoff_deadline_of ::
  "string \<times> service_entry \<Rightarrow> restart_backoff_deadline option" where
  "restart_backoff_deadline_of e =
     (if en_definition_removed (snd e) \<or> rt_state (en_runtime (snd e)) \<noteq> Backoff then None
      else map_option (\<lambda>due. \<lparr>bd_service = fst e, bd_due_at_ns = due\<rparr>)
             (rt_restart_backoff_until_ns (en_runtime (snd e))))"

definition restart_backoff_deadlines :: "service_table \<Rightarrow> restart_backoff_deadline list" where
  "restart_backoff_deadlines t = List.map_filter restart_backoff_deadline_of (bt_entries t)"

definition due_restart_backoffs :: "service_table \<Rightarrow> u64 \<Rightarrow> restart_backoff_deadline list" where
  "due_restart_backoffs t now_ns =
     filter (\<lambda>deadline. bd_due_at_ns deadline \<le> now_ns) (restart_backoff_deadlines t)"

definition next_restart_backoff_deadline :: "service_table \<Rightarrow> restart_backoff_deadline option" where
  "next_restart_backoff_deadline t =
     min_by_key (\<lambda>deadline. (bd_due_at_ns deadline, bd_service deadline))
       (restart_backoff_deadlines t)"

definition restart_window_reset_deadline_of ::
  "string \<times> service_entry \<Rightarrow> restart_window_reset_deadline option" where
  "restart_window_reset_deadline_of e =
     (let r = en_runtime (snd e)
      in if en_definition_removed (snd e) \<or> rt_state r \<noteq> Active
            \<or> \<not> rt_consecutive_restart_failures r > 0 then None
         else map_option
                (\<lambda>since. \<lparr>wd_service = fst e,
                   wd_due_at_ns = sat_add since
                     (sat_mul (sd_restart_window_secs (en_definition (snd e))) NANOS_PER_SEC)\<rparr>)
                (rt_dependent_satisfied_since_ns r))"

definition restart_window_reset_deadlines ::
  "service_table \<Rightarrow> restart_window_reset_deadline list" where
  "restart_window_reset_deadlines t =
     List.map_filter restart_window_reset_deadline_of (bt_entries t)"

definition due_restart_window_resets ::
  "service_table \<Rightarrow> u64 \<Rightarrow> restart_window_reset_deadline list" where
  "due_restart_window_resets t now_ns =
     filter (\<lambda>deadline. wd_due_at_ns deadline \<le> now_ns) (restart_window_reset_deadlines t)"

definition next_restart_window_reset_deadline_ns :: "service_table \<Rightarrow> u64 option" where
  "next_restart_window_reset_deadline_ns t =
     min_by_key (\<lambda>due. due) (map wd_due_at_ns (restart_window_reset_deadlines t))"

definition reset_restart_failures_after_window ::
  "string \<Rightarrow> service_table \<Rightarrow> (service_table_error, unit, service_table) outcome" where
  "reset_restart_failures_after_window service =
     with_entry service (\<lambda>entry.
       ((), on_runtime (\<lambda>r. r\<lparr>rt_consecutive_restart_failures := 0\<rparr>) entry))"

section \<open>The invariant of an entry\<close>

text \<open>
  What every entry satisfies under its key: the names agree, a backoff deadline stands only in
  \<open>Backoff\<close>, a satisfied-since stamp only in a state that satisfies dependents, and an entry whose
  definition was withdrawn is either still to be drained or the failed placeholder of an
  undecodable key.
\<close>

definition entry_wf :: "string \<Rightarrow> service_entry \<Rightarrow> bool" where
  "entry_wf name e \<longleftrightarrow>
     sd_name (en_definition e) = name
     \<and> (\<forall>p. en_pending_definition e = Some p \<longrightarrow> sd_name p = name)
     \<and> rt_service (en_runtime e) = name
     \<and> (rt_restart_backoff_until_ns (en_runtime e) \<noteq> None \<longrightarrow> rt_state (en_runtime e) = Backoff)
     \<and> (rt_dependent_satisfied_since_ns (en_runtime e) \<noteq> None
         \<longrightarrow> satisfies_dependents (rt_state (en_runtime e)))
     \<and> (en_definition_removed e
         \<longrightarrow> retains_definition_after_removal (rt_state (en_runtime e))
           \<or> rt_state (en_runtime e) = Failed)"

definition table_wf :: "service_table \<Rightarrow> bool" where
  "table_wf t \<longleftrightarrow> (\<forall>name e. bt_get t name = Some e \<longrightarrow> entry_wf name e)"

text \<open>What the lifecycle of a service rests on, and no bookkeeping operation may touch.\<close>

definition lifecycle ::
  "service_entry \<Rightarrow> service_definition \<times> service_definition option \<times> bool \<times> service_state
   \<times> transition_cause option \<times> u64" where
  "lifecycle e =
     (en_definition e, en_pending_definition e, en_definition_removed e,
      rt_state (en_runtime e), rt_cause (en_runtime e), rt_generation (en_runtime e))"

lemma table_wfD: "table_wf t \<Longrightarrow> bt_get t name = Some e \<Longrightarrow> entry_wf name e"
  by (simp add: table_wf_def)

lemma table_wf_empty [simp]: "table_wf bt_empty"
  by (simp add: table_wf_def)

lemma table_wf_insert: "table_wf t \<Longrightarrow> entry_wf name e \<Longrightarrow> table_wf (bt_insert name e t)"
  by (simp add: table_wf_def)

lemma table_wf_remove: "table_wf t \<Longrightarrow> table_wf (bt_remove name t)"
  by (simp add: table_wf_def)

lemma entry_wf_new: "sd_name d = name \<Longrightarrow> entry_wf name (new_entry d name)"
  by (simp add: entry_wf_def new_entry_def runtime_inactive_def)

locale entry_operation =
  fixes run :: "service_table \<Rightarrow> (service_table_error, 'a, service_table) outcome"
    and service :: string
  assumes unknown: "bt_get t service = None \<Longrightarrow> run t = (Inl (UnknownService service), t)"
    and known: "bt_get t service = Some e \<Longrightarrow>
      \<exists>a e'. run t = (Inr a, bt_insert service e' t) \<and> lifecycle e' = lifecycle e
        \<and> (entry_wf service e \<longrightarrow> entry_wf service e')"
begin

lemma knownE:
  assumes "bt_get t service = Some e"
  obtains a e' where "run t = (Inr a, bt_insert service e' t)" "lifecycle e' = lifecycle e"
    "entry_wf service e \<longrightarrow> entry_wf service e'"
  using known [OF assms] by blast

lemma keeps_others: "name \<noteq> service \<Longrightarrow> bt_get (snd (run t)) name = bt_get t name"
  by (cases "bt_get t service") (auto simp: unknown elim: knownE)

lemma keeps_table_wf: "table_wf t \<Longrightarrow> table_wf (snd (run t))"
proof (cases "bt_get t service")
  case (Some e)
  assume wf: "table_wf t"
  from Some obtain a e' where run: "run t = (Inr a, bt_insert service e' t)"
    and e': "entry_wf service e \<longrightarrow> entry_wf service e'"
    by (rule knownE)
  have "entry_wf service e'"
    using e' table_wfD [OF wf Some] by simp
  then show ?thesis
    using wf by (simp add: run table_wf_insert)
qed (simp add: unknown)

lemma keeps_lifecycle:
  "map_option lifecycle (bt_get (snd (run t)) name) = map_option lifecycle (bt_get t name)"
proof (cases "bt_get t service")
  case (Some e)
  then obtain a e' where "run t = (Inr a, bt_insert service e' t)" "lifecycle e' = lifecycle e"
    by (rule knownE)
  with Some show ?thesis by simp
qed (simp add: unknown)

end

lemma with_entryI:
  assumes "run = with_entry service update"
    and "\<And>e. lifecycle (snd (update e)) = lifecycle e"
    and "\<And>e. entry_wf service e \<Longrightarrow> entry_wf service (snd (update e))"
  shows "entry_operation run service"
proof
  fix t :: service_table and e
  assume get: "bt_get t service = Some e"
  have "run t = (Inr (fst (update e)), bt_insert service (snd (update e)) t)"
    by (simp add: assms(1) with_entry_def get split: prod.split)
  then show "\<exists>a e'. run t = (Inr a, bt_insert service e' t) \<and> lifecycle e' = lifecycle e
      \<and> (entry_wf service e \<longrightarrow> entry_wf service e')"
    using assms(2,3) by blast
qed (simp add: assms(1) with_entry_def)

lemmas entry_operation_simps =
  entry_wf_def lifecycle_def on_runtime_def Let_def record_failure_def
  mark_dependent_satisfied_since_def

interpretation leak_op: entry_operation "record_leaked_cgroup service path kind at" service for service path kind at
  by (rule with_entryI [OF record_leaked_cgroup_def]) (auto simp: entry_operation_simps)

interpretation health_success_op: entry_operation "record_health_success service at" service for service at
  by (rule with_entryI [OF record_health_success_def]) (auto simp: entry_operation_simps)

interpretation health_failure_op: entry_operation "record_health_failure service at" service for service at
  by (rule with_entryI [OF record_health_failure_def]) (auto simp: entry_operation_simps)

interpretation status_text_op: entry_operation "update_status_text service status" service for service status
  by (rule with_entryI [OF update_status_text_def]) (auto simp: entry_operation_simps)

interpretation progress_op: entry_operation "update_progress service progress" service for service progress
  by (rule with_entryI [OF update_progress_def]) (auto simp: entry_operation_simps)

interpretation progress_unit_op: entry_operation "update_progress_unit service unit'" service for service unit'
  by (rule with_entryI [OF update_progress_unit_def]) (auto simp: entry_operation_simps)

interpretation progress_event_op: entry_operation "take_progress_event service at" service for service at
  by (rule with_entryI [OF take_progress_event_def]) (auto simp: entry_operation_simps)

interpretation levels_op: entry_operation "update_levels service levels" service for service levels
  by (rule with_entryI [OF update_levels_def]) (auto simp: entry_operation_simps)

interpretation clear_level_op: entry_operation "clear_level service" service for service
  by (rule with_entryI [OF clear_level_def]) (auto simp: entry_operation_simps)

interpretation stopping_op: entry_operation "acknowledge_stopping service" service for service
  by (rule with_entryI [OF acknowledge_stopping_def]) (auto simp: entry_operation_simps)

interpretation stopping_timeout_op: entry_operation "record_stopping_timeout service evidence" service for service evidence
  by (rule with_entryI [OF record_stopping_timeout_def]) (auto simp: entry_operation_simps)

interpretation set_timer_op: entry_operation "set_pending_timer service" service for service
  by (rule with_entryI [OF set_pending_timer_def]) (auto simp: entry_operation_simps)

interpretation clear_timer_op: entry_operation "clear_pending_timer service" service for service
  by (rule with_entryI [OF clear_pending_timer_def]) (auto simp: entry_operation_simps)

interpretation satisfied_op: entry_operation "table_mark_dependent_satisfied_since service at" service for service at
  by (rule with_entryI [OF table_mark_dependent_satisfied_since_def]) (auto simp: entry_operation_simps)

interpretation consume_op: entry_operation "consume_restart_backoff service" service for service
  by (rule with_entryI [OF consume_restart_backoff_def]) (auto simp: entry_operation_simps)

interpretation window_op: entry_operation "reset_restart_failures_after_window service" service for service
  by (rule with_entryI [OF reset_restart_failures_after_window_def]) (auto simp: entry_operation_simps)

section \<open>Transitions of an entry\<close>

text \<open>The entry a transition leaves when it is not discarded: drained, it takes its pending definition.\<close>

definition settled_entry :: "service_entry \<Rightarrow> service_runtime_snapshot \<Rightarrow> service_entry" where
  "settled_entry entry r =
     (case (if en_definition_removed entry \<or> retains_definition_after_removal (rt_state r) then None
            else en_pending_definition entry) of
        None \<Rightarrow> entry\<lparr>en_runtime := r\<rparr>
      | Some p \<Rightarrow> entry\<lparr>en_runtime := r, en_pending_definition := None, en_definition := p\<rparr>)"

lemma transition_service_Inl:
  "transition_service service tr t = (Inl e, t') \<Longrightarrow> t' = t"
  by (auto simp: transition_service_def bt_insert_same Let_def split: option.splits prod.splits sum.splits
      dest!: transition_Inl)

lemma update_restart_metadata_fields [simp]:
  "rt_state (update_restart_metadata_after_transition event r) = rt_state r"
  "rt_service (update_restart_metadata_after_transition event r) = rt_service r"
  "rt_generation (update_restart_metadata_after_transition event r) = rt_generation r"
  "rt_levels (update_restart_metadata_after_transition event r) = rt_levels r"
  "rt_dependent_satisfied_since_ns (update_restart_metadata_after_transition event r)
     = rt_dependent_satisfied_since_ns r"
  "rt_restart_backoff_until_ns (update_restart_metadata_after_transition event r)
     = (if te_to event \<noteq> Backoff then None else rt_restart_backoff_until_ns r)"
  by (simp_all add: update_restart_metadata_after_transition_def Let_def)

lemma restart_metadata_counter [simp]:
  "te_to event = Backoff \<Longrightarrow>
   rt_consecutive_restart_failures (update_restart_metadata_after_transition event r)
   = rt_consecutive_restart_failures r"
  by (simp add: update_restart_metadata_after_transition_def)

lemma transition_service_Inr:
  assumes "transition_service service tr t = (Inr x, t')"
  obtains entry r where "bt_get t service = Some entry"
    "transition tr (en_runtime entry) = (Inr (tt_event x), r)"
    "tt_discarded_definition_removed x \<longleftrightarrow>
       en_definition_removed entry \<and> \<not> retains_definition_after_removal (tr_to tr)"
    "tt_released_tty x = (if holds_tty (rt_state (en_runtime entry)) \<and> \<not> holds_tty (tr_to tr)
       then sd_console_path (en_definition entry) else None)"
    "t' = (if tt_discarded_definition_removed x then bt_remove service t
       else bt_insert service
         (settled_entry entry (update_restart_metadata_after_transition (tt_event x) r)) t)"
proof -
  from assms obtain entry event r where get: "bt_get t service = Some entry"
    and tr: "transition tr (en_runtime entry) = (Inr event, r)"
    by (auto simp: transition_service_def split: option.splits prod.splits sum.splits)
  have state: "rt_state r = tr_to tr" "te_from event = rt_state (en_runtime entry)" "te_to event = tr_to tr"
    using transition_fields [OF tr] by simp_all
  let ?r = "update_restart_metadata_after_transition event r"
  let ?s = "settled_entry entry ?r"
  let ?d = "en_definition_removed entry \<and> \<not> retains_definition_after_removal (tr_to tr)"
  have same: "en_definition_removed ?s = en_definition_removed entry" "en_runtime ?s = ?r"
    by (simp_all add: settled_entry_def split: option.split)
  have t2: "apply_pending_definition_if_drained service (bt_insert service (entry\<lparr>en_runtime := ?r\<rparr>) t)
      = bt_insert service ?s t"
    by (simp add: apply_pending_definition_if_drained_def settled_entry_def bt_insert_insert state
        split: option.split)
  have t3: "discard_drained_definition_removed service (bt_insert service ?s t)
      = (?d, if ?d then bt_remove service t else bt_insert service ?s t)"
    by (simp add: discard_drained_definition_removed_def Let_def same state bt_remove_insert)
  have "transition_service service tr t
      = (Inr \<lparr>tt_event = event, tt_discarded_definition_removed = ?d,
              tt_released_tty = (if holds_tty (rt_state (en_runtime entry)) \<and> \<not> holds_tty (tr_to tr)
                then sd_console_path (en_definition entry) else None)\<rparr>,
         if ?d then bt_remove service t else bt_insert service ?s t)"
    by (simp add: transition_service_def get tr Let_def t2 t3 state)
  with assms have "tt_event x = event \<and> (tt_discarded_definition_removed x \<longleftrightarrow> ?d) \<and>
    tt_released_tty x = (if holds_tty (rt_state (en_runtime entry)) \<and> \<not> holds_tty (tr_to tr)
       then sd_console_path (en_definition entry) else None) \<and>
    t' = (if tt_discarded_definition_removed x then bt_remove service t
       else bt_insert service ?s t)"
    by auto
  then show thesis
    using that get tr by blast
qed

lemma transition_service_accepted:
  assumes "bt_get t service = Some entry"
    and "is_allowed_transition (rt_state (en_runtime entry)) (tr_to tr) (tr_cause tr)"
  shows "\<exists>x t'. transition_service service tr t = (Inr x, t')"
proof -
  obtain e r where "transition tr (en_runtime entry) = (Inr e, r)"
    using assms(2) transition_Inr_iff [of tr "en_runtime entry"] by (metis prod.collapse)
  then show ?thesis
    using assms(1) by (simp add: transition_service_def Let_def split: prod.split)
qed

lemma settled_entry_wf:
  assumes "entry_wf name entry" "transition tr (en_runtime entry) = (Inr event, r)"
    and "\<not> (en_definition_removed entry \<and> \<not> retains_definition_after_removal (tr_to tr))"
  shows "entry_wf name (settled_entry entry (update_restart_metadata_after_transition event r))"
  using assms(1,3) transition_fields [OF assms(2)]
  by (auto simp: entry_wf_def settled_entry_def split: option.splits)

lemma transition_service_others:
  "name \<noteq> service \<Longrightarrow> bt_get (snd (transition_service service tr t)) name = bt_get t name"
proof (cases "transition_service service tr t")
  case (Pair res t')
  assume "name \<noteq> service"
  then show ?thesis
    using Pair
    by (cases res) (auto dest!: transition_service_Inl elim!: transition_service_Inr)
qed

lemma transition_service_wf:
  assumes "table_wf t"
  shows "table_wf (snd (transition_service service tr t))"
proof (cases "transition_service service tr t")
  case (Pair res t')
  show ?thesis
  proof (cases res)
    case (Inl e)
    then show ?thesis using Pair assms transition_service_Inl by fastforce
  next
    case (Inr x)
    with Pair have "transition_service service tr t = (Inr x, t')" by simp
    then show ?thesis
    proof (rule transition_service_Inr)
      fix entry r
      assume *: "bt_get t service = Some entry" "transition tr (en_runtime entry) = (Inr (tt_event x), r)"
        "tt_discarded_definition_removed x \<longleftrightarrow>
           en_definition_removed entry \<and> \<not> retains_definition_after_removal (tr_to tr)"
        "t' = (if tt_discarded_definition_removed x then bt_remove service t
           else bt_insert service
             (settled_entry entry (update_restart_metadata_after_transition (tt_event x) r)) t)"
      show ?thesis
        using * settled_entry_wf [OF table_wfD [OF assms *(1)] *(2)] assms Pair
        by (simp add: table_wf_remove table_wf_insert)
    qed
  qed
qed

lemma release_completed_wf:
  "table_wf t \<Longrightarrow> table_wf (snd (release_completed_oneshot_if_not_retained service t))"
  using transition_service_wf [of t service "\<lparr>tr_to = Inactive, tr_cause = CleanExit\<rparr>"]
  by (auto simp: release_completed_oneshot_if_not_retained_def Let_def split: sum.splits prod.splits)

lemma transition_backoff_wf:
  assumes "table_wf t"
  shows "table_wf (snd (transition_service_to_restart_backoff service c until t))"
proof (cases "transition_service service \<lparr>tr_to = Backoff, tr_cause = c\<rparr> t")
  case (Pair res t')
  have wf: "table_wf t'"
    using transition_service_wf [OF assms, of service "\<lparr>tr_to = Backoff, tr_cause = c\<rparr>"] Pair by simp
  show ?thesis
  proof (cases "\<exists>x entry. res = Inr x \<and> bt_get t' service = Some entry")
    case False
    then show ?thesis
      using wf Pair
      by (auto simp: transition_service_to_restart_backoff_def with_entry_def split: sum.splits option.splits)
  next
    case True
    then obtain x entry where x: "res = Inr x" and get: "bt_get t' service = Some entry" by blast
    have "transition_service service \<lparr>tr_to = Backoff, tr_cause = c\<rparr> t = (Inr x, t')"
      using Pair x by simp
    then obtain e r where t': "transition \<lparr>tr_to = Backoff, tr_cause = c\<rparr> (en_runtime e) = (Inr (tt_event x), r)"
      "t' = (if tt_discarded_definition_removed x then bt_remove service t
       else bt_insert service
         (settled_entry e (update_restart_metadata_after_transition (tt_event x) r)) t)"
      by (rule transition_service_Inr) auto
    then have "rt_state (en_runtime entry) = Backoff"
      using get transition_fields(2) [OF t'(1)] by (auto simp: settled_entry_def split: if_splits option.splits)
    then have "entry_wf service (on_runtime (\<lambda>r. r\<lparr>rt_consecutive_restart_failures := n,
        rt_restart_backoff_until_ns := Some until\<rparr>) entry)" for n
      using table_wfD [OF wf get] by (simp add: entry_wf_def on_runtime_def)
    then show ?thesis
      using wf get
      by (simp add: transition_service_to_restart_backoff_def with_entry_def Pair x table_wf_insert on_runtime_def)
  qed
qed

lemma insert_placeholder_wf:
  assumes "table_wf t"
  shows "table_wf (snd (insert_undecodable_placeholder service c message t))"
proof (cases "transition \<lparr>tr_to = Failed, tr_cause = c\<rparr> (runtime_inactive service)")
  case (Pair res r)
  show ?thesis
  proof (cases res)
    case (Inr e)
    note f = transition_fields [OF Pair [unfolded Inr]]
    have "entry_wf service
      \<lparr>en_definition = undecodable_placeholder service message,
       en_pending_definition = None, en_runtime = r, en_definition_removed = True\<rparr>"
      using f by (simp add: entry_wf_def undecodable_placeholder_def simple_system_boot_def runtime_inactive_def)
    then show ?thesis
      using Pair Inr assms by (simp add: insert_undecodable_placeholder_def table_wf_insert)
  qed (use Pair assms in \<open>simp add: insert_undecodable_placeholder_def\<close>)
qed

section \<open>Deadlines\<close>

lemma restart_backoff_deadline_of_Some:
  "restart_backoff_deadline_of (name, e) = Some d \<longleftrightarrow>
     bd_service d = name \<and> \<not> en_definition_removed e \<and> rt_state (en_runtime e) = Backoff
     \<and> rt_restart_backoff_until_ns (en_runtime e) = Some (bd_due_at_ns d)"
  by (cases d) (auto simp: restart_backoff_deadline_of_def)

lemma set_restart_backoff_deadlines:
  "d \<in> set (restart_backoff_deadlines t) \<longleftrightarrow>
     (\<exists>e. bt_get t (bd_service d) = Some e \<and> \<not> en_definition_removed e
        \<and> rt_state (en_runtime e) = Backoff
        \<and> rt_restart_backoff_until_ns (en_runtime e) = Some (bd_due_at_ns d))"
proof -
  have "d \<in> set (restart_backoff_deadlines t) \<longleftrightarrow>
      (\<exists>name e. bt_get t name = Some e \<and> restart_backoff_deadline_of (name, e) = Some d)"
    by (force simp: restart_backoff_deadlines_def map_filter_def bt_get_entries_iff)
  then show ?thesis
    unfolding restart_backoff_deadline_of_Some by blast
qed

lemma next_deadline_Some:
  assumes "next_restart_backoff_deadline t = Some d"
  shows "d \<in> set (restart_backoff_deadlines t)"
    and "d' \<in> set (restart_backoff_deadlines t) \<Longrightarrow> bd_due_at_ns d \<le> bd_due_at_ns d'"
  using min_by_key_Some [OF assms [unfolded next_restart_backoff_deadline_def]]
  by (auto simp: less_eq_prod_def)

lemma transition_backoff_Inr:
  assumes "transition_service_to_restart_backoff service c until t = (Inr x, t')"
  shows "\<exists>e. bt_get t' service = Some e \<and> \<not> en_definition_removed e
    \<and> rt_state (en_runtime e) = Backoff \<and> rt_restart_backoff_until_ns (en_runtime e) = Some until"
proof -
  from assms obtain t1 entry where t1: "transition_service service \<lparr>tr_to = Backoff, tr_cause = c\<rparr> t = (Inr x, t1)"
    and get: "bt_get t1 service = Some entry"
    and t': "\<exists>n. t' = bt_insert service (on_runtime (\<lambda>r. r\<lparr>rt_consecutive_restart_failures := n,
        rt_restart_backoff_until_ns := Some until\<rparr>) entry) t1"
    by (auto simp: transition_service_to_restart_backoff_def with_entry_def on_runtime_def
        split: prod.splits sum.splits option.splits)
  from t1 obtain e r where tr: "transition \<lparr>tr_to = Backoff, tr_cause = c\<rparr> (en_runtime e) = (Inr (tt_event x), r)"
    and disc: "tt_discarded_definition_removed x \<longleftrightarrow>
       en_definition_removed e \<and> \<not> retains_definition_after_removal Backoff"
    and t1_eq: "t1 = (if tt_discarded_definition_removed x then bt_remove service t
       else bt_insert service
         (settled_entry e (update_restart_metadata_after_transition (tt_event x) r)) t)"
    by (rule transition_service_Inr) auto
  have "\<not> tt_discarded_definition_removed x" using get t1_eq by auto
  then have "entry = settled_entry e (update_restart_metadata_after_transition (tt_event x) r)"
    "\<not> en_definition_removed e"
    using get t1_eq disc by (auto simp: retains_definition_after_removal_def)
  then have "\<not> en_definition_removed entry" "rt_state (en_runtime entry) = Backoff"
    using transition_fields(2) [OF tr] by (auto simp: settled_entry_def split: option.splits)
  then show ?thesis
    using t' by (auto simp: on_runtime_def)
qed

section \<open>Leaks and generations\<close>

lemma leak_affects_iff: "leak_affects_tree path root \<longleftrightarrow> path = root \<or> (\<exists>rest. path = root @ CHR ''/'' # rest)"
  by (auto simp: leak_affects_tree_def strip_prefix_Some split: option.splits list.splits)

lemma service_component_no_slash:
  "CHR ''/'' \<notin> set (encode_service_cgroup_id service @ generation_suffix g)"
  using encode_chars(1) generation_suffix_chars(1) by auto

lemma takeWhile_component: "c \<notin> set xs \<Longrightarrow> takeWhile (\<lambda>x. x \<noteq> c) (xs @ c # ys) = xs"
  "c \<notin> set xs \<Longrightarrow> takeWhile (\<lambda>x. x \<noteq> c) xs = xs"
  by (induction xs) auto

lemma leak_in_one_tree:
  assumes "leak_affects_tree path (service_cgroup_root_path service g)"
    and "leak_affects_tree path (service_cgroup_root_path service h)"
  shows "g = h"
proof -
  let ?f = "\<lambda>p. takeWhile (\<lambda>c. c \<noteq> CHR ''/'') (drop (length PEINIT_CGROUP_ROOT + 1) p)"
  have "?f path = encode_service_cgroup_id service @ generation_suffix k"
    if "leak_affects_tree path (service_cgroup_root_path service k)" for k
  proof -
    have "\<exists>rest. drop (length PEINIT_CGROUP_ROOT + 1) path
        = (encode_service_cgroup_id service @ generation_suffix k) @ rest \<and> (rest = [] \<or> hd rest = CHR ''/'')"
      using that by (auto simp: leak_affects_iff service_cgroup_root_path_def)
    then obtain rest where "drop (length PEINIT_CGROUP_ROOT + 1) path
        = (encode_service_cgroup_id service @ generation_suffix k) @ rest"
      and "rest = [] \<or> hd rest = CHR ''/''" by blast
    then show ?thesis
      using takeWhile_component [OF service_component_no_slash [of service k]]
      by (cases rest) (simp_all only: append_Nil2 list.sel(1) list.distinct simp_thms)
  qed
  from this [OF assms(1)] this [OF assms(2)] show "g = h" by simp
qed

definition leaks_behind :: "string \<Rightarrow> service_entry \<Rightarrow> bool" where
  "leaks_behind service e \<longleftrightarrow>
     (\<forall>leak\<in>set (rt_leaked_cgroups (en_runtime e)).
        \<exists>g<rt_cgroup_generation (en_runtime e).
          leak_affects_tree (lc_path leak) (service_cgroup_root_path service g))"

lemma sat_inc_above: "g \<noteq> word_max \<Longrightarrow> h \<le> g \<Longrightarrow> h < sat_add g (1 :: u64)"
proof -
  assume g: "g \<noteq> word_max" and h: "h \<le> g"
  have "unat g \<noteq> unat (word_max :: u64)" using g by (metis word_unat_eq_iff)
  then have "unat g + 1 < 2 ^ 64" using unat_bounded [of g] by simp
  then show ?thesis
    using h by (simp add: word_less_nat_alt word_le_nat_alt unat_sat_add)
qed

lemma leaks_behind_current:
  "leaks_behind service e \<Longrightarrow> leak \<in> set (rt_leaked_cgroups (en_runtime e)) \<Longrightarrow>
   \<not> leak_affects_tree (lc_path leak)
       (service_cgroup_root_path service (rt_cgroup_generation (en_runtime e)))"
  unfolding leaks_behind_def using leak_in_one_tree by blast

section \<open>Properties\<close>

text \<open>
  C16: a transition of the table. Refused, it leaves the table as it was, and only an unknown
  service or a transition the rules forbid is refused. Accepted, it changes the entry of the
  service alone: an entry whose definition was withdrawn goes the moment the service is drained,
  any other stays in the state asked for, with its pending definition taken over once drained;
  the terminal is reported released exactly when the service held it and no longer does.
\<close>

theorem transition_service_correct:
  assumes "transition_service service tr t = (res, t')"
  shows "case res of
      Inl e \<Rightarrow> t' = t \<and>
        (case bt_get t service of
           None \<Rightarrow> e = UnknownService service
         | Some entry \<Rightarrow>
             \<not> is_allowed_transition (rt_state (en_runtime entry)) (tr_to tr) (tr_cause tr))
    | Inr x \<Rightarrow> \<exists>entry. bt_get t service = Some entry \<and>
        is_allowed_transition (rt_state (en_runtime entry)) (tr_to tr) (tr_cause tr) \<and>
        te_from (tt_event x) = rt_state (en_runtime entry) \<and> te_to (tt_event x) = tr_to tr \<and>
        (\<forall>name. name \<noteq> service \<longrightarrow> bt_get t' name = bt_get t name) \<and>
        (tt_discarded_definition_removed x \<longleftrightarrow>
           en_definition_removed entry \<and> \<not> retains_definition_after_removal (tr_to tr)) \<and>
        tt_released_tty x = (if holds_tty (rt_state (en_runtime entry)) \<and> \<not> holds_tty (tr_to tr)
           then sd_console_path (en_definition entry) else None) \<and>
        (case bt_get t' service of
           None \<Rightarrow> tt_discarded_definition_removed x
         | Some entry' \<Rightarrow> \<not> tt_discarded_definition_removed x \<and>
             rt_state (en_runtime entry') = tr_to tr \<and>
             en_definition entry' =
               (if en_definition_removed entry \<or> retains_definition_after_removal (tr_to tr)
                then en_definition entry
                else case en_pending_definition entry of
                    None \<Rightarrow> en_definition entry | Some p \<Rightarrow> p))"
proof (cases res)
  case (Inl e)
  have "t' = t" using assms Inl transition_service_Inl by blast
  moreover have "case bt_get t service of
      None \<Rightarrow> e = UnknownService service
    | Some entry \<Rightarrow>
        \<not> is_allowed_transition (rt_state (en_runtime entry)) (tr_to tr) (tr_cause tr)"
    using assms Inl
    by (auto simp: transition_service_def Let_def split: option.splits prod.splits sum.splits
        dest!: transition_Inl)
  ultimately show ?thesis using Inl by simp
next
  case (Inr x)
  with assms have "transition_service service tr t = (Inr x, t')" by simp
  then obtain entry r where e: "bt_get t service = Some entry"
      "transition tr (en_runtime entry) = (Inr (tt_event x), r)"
      "tt_discarded_definition_removed x \<longleftrightarrow>
         en_definition_removed entry \<and> \<not> retains_definition_after_removal (tr_to tr)"
      "tt_released_tty x = (if holds_tty (rt_state (en_runtime entry)) \<and> \<not> holds_tty (tr_to tr)
         then sd_console_path (en_definition entry) else None)"
    and t': "t' = (if tt_discarded_definition_removed x then bt_remove service t
         else bt_insert service
           (settled_entry entry (update_restart_metadata_after_transition (tt_event x) r)) t)"
    by (rule transition_service_Inr)
  note f = transition_fields [OF e(2)]
  have "te_from (tt_event x) = rt_state (en_runtime entry)" "te_to (tt_event x) = tr_to tr"
    using f(17) by simp_all
  moreover have "rt_state (en_runtime (settled_entry entry r')) = rt_state r'"
    "en_definition (settled_entry entry r') =
       (if en_definition_removed entry \<or> retains_definition_after_removal (rt_state r')
        then en_definition entry
        else case en_pending_definition entry of None \<Rightarrow> en_definition entry | Some p \<Rightarrow> p)" for r'
    by (simp_all add: settled_entry_def split: option.split)
  ultimately show ?thesis
    using e f(1,2) t' by (simp add: Inr)
qed

theorem transition_service_correct_witness:
  "\<exists>t x t'. transition_service ''a'' \<lparr>tr_to = Starting, tr_cause = ExplicitStart\<rparr> t = (Inr x, t')
     \<and> te_to (tt_event x) = Starting \<and> bt_get t' ''a'' \<noteq> None \<and> bt_get t' ''b'' = bt_get t ''b''"
proof -
  let ?t = "bt_insert ''a'' (new_entry (simple_system_boot ''a'' ''/a'') ''a'') bt_empty"
  let ?r = "transition_service ''a'' \<lparr>tr_to = Starting, tr_cause = ExplicitStart\<rparr> ?t"
  have ok: "is_ok (fst ?r)" by code_simp
  then obtain x where x: "?r = (Inr x, snd ?r)" by (metis is_okE prod.collapse)
  have "te_to (tt_event x) = Starting" "bt_get (snd ?r) ''b'' = bt_get ?t ''b''"
    "\<not> tt_discarded_definition_removed x" "bt_get (snd ?r) ''a'' = None \<Longrightarrow> tt_discarded_definition_removed x"
    using transition_service_correct [OF x]
    by (auto simp: retains_definition_after_removal_def split: option.splits)
  then show ?thesis using x by blast
qed

text \<open>
  C19: a service put into restart backoff is not forgotten: it is due from its deadline on, the
  next deadline the supervisor sleeps for is not later, and nothing is due before that.
\<close>

theorem restart_backoff_is_scheduled:
  assumes "transition_service_to_restart_backoff service c until t = (Inr x, t')"
  shows "\<lparr>bd_service = service, bd_due_at_ns = until\<rparr> \<in> set (due_restart_backoffs t' until) \<and>
    (\<exists>d. next_restart_backoff_deadline t' = Some d \<and> bd_due_at_ns d \<le> until
       \<and> d \<in> set (due_restart_backoffs t' (bd_due_at_ns d))
       \<and> (\<forall>now. now < bd_due_at_ns d \<longrightarrow> due_restart_backoffs t' now = []))"
proof -
  let ?d = "\<lparr>bd_service = service, bd_due_at_ns = until\<rparr>"
  have mem: "?d \<in> set (restart_backoff_deadlines t')"
    using transition_backoff_Inr [OF assms] by (simp add: set_restart_backoff_deadlines)
  then have "restart_backoff_deadlines t' \<noteq> []" by auto
  then obtain d where d: "next_restart_backoff_deadline t' = Some d"
    by (cases "next_restart_backoff_deadline t'") (simp_all add: next_restart_backoff_deadline_def)
  have "due_restart_backoffs t' now = []" if "now < bd_due_at_ns d" for now
    unfolding due_restart_backoffs_def filter_empty_conv
    using next_deadline_Some(2) [OF d] that by (meson less_le_trans not_less)
  then show ?thesis
    using mem d next_deadline_Some(1) [OF d] next_deadline_Some(2) [OF d mem]
    by (auto simp: due_restart_backoffs_def)
qed

theorem restart_backoff_is_scheduled_witness:
  "\<exists>t t' d. transition_service_to_restart_backoff ''a'' ProcessCrash 5 t = t' \<and> is_ok (fst t')
     \<and> next_restart_backoff_deadline (snd t') = Some d \<and> bd_due_at_ns d \<le> 5"
proof -
  let ?e = "new_entry (simple_system_boot ''a'' ''/a'') ''a''"
  let ?t = "bt_insert ''a'' (?e\<lparr>en_runtime := (en_runtime ?e)\<lparr>rt_state := Active\<rparr>\<rparr>) bt_empty"
  let ?r = "transition_service_to_restart_backoff ''a'' ProcessCrash 5 ?t"
  have ok: "is_ok (fst ?r)" by code_simp
  then obtain x where "?r = (Inr x, snd ?r)" by (metis is_okE prod.collapse)
  from restart_backoff_is_scheduled [OF this] show ?thesis using ok by blast
qed

text \<open>
  C18: the restart budget is kept by the table's own counter. When the evaluator grants a backoff to a
  service of the table, on its definition and its failure counter, the transition it asks for is
  carried out where Backoff is allowed, and the counter the table then stores is the one the
  evaluator announced: one more than before and never above \<open>restart_max_retries\<close>, or zero for the
  clean exit of a service on a console. (A definition waiting to be applied must not change the
  console path: the table reads it after the transition, the evaluator before.)
\<close>

theorem restart_decision_is_recorded:
  assumes "bt_get t service = Some entry" and "\<not> en_definition_removed entry"
    and "evaluate_restart_after_failure (en_definition entry) c exit_code
           (rt_consecutive_restart_failures (en_runtime entry)) = BackoffAction c' delay next"
    and "is_allowed_transition (rt_state (en_runtime entry)) Backoff c"
    and "\<forall>p. en_pending_definition entry = Some p \<longrightarrow>
           sd_console_path p = sd_console_path (en_definition entry)"
  shows "\<exists>x t' e'. transition_service_to_restart_backoff service c' until t = (Inr x, t')
    \<and> bt_get t' service = Some e' \<and> rt_state (en_runtime e') = Backoff
    \<and> rt_consecutive_restart_failures (en_runtime e') = next
    \<and> next \<le> sd_restart_max_retries (en_definition entry)
    \<and> unat next = (if c = CleanExitRestart \<and> sd_console_path (en_definition entry) \<noteq> None then 0
        else unat (rt_consecutive_restart_failures (en_runtime entry)) + 1)"
proof -
  let ?n = "rt_consecutive_restart_failures (en_runtime entry)"
  note dec = evaluate_restart_Backoff [OF assms(3)]
  have next_eq: "next = (if c = CleanExitRestart \<and> sd_console_path (en_definition entry) \<noteq> None then 0
      else sat_add ?n 1)"
    using assms(3) by (auto simp: evaluate_restart_after_failure_def restart_fail_def split: if_splits)
  obtain x t1 where x: "transition_service service \<lparr>tr_to = Backoff, tr_cause = c\<rparr> t = (Inr x, t1)"
    using transition_service_accepted [OF assms(1)] assms(4) by fastforce
  from x obtain r where tr: "transition \<lparr>tr_to = Backoff, tr_cause = c\<rparr> (en_runtime entry) = (Inr (tt_event x), r)"
    and t1: "t1 = bt_insert service
         (settled_entry entry (update_restart_metadata_after_transition (tt_event x) r)) t"
    by (rule transition_service_Inr) (use assms(1,2) in auto)
  let ?e = "settled_entry entry (update_restart_metadata_after_transition (tt_event x) r)"
  have e: "rt_state (en_runtime ?e) = Backoff" "rt_consecutive_restart_failures (en_runtime ?e) = ?n"
    "sd_console_path (en_definition ?e) = sd_console_path (en_definition entry)"
    using transition_fields [OF tr] assms(2,5) by (auto simp: settled_entry_def split: option.splits)
  have bounds: "next \<le> sd_restart_max_retries (en_definition entry)"
    "unat next = (if c = CleanExitRestart \<and> sd_console_path (en_definition entry) \<noteq> None then 0
        else unat ?n + 1)"
    using dec(5) next_eq by (auto simp: word_less_nat_alt word_le_nat_alt)
  have "transition_service_to_restart_backoff service c' until t =
    (Inr x, bt_insert service (on_runtime (\<lambda>r. r\<lparr>rt_consecutive_restart_failures := next,
        rt_restart_backoff_until_ns := Some until\<rparr>) ?e) t1)"
    using x e dec(1)
    by (auto simp: transition_service_to_restart_backoff_def with_entry_def on_runtime_def t1 next_eq)
  then show ?thesis using bounds e by (auto simp: on_runtime_def)
qed

theorem restart_decision_is_recorded_witness:
  "\<exists>t x t' e'. transition_service_to_restart_backoff ''a'' ProcessCrash 5 t = (Inr x, t')
    \<and> bt_get t' ''a'' = Some e' \<and> rt_consecutive_restart_failures (en_runtime e') = 3"
proof -
  let ?n = "new_entry (simple_system_boot ''a'' ''/a'') ''a''"
  let ?e = "?n\<lparr>en_runtime := (en_runtime ?n)\<lparr>rt_state := Active, rt_consecutive_restart_failures := 2\<rparr>\<rparr>"
  have "evaluate_restart_after_failure (en_definition ?e) ProcessCrash (Some 1)
      (rt_consecutive_restart_failures (en_runtime ?e)) = BackoffAction ProcessCrash 4 3"
    by code_simp
  from restart_decision_is_recorded [where t = "bt_insert ''a'' ?e bt_empty", OF _ _ this, of "''a''" 5]
  show ?thesis by (auto simp: new_entry_def is_allowed_transition_def)
qed

lemma record_leaked_cgroup_entry:
  assumes "bt_get t service = Some e" and "record_leaked_cgroup service path kind at t = (res, t')"
  defines "r \<equiv> en_runtime e"
    and "dup \<equiv> \<exists>leak\<in>set (rt_leaked_cgroups (en_runtime e)). lc_path leak = path \<and> lc_kind leak = kind"
    and "here \<equiv> leak_affects_tree path
      (service_cgroup_root_path service (rt_cgroup_generation (en_runtime e)))"
  shows "\<exists>e'. bt_get t' service = Some e'
    \<and> rt_leaked_cgroups (en_runtime e') = (if dup then rt_leaked_cgroups r
        else rt_leaked_cgroups r @ [\<lparr>lc_path = path, lc_kind = kind, lc_detected_at_ns = at\<rparr>])
    \<and> rt_cgroup_generation (en_runtime e') =
        (if \<not> dup \<and> here then sat_add (rt_cgroup_generation r) 1 else rt_cgroup_generation r)"
proof (cases dup)
  case True
  then have "t' = bt_insert service e t"
    using assms(1,2) unfolding dup_def by (simp add: record_leaked_cgroup_def with_entry_def Let_def)
  then show ?thesis using True by (auto simp: r_def)
next
  case False
  note new = if_not_P [OF False [unfolded dup_def]]
  have "t' = bt_insert service (e\<lparr>en_runtime :=
      (let r' = r\<lparr>rt_leaked_cgroups := rt_leaked_cgroups r
          @ [\<lparr>lc_path = path, lc_kind = kind, lc_detected_at_ns = at\<rparr>]\<rparr>
       in if here then r'\<lparr>rt_cgroup_generation := sat_add (rt_cgroup_generation r') 1\<rparr> else r')\<rparr>) t"
    using assms(1,2) unfolding r_def here_def
    by (simp add: record_leaked_cgroup_def with_entry_def Let_def new)
  then show ?thesis
    unfolding if_not_P [OF False] using False by (cases here) simp_all
qed

text \<open>
  C20: a cgroup tree a service will run in next holds no recorded leak. Let the recorded leaks of an
  entry be in trees of generations before its current one, and the current one not be the last that
  64 bits can count. Recording a leak found in the tree of the current or of an earlier generation
  keeps this so, moving the service on when the leak is in its current tree.
\<close>

theorem leaks_stay_behind_generation:
  assumes "bt_get t service = Some e" and "leaks_behind service e"
    and "leak_affects_tree path (service_cgroup_root_path service g)"
    and "g \<le> rt_cgroup_generation (en_runtime e)" and "rt_cgroup_generation (en_runtime e) \<noteq> word_max"
    and "record_leaked_cgroup service path kind at t = (res, t')"
  shows "\<exists>e'. bt_get t' service = Some e' \<and> leaks_behind service e' \<and>
    (\<forall>leak\<in>set (rt_leaked_cgroups (en_runtime e')).
       \<not> leak_affects_tree (lc_path leak)
           (service_cgroup_root_path service (rt_cgroup_generation (en_runtime e'))))"
proof -
  let ?r = "en_runtime e"
  let ?dup = "\<exists>leak\<in>set (rt_leaked_cgroups ?r). lc_path leak = path \<and> lc_kind leak = kind"
  let ?here = "leak_affects_tree path (service_cgroup_root_path service (rt_cgroup_generation ?r))"
  have here: "?here \<longleftrightarrow> g = rt_cgroup_generation ?r"
    using leak_in_one_tree assms(3) by blast
  note entry = record_leaked_cgroup_entry [OF assms(1,6)]
  from entry obtain e' where e': "bt_get t' service = Some e'"
    and leaks: "rt_leaked_cgroups (en_runtime e') = (if ?dup then rt_leaked_cgroups ?r
        else rt_leaked_cgroups ?r @ [\<lparr>lc_path = path, lc_kind = kind, lc_detected_at_ns = at\<rparr>])"
    and gen: "rt_cgroup_generation (en_runtime e') =
        (if \<not> ?dup \<and> ?here then sat_add (rt_cgroup_generation ?r) 1 else rt_cgroup_generation ?r)"
    by (elim exE conjE)
  have le: "h < rt_cgroup_generation ?r \<Longrightarrow> h < rt_cgroup_generation (en_runtime e')" for h
    using sat_inc_above [OF assms(5), of h] by (simp add: gen order_less_imp_le)
  have new: "\<exists>h<rt_cgroup_generation (en_runtime e'). leak_affects_tree path (service_cgroup_root_path service h)"
    if "\<not> ?dup"
  proof (intro exI [of _ g] conjI assms(3))
    show "g < rt_cgroup_generation (en_runtime e')"
      using that here assms(4) sat_inc_above [OF assms(5), of g] by (simp add: gen order_le_neq_trans)
  qed
  have "leaks_behind service e'"
    unfolding leaks_behind_def
  proof
    fix leak
    assume "leak \<in> set (rt_leaked_cgroups (en_runtime e'))"
    then consider "leak \<in> set (rt_leaked_cgroups ?r)" | "\<not> ?dup" "lc_path leak = path"
      by (auto simp: leaks split: if_splits)
    then show "\<exists>g<rt_cgroup_generation (en_runtime e').
        leak_affects_tree (lc_path leak) (service_cgroup_root_path service g)"
      using assms(2) le new by cases (auto simp: leaks_behind_def)
  qed
  with e' leaks_behind_current show ?thesis by blast
qed

theorem leaks_stay_behind_generation_witness:
  "\<exists>t e' res t'. record_leaked_cgroup ''a'' ''/sys/fs/cgroup/peinit/a/main'' ServiceTree 0 t = (res, t')
     \<and> bt_get t' ''a'' = Some e' \<and> leaks_behind ''a'' e' \<and> res = Inr True"
proof -
  let ?e = "new_entry (simple_system_boot ''a'' ''/a'') ''a''"
  let ?t = "bt_insert ''a'' ?e bt_empty"
  let ?p = "''/sys/fs/cgroup/peinit/a/main''"
  let ?r = "record_leaked_cgroup ''a'' ?p ServiceTree 0 ?t"
  have hyps: "leaks_behind ''a'' ?e" "0 \<le> rt_cgroup_generation (en_runtime ?e)"
    "rt_cgroup_generation (en_runtime ?e) \<noteq> word_max"
    by (simp_all add: leaks_behind_def new_entry_def runtime_inactive_def word_max_def)
  have "leak_affects_tree ?p (service_cgroup_root_path ''a'' 0)" by code_simp
  from leaks_stay_behind_generation [OF _ hyps(1) this hyps(2,3), of ?t ServiceTree 0 "fst ?r" "snd ?r"]
  obtain e' where "bt_get (snd ?r) ''a'' = Some e'" "leaks_behind ''a'' e'" by auto
  moreover have "fst ?r = Inr True" by code_simp
  ultimately show ?thesis by (metis prod.collapse)
qed

text \<open>
  A running service whose definition was withdrawn cannot be put into restart backoff: the
  call fails with \<open>UnknownService\<close>, after it has already dropped the entry.
\<close>

theorem backoff_of_removed_service_fails:
  assumes "bt_get t service = Some entry" and "en_definition_removed entry"
    and "is_allowed_transition (rt_state (en_runtime entry)) Backoff c"
  shows "transition_service_to_restart_backoff service c until t
    = (Inl (UnknownService service), bt_remove service t)"
proof -
  obtain x t' where x: "transition_service service \<lparr>tr_to = Backoff, tr_cause = c\<rparr> t = (Inr x, t')"
    using transition_service_accepted [OF assms(1)] assms(3) by fastforce
  then have "t' = bt_remove service t"
    using assms by (auto elim!: transition_service_Inr simp: retains_definition_after_removal_def)
  with x show ?thesis
    by (simp add: transition_service_to_restart_backoff_def with_entry_def)
qed

theorem backoff_of_removed_service_fails_witness:
  "\<exists>t. bt_get t ''a'' \<noteq> None \<and>
     transition_service_to_restart_backoff ''a'' HealthCheckFailure 5 t = (Inl (UnknownService ''a''), bt_empty)"
proof -
  let ?e = "new_entry (simple_system_boot ''a'' ''/a'') ''a''"
  let ?a = "?e\<lparr>en_runtime := (en_runtime ?e)\<lparr>rt_state := Active\<rparr>, en_definition_removed := True\<rparr>"
  have "bt_remove ''a'' (bt_insert ''a'' ?a bt_empty) = bt_empty"
    by (rule btmap_eqI) simp
  then show ?thesis
    using backoff_of_removed_service_fails [of "bt_insert ''a'' ?a bt_empty" "''a''" ?a HealthCheckFailure 5]
    by (intro exI [of _ "bt_insert ''a'' ?a bt_empty"]) (simp add: is_allowed_transition_def)
qed

end
