(* ===== verification/Tty.thy ===== *)
theory Tty
  imports Service_Table
begin

text \<open>
  Terminals (\<open>src/service/tty.rs\<close>): who holds a terminal and who gets it next. The kernel
  console's name is read from sysfs and is not modelled. The lemmas show that the hand-over goes
  to the waiting service of highest precedence, the least name among equals, and that it never
  goes to a holder, a releaser, or a service that cannot be started.
\<close>

section \<open>Definitions\<close>

definition tty_holder :: "service_table \<Rightarrow> string \<Rightarrow> string \<Rightarrow> string option" where
  "tty_holder services tty except =
     find (\<lambda>service.
         (case table_get services service of
            None \<Rightarrow> False
          | Some entry \<Rightarrow>
              sd_console_path (en_definition entry) = Some tty
              \<and> holds_tty (rt_state (en_runtime entry))))
       (filter (\<lambda>service. service \<noteq> except) (service_names services))"

definition waits_for_tty :: "service_definition \<Rightarrow> string \<Rightarrow> bool" where
  "waits_for_tty d tty \<longleftrightarrow>
     \<not> sd_disabled d \<and> sd_console_path d = Some tty \<and> has_tty_released_trigger d"

text \<open>One turn of the loop over the services, with the best candidate so far.\<close>

definition tty_consider ::
  "service_table \<Rightarrow> string \<Rightarrow> string list \<Rightarrow> string \<Rightarrow> (string \<times> u32) option
   \<Rightarrow> (string \<times> u32) option" where
  "tty_consider services tty released_by service best =
     (case table_get services service of
        None \<Rightarrow> best
      | Some entry \<Rightarrow>
          if \<not> waits_for_tty (en_definition entry) tty then best
          else if service \<in> set released_by then best
          else if holds_tty (rt_state (en_runtime entry)) then best
          else if en_definition_removed entry then best
          else
            let precedence = sd_console_precedence (en_definition entry)
            in if (case best of
                     None \<Rightarrow> True
                   | Some (name, incumbent) \<Rightarrow>
                       precedence > incumbent \<or> precedence = incumbent \<and> service < name)
               then Some (service, precedence) else best)"

definition tty_release_candidate :: "service_table \<Rightarrow> string \<Rightarrow> string list \<Rightarrow> string option" where
  "tty_release_candidate services tty released_by =
     map_option fst (fold (tty_consider services tty released_by) (service_names services) None)"

section \<open>Lemmas\<close>

text \<open>A service that waits for the terminal, did not let go of it, and can be given it.\<close>

definition tty_waiter ::
  "service_table \<Rightarrow> string \<Rightarrow> string list \<Rightarrow> string \<Rightarrow> service_entry \<Rightarrow> bool" where
  "tty_waiter services tty released_by service entry \<longleftrightarrow>
     bt_get services service = Some entry \<and> waits_for_tty (en_definition entry) tty
     \<and> service \<notin> set released_by \<and> \<not> holds_tty (rt_state (en_runtime entry))
     \<and> \<not> en_definition_removed entry"

definition tty_claim ::
  "service_table \<Rightarrow> string \<Rightarrow> string list \<Rightarrow> string \<Rightarrow> u32 \<Rightarrow> bool" where
  "tty_claim services tty released_by service precedence \<longleftrightarrow>
     (\<exists>entry. tty_waiter services tty released_by service entry
        \<and> sd_console_precedence (en_definition entry) = precedence)"

text \<open>The first claim ranks before the second.\<close>

definition tty_before :: "string \<times> u32 \<Rightarrow> string \<times> u32 \<Rightarrow> bool" where
  "tty_before a b \<longleftrightarrow> snd b < snd a \<or> snd a = snd b \<and> fst a \<le> fst b"

lemma tty_before_trans: "tty_before a b \<Longrightarrow> tty_before b c \<Longrightarrow> tty_before a c"
  by (auto simp: tty_before_def)

lemma tty_before_refl [simp]: "tty_before a a"
  by (simp add: tty_before_def)

lemma tty_before_total: "\<not> tty_before a b \<Longrightarrow> tty_before b a"
  by (auto simp: tty_before_def)

lemma tty_consider_cases:
  "tty_consider services tty released_by service best =
     (case map_option (\<lambda>e. sd_console_precedence (en_definition e)) (bt_get services service) of
        None \<Rightarrow> best
      | Some p \<Rightarrow>
          if \<not> tty_claim services tty released_by service p then best
          else (case best of
                  None \<Rightarrow> Some (service, p)
                | Some b \<Rightarrow> if tty_before b (service, p) then best else Some (service, p)))"
  by (auto simp: tty_consider_def tty_claim_def tty_waiter_def tty_before_def table_get_def Let_def
      split: option.split prod.split)

lemma tty_fold_best:
  assumes "\<And>b. best = Some b \<Longrightarrow> P b"
    and "\<And>s p. s \<in> set xs \<Longrightarrow> tty_claim services tty released_by s p \<Longrightarrow> P (s, p)"
  shows "case fold (tty_consider services tty released_by) xs best of
      None \<Rightarrow> best = None \<and> (\<forall>s\<in>set xs. \<forall>p. \<not> tty_claim services tty released_by s p)
    | Some w \<Rightarrow> P w \<and> (\<forall>b. best = Some b \<longrightarrow> tty_before w b)
        \<and> (\<forall>s\<in>set xs. \<forall>p. tty_claim services tty released_by s p \<longrightarrow> tty_before w (s, p))"
  using assms
proof (induction xs arbitrary: best)
  case Nil
  then show ?case by (cases best) simp_all
next
  case (Cons s xs)
  define best' where "best' = tty_consider services tty released_by s best"
  have claim: "tty_claim services tty released_by s p \<Longrightarrow>
      \<exists>b. best' = Some b \<and> tty_before b (s, p)" for p
    by (auto simp: best'_def tty_consider_cases tty_claim_def tty_waiter_def tty_before_def
        split: option.splits if_splits)
  have keep: "best = Some b \<Longrightarrow> \<exists>b'. best' = Some b' \<and> tty_before b' b" for b
    by (cases b) (simp add: best'_def tty_consider_cases tty_before_total split: option.split)
  have P': "P b" if "best' = Some b" for b
    using that Cons.prems
    by (auto simp: best'_def tty_consider_cases split: option.splits if_splits)
  have P: "P (s, p)" if "s \<in> set xs" "tty_claim services tty released_by s p" for s p
    using Cons.prems(2) [of s p] that by simp
  note IH = Cons.IH [of best', OF P' P]
  have fold_eq: "fold (tty_consider services tty released_by) (s # xs) best
      = fold (tty_consider services tty released_by) xs best'"
    by (simp add: best'_def)
  show ?case
  proof (cases "fold (tty_consider services tty released_by) xs best'")
    case None
    then have b': "best' = None" and "\<forall>s\<in>set xs. \<forall>p. \<not> tty_claim services tty released_by s p"
      using IH by simp_all
    moreover have "best = None" using keep b' by (cases best) auto
    moreover have "\<not> tty_claim services tty released_by s p" for p using claim [of p] b' by auto
    ultimately show ?thesis unfolding fold_eq None by simp
  next
    case (Some w)
    then have w: "P w" "\<And>b. best' = Some b \<Longrightarrow> tty_before w b"
      and "\<forall>s\<in>set xs. \<forall>p. tty_claim services tty released_by s p \<longrightarrow> tty_before w (s, p)"
      using IH by simp_all
    moreover have "best = Some b \<Longrightarrow> tty_before w b" for b
      using keep [of b] w(2) by (auto intro: tty_before_trans)
    moreover have "tty_claim services tty released_by s p \<Longrightarrow> tty_before w (s, p)" for p
      using claim [of p] w(2) by (auto intro: tty_before_trans)
    ultimately show ?thesis unfolding fold_eq Some by simp
  qed
qed

lemma tty_release_candidate_best:
  "case tty_release_candidate services tty released_by of
     None \<Rightarrow> \<forall>s p. \<not> tty_claim services tty released_by s p
   | Some w \<Rightarrow> \<exists>p. tty_claim services tty released_by w p
       \<and> (\<forall>s q. tty_claim services tty released_by s q \<longrightarrow> tty_before (w, p) (s, q))"
proof -
  have claims: "tty_claim services tty released_by s p \<Longrightarrow> s \<in> set (service_names services)" for s p
    by (auto simp: tty_claim_def tty_waiter_def service_names_def set_bt_keys)
  let ?best = "fold (tty_consider services tty released_by) (service_names services) None"
  have "case ?best of
      None \<Rightarrow> \<forall>s\<in>set (service_names services). \<forall>p. \<not> tty_claim services tty released_by s p
    | Some w \<Rightarrow> tty_claim services tty released_by (fst w) (snd w)
        \<and> (\<forall>s\<in>set (service_names services). \<forall>p. tty_claim services tty released_by s p \<longrightarrow> tty_before w (s, p))"
    using tty_fold_best [of None "\<lambda>w. tty_claim services tty released_by (fst w) (snd w)"
        "service_names services" services tty released_by]
    by (cases ?best) simp_all
  then show ?thesis
    using claims by (cases ?best) (auto simp: tty_release_candidate_def)
qed

section \<open>Properties\<close>

text \<open>
  C32: a terminal let go of is offered to exactly one service, and to the right one: it waits for
  that terminal, did not itself release it, does not hold a terminal and can be started; no other
  such service has a higher precedence, or an equal one and a smaller name. Nobody is offered the
  terminal only if nobody waits for it.
\<close>

theorem tty_handover_is_optimal:
  "case tty_release_candidate services tty released_by of
     None \<Rightarrow> \<nexists>s e. tty_waiter services tty released_by s e
   | Some w \<Rightarrow> \<exists>e. tty_waiter services tty released_by w e
       \<and> (\<nexists>s e'. tty_waiter services tty released_by s e'
           \<and> (sd_console_precedence (en_definition e) < sd_console_precedence (en_definition e')
              \<or> sd_console_precedence (en_definition e) = sd_console_precedence (en_definition e')
                \<and> s < w))"
proof (cases "tty_release_candidate services tty released_by")
  case None
  then show ?thesis
    using tty_release_candidate_best [of services tty released_by] by (auto simp: tty_claim_def)
next
  case (Some w)
  with tty_release_candidate_best [of services tty released_by] obtain p
    where w: "tty_claim services tty released_by w p"
      and best: "\<And>s q. tty_claim services tty released_by s q \<Longrightarrow> tty_before (w, p) (s, q)"
    by auto
  from w obtain e where "tty_waiter services tty released_by w e"
    and p: "p = sd_console_precedence (en_definition e)"
    by (auto simp: tty_claim_def)
  moreover have "\<not> (p < sd_console_precedence (en_definition e')
      \<or> p = sd_console_precedence (en_definition e') \<and> s < w)"
    if "tty_waiter services tty released_by s e'" for s e'
  proof -
    have "tty_claim services tty released_by s (sd_console_precedence (en_definition e'))"
      using that by (auto simp: tty_claim_def)
    from best [OF this] show ?thesis by (auto simp: tty_before_def)
  qed
  ultimately show ?thesis using Some by auto
qed

end
