(* ===== verification/Calendar.thy ===== *)
theory Calendar
  imports Service_Definition
begin

text \<open>
  Calendar expressions (\<open>src/timer/calendar\<close>): the parser of timer schedules. The time zone
  database is the \<open>jiff\<close> crate's: \<open>tz_get\<close> stands for \<open>TimeZone::get\<close>, giving \<open>None\<close> for a
  known zone and the error's text otherwise.

  Strings are UTF-8 bytes; \<open>trim\<close> and \<open>split_whitespace\<close> recognise the encodings of the
  characters with the Unicode \<open>White_Space\<close> property.

  The lemmas show what the two insertion loops compute, and that every field of a schedule the
  parser accepts is a non-empty set of values within its range.
\<close>

section \<open>Text helpers of the standard library\<close>

text \<open>The length of the whitespace character a text starts with, 0 if there is none.\<close>

definition ws_len :: "string \<Rightarrow> nat" where
  "ws_len s =
     (case map of_char (take 3 s) :: nat list of
        [] \<Rightarrow> 0
      | a # rest \<Rightarrow>
          if 9 \<le> a \<and> a \<le> 13 \<or> a = 32 then 1
          else (case rest of
             [] \<Rightarrow> 0
           | b # rest2 \<Rightarrow>
               if a = 0xC2 \<and> (b = 0x85 \<or> b = 0xA0) then 2
               else (case rest2 of
                  [] \<Rightarrow> 0
                | c # _ \<Rightarrow>
                    if a = 0xE1 \<and> b = 0x9A \<and> c = 0x80
                       \<or> a = 0xE2 \<and> b = 0x80 \<and> (0x80 \<le> c \<and> c \<le> 0x8A \<or> c = 0xA8 \<or> c = 0xA9 \<or> c = 0xAF)
                       \<or> a = 0xE2 \<and> b = 0x81 \<and> c = 0x9F
                       \<or> a = 0xE3 \<and> b = 0x80 \<and> c = 0x80
                    then 3 else 0)))"

function split_ws :: "string \<Rightarrow> string \<Rightarrow> string list" where
  "split_ws cur s =
     (case s of
        [] \<Rightarrow> if cur = [] then [] else [cur]
      | c # cs \<Rightarrow>
          (if ws_len s = 0 then split_ws (cur @ [c]) cs
           else (if cur = [] then [] else [cur]) @ split_ws [] (drop (ws_len s) s)))"
  by pat_completeness auto
termination by (relation "measure (length \<circ> snd)") auto

declare split_ws.simps [simp del]

definition split_whitespace :: "string \<Rightarrow> string list" where
  "split_whitespace s = split_ws [] s"

function trim_start :: "string \<Rightarrow> string" where
  "trim_start s = (if ws_len s = 0 then s else trim_start (drop (ws_len s) s))"
  by pat_completeness auto
termination
proof (relation "measure length")
  fix s assume "ws_len s \<noteq> 0"
  then have "s \<noteq> []" by (auto simp: ws_len_def)
  with \<open>ws_len s \<noteq> 0\<close> show "(drop (ws_len s) s, s) \<in> measure length" by auto
qed simp

declare trim_start.simps [simp del]

fun trim_end :: "string \<Rightarrow> string" where
  "trim_end [] = []"
| "trim_end (c # cs) = (if trim_start (c # cs) = [] then [] else c # trim_end cs)"

definition trim :: "string \<Rightarrow> string" where
  "trim s = trim_end (trim_start s)"

text \<open>\<open>str::parse::<u16>\<close>: an optional plus sign and at least one digit, in range.\<close>

fun digits_value :: "nat \<Rightarrow> string \<Rightarrow> nat option" where
  "digits_value acc [] = Some acc"
| "digits_value acc (c # cs) =
     (if is_ascii_digit c then digits_value (acc * 10 + (of_char c - 48)) cs else None)"

definition parse_u16 :: "string \<Rightarrow> u16 option" where
  "parse_u16 s =
     (let digits = (case s of c # cs \<Rightarrow> if c = CHR ''+'' then cs else s | [] \<Rightarrow> s)
      in if digits = [] then None
         else case digits_value 0 digits of
             None \<Rightarrow> None
           | Some n \<Rightarrow> if n < 65536 then Some (of_nat n) else None)"

text \<open>\<open>split_once("..")\<close>, \<open>split("..")\<close> and \<open>rsplit_once\<close>.\<close>

fun split_once_dots :: "string \<Rightarrow> (string \<times> string) option" where
  "split_once_dots (c # d # cs) =
     (if c = CHR ''.'' \<and> d = CHR ''.'' then Some ([], cs)
      else map_option (\<lambda>(l, r). (c # l, r)) (split_once_dots (d # cs)))"
| "split_once_dots _ = None"

fun split_dots :: "string \<Rightarrow> string list" where
  "split_dots (c # d # cs) =
     (if c = CHR ''.'' \<and> d = CHR ''.'' then [] # split_dots cs
      else case split_dots (d # cs) of [] \<Rightarrow> [[c]] | p # ps \<Rightarrow> (c # p) # ps)"
| "split_dots s = [s]"

definition rsplit_once :: "char \<Rightarrow> string \<Rightarrow> (string \<times> string) option" where
  "rsplit_once c s = map_option (\<lambda>(l, r). (rev r, rev l)) (split_once c (rev s))"

section \<open>Errors\<close>

datatype calendar_parse_error =
    CalendarEmpty
  | MissingSchedule
  | UnknownToken string
  | TooManyParts string
  | InvalidField string string string
  | FractionalSecondsUnsupported string
  | InvalidTimezone string string

definition calendar_error_text :: "calendar_parse_error \<Rightarrow> string" where
  "calendar_error_text e =
     (case e of
        CalendarEmpty \<Rightarrow> ''calendar expression is empty''
      | MissingSchedule \<Rightarrow> ''calendar expression has no schedule component''
      | UnknownToken token \<Rightarrow> ''unknown calendar token '' @ [CHR 0x27] @ token @ [CHR 0x27]
      | TooManyParts expression \<Rightarrow>
          ''calendar expression has too many parts: '' @ [CHR 0x27] @ expression @ [CHR 0x27]
      | InvalidField field value reason \<Rightarrow>
          ''invalid '' @ field @ '' field '' @ [CHR 0x27] @ value @ [CHR 0x27] @ '': '' @ reason
      | FractionalSecondsUnsupported value \<Rightarrow>
          ''fractional seconds are not supported in '' @ [CHR 0x27] @ value @ [CHR 0x27]
      | InvalidTimezone timezone message \<Rightarrow>
          ''invalid timezone '' @ [CHR 0x27] @ timezone @ [CHR 0x27] @ '': '' @ message)"

section \<open>Number fields\<close>

text \<open>
  The two insertion loops. The step is never zero: \<open>split_step\<close> refuses it, and the loops are
  only called with its result or 1.
\<close>

function insert_ascending :: "u16 \<Rightarrow> u16 \<Rightarrow> u16 \<Rightarrow> u16 fset \<Rightarrow> u16 fset" where
  "insert_ascending value stop step values =
     (if value \<le> stop \<and> step \<noteq> 0
      then (case checked_add value step of
              Some next \<Rightarrow> insert_ascending next stop step (finsert value values)
            | None \<Rightarrow> finsert value values)
      else values)"
  by pat_completeness auto
termination
proof (relation "measure (\<lambda>(value, stop, step, values). 2 ^ 16 - unat value)", goal_cases)
  case (2 "value" stop step "values" "next")
  have "unat next = unat value + unat step" "0 < unat step" "unat next < 2 ^ 16"
    using 2 unat_bounded [of "next"] by (simp_all add: checked_add_Some_iff unat_gt_0)
  then show ?case by simp
qed simp

function insert_descending :: "u16 \<Rightarrow> u16 \<Rightarrow> u16 \<Rightarrow> u16 fset \<Rightarrow> u16 fset" where
  "insert_descending value stop step values =
     (if value \<ge> stop \<and> step \<noteq> 0
      then (if value < sat_add stop step then finsert value values
            else insert_descending (value - step) stop step (finsert value values))
      else values)"
  by pat_completeness auto
termination
proof (relation "measure (\<lambda>(value, stop, step, values). unat value)", goal_cases)
  case (2 "value" stop step "values")
  then have "step \<le> value" "0 < unat step"
    using unat_bounded [of step] unat_bounded [of "value"]
    by (auto simp: word_le_nat_alt word_less_nat_alt unat_sat_add unat_gt_0 not_less)
  then show ?case by (simp add: unat_sub word_le_nat_alt)
qed simp

declare insert_ascending.simps [simp del] insert_descending.simps [simp del]

definition split_step ::
  "string \<Rightarrow> string \<Rightarrow> string \<Rightarrow> calendar_parse_error + string \<times> u16 option" where
  "split_step expression field full_expression =
     (case split_once (CHR ''/'') expression of
        None \<Rightarrow> Inr (expression, None)
      | Some (base, step) \<Rightarrow>
          if base = [] \<or> step = [] \<or> CHR ''/'' \<in> set step
          then Inl (InvalidField field full_expression ''invalid repetition syntax'')
          else case parse_u16 step of
              None \<Rightarrow> Inl (InvalidField field full_expression ''invalid step'')
            | Some n \<Rightarrow>
                if n = 0
                then Inl (InvalidField field full_expression ''step must be greater than zero'')
                else Inr (base, Some n))"

definition parse_number ::
  "string \<Rightarrow> string \<Rightarrow> u16 \<Rightarrow> u16 \<Rightarrow> string \<Rightarrow> calendar_parse_error + u16" where
  "parse_number expression full_expression lo hi field =
     (if expression = [] then Inl (InvalidField field full_expression ''number is empty'')
      else case parse_u16 expression of
          None \<Rightarrow> Inl (InvalidField field full_expression ''invalid number'')
        | Some value \<Rightarrow>
            if value < lo \<or> value > hi
            then Inl (InvalidField field full_expression ''number is out of range'')
            else Inr value)"

definition numeric_bounds ::
  "string \<Rightarrow> string \<Rightarrow> u16 \<Rightarrow> u16 \<Rightarrow> string \<Rightarrow> calendar_parse_error + u16 \<times> u16 \<times> bool" where
  "numeric_bounds base expression lo hi field =
     (if base = ''*'' then Inr (lo, hi, False)
      else case split_once_dots base of
          Some (start, stop) \<Rightarrow>
            and_then (parse_number start expression lo hi field) (\<lambda>start.
            and_then (parse_number stop expression lo hi field) (\<lambda>stop.
              if start > stop
              then Inl (InvalidField field expression ''range start is after range end'')
              else Inr (start, stop, False)))
        | None \<Rightarrow>
            and_then (parse_number base expression lo hi field) (\<lambda>start. Inr (start, start, True)))"

definition insert_numeric_part ::
  "string \<Rightarrow> string \<Rightarrow> u16 \<Rightarrow> u16 \<Rightarrow> string \<Rightarrow> bool \<Rightarrow> u16 fset
   \<Rightarrow> calendar_parse_error + u16 fset" where
  "insert_numeric_part part expression lo hi field last_day_offsets values =
     and_then (split_step part field expression) (\<lambda>(base, step).
     and_then (numeric_bounds base expression lo hi field) (\<lambda>(start, stop, single).
       let has_step = (step \<noteq> None);
           step = (case step of Some n \<Rightarrow> n | None \<Rightarrow> 1)
       in if last_day_offsets \<and> single \<and> has_step
          then Inr (insert_descending start lo step values)
          else let stop = (if single \<and> has_step then hi else stop)
               in Inr (insert_ascending start stop step values)))"

fun insert_numeric_parts ::
  "string list \<Rightarrow> string \<Rightarrow> u16 \<Rightarrow> u16 \<Rightarrow> string \<Rightarrow> bool \<Rightarrow> u16 fset
   \<Rightarrow> calendar_parse_error + u16 fset" where
  "insert_numeric_parts [] expression lo hi field last_day_offsets values = Inr values"
| "insert_numeric_parts (part # parts) expression lo hi field last_day_offsets values =
     (if part = [] then Inl (InvalidField field expression ''list contains an empty item'')
      else and_then (insert_numeric_part part expression lo hi field last_day_offsets values)
        (insert_numeric_parts parts expression lo hi field last_day_offsets))"

definition parse_values ::
  "string \<Rightarrow> u16 \<Rightarrow> u16 \<Rightarrow> string \<Rightarrow> bool \<Rightarrow> calendar_parse_error + u16 fset" where
  "parse_values expression lo hi field last_day_offsets =
     (if expression = [] then Inl (InvalidField field expression ''field is empty'')
      else insert_numeric_parts (split_on (CHR '','') expression) expression lo hi field
             last_day_offsets {||})"

text \<open>A \<open>NumberField\<close> is its set of values.\<close>

definition number_field_any :: "u16 \<Rightarrow> u16 \<Rightarrow> u16 fset" where
  "number_field_any lo hi = insert_ascending lo hi 1 {||}"

definition number_field_parse ::
  "string \<Rightarrow> u16 \<Rightarrow> u16 \<Rightarrow> string \<Rightarrow> calendar_parse_error + u16 fset" where
  "number_field_parse expression lo hi field = parse_values expression lo hi field False"

datatype day_field = MonthDay "u16 fset" | LastDay "u16 fset"

definition day_field_any :: day_field where
  "day_field_any = MonthDay (number_field_any 1 31)"

definition day_field_parse :: "string \<Rightarrow> calendar_parse_error + day_field" where
  "day_field_parse expression =
     (case strip_prefix ''~'' expression of
        Some offsets \<Rightarrow>
          if offsets = [] then Inl (InvalidField ''day'' expression ''last-day offset is empty'')
          else map_sum id LastDay (parse_values offsets 1 31 ''day'' True)
      | None \<Rightarrow> map_sum id MonthDay (number_field_parse expression 1 31 ''day''))"

section \<open>Weekday fields\<close>

definition parse_weekday_name :: "string \<Rightarrow> string \<Rightarrow> calendar_parse_error + u8" where
  "parse_weekday_name expression full_expression =
     (let name = map to_ascii_lowercase expression
      in if name \<in> {''mon'', ''monday''} then Inr 1
         else if name \<in> {''tue'', ''tues'', ''tuesday''} then Inr 2
         else if name \<in> {''wed'', ''wednesday''} then Inr 3
         else if name \<in> {''thu'', ''thur'', ''thurs'', ''thursday''} then Inr 4
         else if name \<in> {''fri'', ''friday''} then Inr 5
         else if name \<in> {''sat'', ''saturday''} then Inr 6
         else if name \<in> {''sun'', ''sunday''} then Inr 7
         else Inl (InvalidField ''weekday'' full_expression ''unknown weekday name''))"

text \<open>The weekday loop counts in \<open>u16\<close> and stores bytes.\<close>

function weekday_loop :: "u16 \<Rightarrow> u16 \<Rightarrow> u16 \<Rightarrow> u8 fset \<Rightarrow> u8 fset" where
  "weekday_loop value stop step values =
     (if value \<le> stop \<and> step \<noteq> 0
      then (case checked_add value step of
              Some next \<Rightarrow> weekday_loop next stop step (finsert (ucast value) values)
            | None \<Rightarrow> finsert (ucast value) values)
      else values)"
  by pat_completeness auto
termination
proof (relation "measure (\<lambda>(value, stop, step, values). 2 ^ 16 - unat value)", goal_cases)
  case (2 "value" stop step "values" "next")
  have "unat next = unat value + unat step" "0 < unat step" "unat next < 2 ^ 16"
    using 2 unat_bounded [of "next"] by (simp_all add: checked_add_Some_iff unat_gt_0)
  then show ?case by simp
qed simp

declare weekday_loop.simps [simp del]

definition insert_ascending_weekdays :: "u8 \<Rightarrow> u8 \<Rightarrow> u16 \<Rightarrow> u8 fset \<Rightarrow> u8 fset" where
  "insert_ascending_weekdays start stop step values =
     weekday_loop (ucast start) (ucast stop) step values"

definition weekday_bounds ::
  "string \<Rightarrow> string \<Rightarrow> calendar_parse_error + u8 \<times> u8 \<times> bool" where
  "weekday_bounds base expression =
     (if base = ''*'' then Inr (1, 7, False)
      else case split_once_dots base of
          Some (start, stop) \<Rightarrow>
            and_then (parse_weekday_name start expression) (\<lambda>start.
            and_then (parse_weekday_name stop expression) (\<lambda>stop.
              if start > stop
              then Inl (InvalidField ''weekday'' expression ''range start is after range end'')
              else Inr (start, stop, False)))
        | None \<Rightarrow>
            and_then (parse_weekday_name base expression) (\<lambda>start. Inr (start, start, True)))"

definition insert_weekday_part ::
  "string \<Rightarrow> string \<Rightarrow> u8 fset \<Rightarrow> calendar_parse_error + u8 fset" where
  "insert_weekday_part part expression values =
     and_then (split_step part ''weekday'' expression) (\<lambda>(base, step).
     and_then (weekday_bounds base expression) (\<lambda>(start, stop, single).
       let stop = (if single \<and> step \<noteq> None then 7 else stop);
           step = (case step of Some n \<Rightarrow> n | None \<Rightarrow> 1)
       in Inr (insert_ascending_weekdays start stop step values)))"

fun insert_weekday_parts ::
  "string list \<Rightarrow> string \<Rightarrow> u8 fset \<Rightarrow> calendar_parse_error + u8 fset" where
  "insert_weekday_parts [] expression values = Inr values"
| "insert_weekday_parts (part # parts) expression values =
     (if part = [] then Inl (InvalidField ''weekday'' expression ''list contains an empty item'')
      else and_then (insert_weekday_part part expression values)
        (insert_weekday_parts parts expression))"

definition weekday_field_any :: "u8 fset" where
  "weekday_field_any = {|1, 2, 3, 4, 5, 6, 7|}"

definition weekday_field_parse :: "string \<Rightarrow> calendar_parse_error + u8 fset" where
  "weekday_field_parse expression =
     (if expression = [] then Inl (InvalidField ''weekday'' expression ''field is empty'')
      else insert_weekday_parts (split_on (CHR '','') expression) expression {||})"

section \<open>Dates and times\<close>

record date_fields =
  df_years :: "u16 fset"
  df_months :: "u16 fset"
  df_days :: day_field

definition date_fields_any :: date_fields where
  "date_fields_any =
     \<lparr>df_years = number_field_any 0 9999, df_months = number_field_any 1 12,
      df_days = day_field_any\<rparr>"

definition strip_suffix_hyphen :: "string \<Rightarrow> string" where
  "strip_suffix_hyphen s = (if s \<noteq> [] \<and> last s = CHR ''-'' then butlast s else s)"

definition split_date :: "string \<Rightarrow> string \<Rightarrow> calendar_parse_error + string \<times> string \<times> bool" where
  "split_date expression rest =
     (case split_once (CHR ''~'') rest of
        Some (month, day) \<Rightarrow> Inr (strip_suffix_hyphen month, day, True)
      | None \<Rightarrow>
          (case rsplit_once (CHR ''-'') rest of
             Some (month, day) \<Rightarrow> Inr (month, day, False)
           | None \<Rightarrow>
               Inl (InvalidField ''date'' expression ''date must contain year, month and day'')))"

definition parse_date :: "string \<Rightarrow> calendar_parse_error + date_fields" where
  "parse_date expression =
     (case split_once (CHR ''-'') expression of
        None \<Rightarrow> Inl (UnknownToken expression)
      | Some (year, rest) \<Rightarrow>
          and_then (split_date expression rest) (\<lambda>(month, day, last_day).
            let day_expression = (if last_day then ''~'' @ day else day)
            in and_then (number_field_parse year 0 9999 ''year'') (\<lambda>years.
               and_then (number_field_parse month 1 12 ''month'') (\<lambda>months.
               and_then (day_field_parse day_expression) (\<lambda>days.
                 Inr \<lparr>df_years = years, df_months = months, df_days = days\<rparr>)))))"

record time_fields =
  tf_hours :: "u16 fset"
  tf_minutes :: "u16 fset"
  tf_seconds :: "u16 fset"

definition time_of ::
  "string \<Rightarrow> string \<Rightarrow> string \<Rightarrow> calendar_parse_error + time_fields" where
  "time_of hour minute second =
     and_then (number_field_parse hour 0 23 ''hour'') (\<lambda>hours.
     and_then (number_field_parse minute 0 59 ''minute'') (\<lambda>minutes.
     and_then (number_field_parse second 0 59 ''second'') (\<lambda>seconds.
       Inr \<lparr>tf_hours = hours, tf_minutes = minutes, tf_seconds = seconds\<rparr>)))"

definition midnight :: "calendar_parse_error + time_fields" where
  "midnight = time_of ''0'' ''0'' ''0''"

definition reject_fractions :: "string list \<Rightarrow> string \<Rightarrow> calendar_parse_error + unit" where
  "reject_fractions parts expression =
     (if list_ex (\<lambda>field. list_ex (\<lambda>number. list_ex (\<lambda>part. CHR ''.'' \<in> set part)
           (split_on (CHR ''/'') number)) (split_dots field)) parts
      then Inl (FractionalSecondsUnsupported expression) else Inr ())"

definition parse_time :: "string \<Rightarrow> calendar_parse_error + time_fields" where
  "parse_time expression =
     (let parts = split_on (CHR '':'') expression
      in and_then (reject_fractions parts expression) (\<lambda>_.
         case parts of
           [hour, minute] \<Rightarrow> time_of hour minute ''0''
         | [hour, minute, second] \<Rightarrow> time_of hour minute second
         | _ \<Rightarrow> Inl (InvalidField ''time'' expression
                  ''time must contain hour:minute or hour:minute:second'')))"

section \<open>Expressions\<close>

definition shortcut_expression :: "string \<Rightarrow> string option" where
  "shortcut_expression shortcut =
     (let name = map to_ascii_lowercase shortcut
      in if name = ''minutely'' then Some ''*-*-* *:*:00''
         else if name = ''hourly'' then Some ''*-*-* *:00:00''
         else if name = ''daily'' then Some ''*-*-* 00:00:00''
         else if name = ''weekly'' then Some ''Mon *-*-* 00:00:00''
         else if name = ''monthly'' then Some ''*-*-01 00:00:00''
         else if name = ''quarterly'' then Some ''*-01,04,07,10-01 00:00:00''
         else if name = ''semiannually'' then Some ''*-01,07-01 00:00:00''
         else if name = ''annually'' \<or> name = ''yearly'' then Some ''*-01-01 00:00:00''
         else None)"

definition expand_shortcut :: "string \<Rightarrow> string \<times> bool" where
  "expand_shortcut expression =
     (case split_whitespace expression of
        [] \<Rightarrow> (expression, False)
      | first # rest \<Rightarrow>
          (case shortcut_expression first of
             None \<Rightarrow> (expression, False)
           | Some expanded \<Rightarrow>
               (case rest of
                  [] \<Rightarrow> (expanded, True)
                | [timezone] \<Rightarrow> (expanded @ '' '' @ timezone, True)
                | _ \<Rightarrow> (expression, False))))"

definition validate_timezone ::
  "(string \<Rightarrow> string option) \<Rightarrow> string \<Rightarrow> calendar_parse_error + unit" where
  "validate_timezone tz_get timezone =
     (case tz_get timezone of
        None \<Rightarrow> Inr ()
      | Some message \<Rightarrow> Inl (InvalidTimezone timezone message))"

definition looks_like_weekday :: "string \<Rightarrow> bool" where
  "looks_like_weekday token \<longleftrightarrow> token = ''*'' \<or> is_ok (weekday_field_parse token)"

definition looks_like_date :: "string \<Rightarrow> bool" where
  "looks_like_date token \<longleftrightarrow> CHR ''-'' \<in> set token \<or> CHR ''~'' \<in> set token"

definition looks_like_time :: "string \<Rightarrow> bool" where
  "looks_like_time token \<longleftrightarrow>
     CHR '':'' \<in> set token
     \<and> (case token of [] \<Rightarrow> False | ch # _ \<Rightarrow> is_ascii_digit ch \<or> ch = CHR ''*'')"

record calendar_schedule =
  cs_weekdays :: "u8 fset"
  cs_years :: "u16 fset"
  cs_months :: "u16 fset"
  cs_days :: day_field
  cs_hours :: "u16 fset"
  cs_minutes :: "u16 fset"
  cs_seconds :: "u16 fset"
  cs_timezone :: "string option"

text \<open>
  The cursor of the source walks the tokens once; each stage here returns what it parsed, the
  tokens left and whether it saw a component.
\<close>

definition take_weekdays ::
  "string list \<Rightarrow> calendar_parse_error + u8 fset \<times> string list \<times> bool" where
  "take_weekdays tokens =
     (case tokens of
        token # rest \<Rightarrow>
          if looks_like_weekday token
          then and_then (weekday_field_parse token) (\<lambda>w. Inr (w, rest, True))
          else Inr (weekday_field_any, tokens, False)
      | [] \<Rightarrow> Inr (weekday_field_any, tokens, False))"

definition take_date ::
  "string list \<Rightarrow> calendar_parse_error + date_fields \<times> string list \<times> bool" where
  "take_date tokens =
     (case tokens of
        token # rest \<Rightarrow>
          if looks_like_date token then and_then (parse_date token) (\<lambda>d. Inr (d, rest, True))
          else Inr (date_fields_any, tokens, False)
      | [] \<Rightarrow> Inr (date_fields_any, tokens, False))"

definition take_time ::
  "string list \<Rightarrow> calendar_parse_error + time_fields \<times> string list \<times> bool" where
  "take_time tokens =
     (case tokens of
        token # rest \<Rightarrow>
          if looks_like_time token then and_then (parse_time token) (\<lambda>t. Inr (t, rest, True))
          else and_then midnight (\<lambda>t. Inr (t, tokens, False))
      | [] \<Rightarrow> and_then midnight (\<lambda>t. Inr (t, tokens, False)))"

definition take_timezone ::
  "(string \<Rightarrow> string option) \<Rightarrow> string list
   \<Rightarrow> calendar_parse_error + string option \<times> string list" where
  "take_timezone tz_get tokens =
     (case tokens of
        token # rest \<Rightarrow> and_then (validate_timezone tz_get token) (\<lambda>_. Inr (Some token, rest))
      | [] \<Rightarrow> Inr (None, []))"

definition parse_calendar_schedule ::
  "(string \<Rightarrow> string option) \<Rightarrow> string \<Rightarrow> calendar_parse_error + calendar_schedule" where
  "parse_calendar_schedule tz_get expression =
     (let expression = trim expression
      in if expression = [] then Inl CalendarEmpty
         else
           let (expression, from_shortcut) = expand_shortcut expression;
               tokens = split_whitespace expression
           in if tokens = [] then Inl CalendarEmpty
              else
                and_then (take_weekdays tokens) (\<lambda>(weekdays, tokens, saw_weekdays).
                and_then (take_date tokens) (\<lambda>(days, tokens, saw_date).
                and_then (take_time tokens) (\<lambda>(time, tokens, saw_time).
                and_then (take_timezone tz_get tokens) (\<lambda>(timezone, tokens).
                  if tokens \<noteq> [] then Inl (TooManyParts expression)
                  else if \<not> (from_shortcut \<or> saw_weekdays \<or> saw_date \<or> saw_time)
                    then Inl MissingSchedule
                  else Inr
                    \<lparr>cs_weekdays = weekdays, cs_years = df_years days, cs_months = df_months days,
                     cs_days = df_days days, cs_hours = tf_hours time, cs_minutes = tf_minutes time,
                     cs_seconds = tf_seconds time, cs_timezone = timezone\<rparr>)))))"

section \<open>The insertion loops\<close>

lemma insert_ascending_spec:
  "step \<noteq> 0 \<Longrightarrow> fset (insert_ascending v stop step vs)
   = fset vs \<union> {w. w \<le> stop \<and> (\<exists>k. unat w = unat v + k * unat step)}"
proof (induction v stop step vs rule: insert_ascending.induct)
  case (1 v stop step vs)
  show ?case
  proof (cases "v \<le> stop")
    case False
    then have "{w. w \<le> stop \<and> (\<exists>k. unat w = unat v + k * unat step)} = {}"
      by (auto simp: word_le_nat_alt)
    then show ?thesis using False by (auto simp: insert_ascending.simps)
  next
    case True
    show ?thesis
    proof (cases "checked_add v step")
      case None
      have "w = v" if "unat w = unat v + k * unat step" for w k
      proof (cases k)
        case 0
        then show ?thesis using that by (simp add: word_unat_eq_iff)
      next
        case (Suc k')
        have "unat v + unat step \<ge> 2 ^ 16"
          using None by (simp add: checked_add_def split: if_splits)
        then show ?thesis using that Suc unat_bounded [of w] by simp
      qed
      then have "{w. w \<le> stop \<and> (\<exists>k. unat w = unat v + k * unat step)} = {v}"
        using True by (auto intro: exI [of _ 0])
      then show ?thesis using None True 1 by (simp add: insert_ascending.simps)
    next
      case (Some n)
      then have n: "unat n = unat v + unat step" by (simp add: checked_add_Some_iff)
      have "(\<exists>k. unat w = unat v + k * unat step)
          \<longleftrightarrow> w = v \<or> (\<exists>k. unat w = unat n + k * unat step)" for w
      proof
        assume "\<exists>k. unat w = unat v + k * unat step"
        then obtain k where k: "unat w = unat v + k * unat step" ..
        show "w = v \<or> (\<exists>k. unat w = unat n + k * unat step)"
          using k n by (cases k) (auto simp: word_unat_eq_iff)
      next
        assume "w = v \<or> (\<exists>k. unat w = unat n + k * unat step)"
        then show "\<exists>k. unat w = unat v + k * unat step"
          using n by (metis add.right_neutral add.assoc mult_Suc mult_zero_left)
      qed
      then show ?thesis
        using 1(1) [OF _ Some] 1(2) True Some
        by (subst insert_ascending.simps) auto
    qed
  qed
qed

lemma insert_descending_spec:
  "step \<noteq> 0 \<Longrightarrow> fset (insert_descending v stop step vs)
   = fset vs \<union> {w. stop \<le> w \<and> (\<exists>k. unat w + k * unat step = unat v)}"
proof (induction v stop step vs rule: insert_descending.induct)
  case (1 v stop step vs)
  show ?case
  proof (cases "stop \<le> v")
    case False
    then have "{w. stop \<le> w \<and> (\<exists>k. unat w + k * unat step = unat v)} = {}"
      by (auto simp: word_le_nat_alt)
    then show ?thesis using False by (auto simp: insert_descending.simps)
  next
    case True
    show ?thesis
    proof (cases "v < sat_add stop step")
      case small: True
      have "w = v" if "unat w + k * unat step = unat v" "stop \<le> w" for w k
      proof (cases k)
        case 0
        then show ?thesis using that by (simp add: word_unat_eq_iff)
      next
        case (Suc k')
        then show ?thesis
          using small that by (simp add: word_less_nat_alt word_le_nat_alt unat_sat_add)
      qed
      then have "{w. stop \<le> w \<and> (\<exists>k. unat w + k * unat step = unat v)} = {v}"
        using True by (auto intro: exI [of _ 0])
      then show ?thesis using small True 1 by (simp add: insert_descending.simps)
    next
      case False
      then have le: "unat step \<le> unat v"
        using unat_bounded [of step] unat_bounded [of v]
        by (auto simp: word_less_nat_alt unat_sat_add not_less min_le_iff_disj)
      then have n: "unat (v - step) = unat v - unat step"
        by (simp add: unat_sub word_le_nat_alt)
      have "(\<exists>k. unat w + k * unat step = unat v)
          \<longleftrightarrow> w = v \<or> (\<exists>k. unat w + k * unat step = unat (v - step))" for w
      proof
        assume "\<exists>k. unat w + k * unat step = unat v"
        then obtain k where k: "unat w + k * unat step = unat v" ..
        show "w = v \<or> (\<exists>k. unat w + k * unat step = unat (v - step))"
        proof (cases k)
          case (Suc k')
          then have "unat w + k' * unat step = unat (v - step)" using k n by simp
          then show ?thesis by blast
        qed (use k in \<open>simp add: word_unat_eq_iff\<close>)
      next
        assume "w = v \<or> (\<exists>k. unat w + k * unat step = unat (v - step))"
        then show "\<exists>k. unat w + k * unat step = unat v"
        proof
          assume "\<exists>k. unat w + k * unat step = unat (v - step)"
          then obtain k where "unat w + k * unat step = unat v - unat step" using n by auto
          then have "unat w + Suc k * unat step = unat v" using le by simp
          then show ?thesis ..
        qed (auto intro: exI [of _ 0])
      qed
      then show ?thesis
        using 1(1) 1(2) True False
        by (subst insert_descending.simps) auto
    qed
  qed
qed

section \<open>Fields\<close>

definition field_within :: "u16 \<Rightarrow> u16 \<Rightarrow> u16 fset \<Rightarrow> bool" where
  "field_within lo hi vs \<longleftrightarrow> vs \<noteq> {||} \<and> (\<forall>v. v |\<in>| vs \<longrightarrow> lo \<le> v \<and> v \<le> hi)"

lemma insert_ascending_within:
  assumes "step \<noteq> 0" "lo \<le> start" "start \<le> stop" "stop \<le> hi"
    and "vs = {||} \<or> field_within lo hi vs"
  shows "field_within lo hi (insert_ascending start stop step vs)"
proof -
  have all: "lo \<le> w \<and> w \<le> hi" if "w |\<in>| insert_ascending start stop step vs" for w
    using that assms insert_ascending_spec [OF assms(1), of start stop vs]
    by (auto simp: field_within_def word_le_nat_alt)
  have "start |\<in>| insert_ascending start stop step vs"
    using assms(3) insert_ascending_spec [OF assms(1), of start stop vs] by (auto intro: exI [of _ 0])
  then show ?thesis using all by (auto simp: field_within_def)
qed

lemma insert_descending_within:
  assumes "step \<noteq> 0" "lo \<le> start" "start \<le> hi" and "vs = {||} \<or> field_within lo hi vs"
  shows "field_within lo hi (insert_descending start lo step vs)"
proof -
  have all: "lo \<le> w \<and> w \<le> hi" if "w |\<in>| insert_descending start lo step vs" for w
    using that assms insert_descending_spec [OF assms(1), of start lo vs]
    by (auto simp: field_within_def word_le_nat_alt)
  have "start |\<in>| insert_descending start lo step vs"
    using assms(2) insert_descending_spec [OF assms(1), of start lo vs] by (auto intro: exI [of _ 0])
  then show ?thesis using all by (auto simp: field_within_def)
qed

lemma split_step_nonzero: "split_step e f full = Inr (base, Some n) \<Longrightarrow> n \<noteq> 0"
  by (auto simp: split_step_def split: option.splits if_splits)

lemma parse_number_within: "parse_number e full lo hi f = Inr v \<Longrightarrow> lo \<le> v \<and> v \<le> hi"
  by (auto simp: parse_number_def not_less split: option.splits if_splits)

lemma numeric_bounds_within:
  "numeric_bounds base e lo hi f = Inr (start, stop, single) \<Longrightarrow> lo \<le> hi
   \<Longrightarrow> lo \<le> start \<and> start \<le> stop \<and> stop \<le> hi"
  by (auto simp: numeric_bounds_def and_then_eq_Inr not_less dest!: parse_number_within
      split: option.splits if_splits)

lemma insert_numeric_part_within:
  assumes "insert_numeric_part part e lo hi f l vs = Inr ws" "lo \<le> hi"
    "vs = {||} \<or> field_within lo hi vs"
  shows "field_within lo hi ws"
proof -
  obtain base step start stop single where
    st: "split_step part f e = Inr (base, step)" and
    b: "numeric_bounds base e lo hi f = Inr (start, stop, single)"
    and ws: "ws = (if l \<and> single \<and> step \<noteq> None
        then insert_descending start lo (case step of Some n \<Rightarrow> n | None \<Rightarrow> 1) vs
        else insert_ascending start (if single \<and> step \<noteq> None then hi else stop)
          (case step of Some n \<Rightarrow> n | None \<Rightarrow> 1) vs)"
    using assms(1) by (auto simp: insert_numeric_part_def and_then_eq_Inr Let_def split: if_splits)
  note w = numeric_bounds_within [OF b assms(2)]
  have s: "(case step of Some n \<Rightarrow> n | None \<Rightarrow> 1) \<noteq> (0 :: u16)"
    using st split_step_nonzero [of part f e base] by (cases step) auto
  have "start \<le> hi" using w by (meson order_trans)
  then show ?thesis
    unfolding ws
    using w s assms(3) insert_descending_within [OF s] insert_ascending_within [OF s] by auto
qed

lemma insert_numeric_parts_within:
  "insert_numeric_parts parts e lo hi f l vs = Inr ws \<Longrightarrow> lo \<le> hi
   \<Longrightarrow> vs = {||} \<and> parts \<noteq> [] \<or> field_within lo hi vs \<Longrightarrow> field_within lo hi ws"
proof (induction parts arbitrary: vs)
  case (Cons part parts)
  then obtain us where us: "insert_numeric_part part e lo hi f l vs = Inr us"
    and rest: "insert_numeric_parts parts e lo hi f l us = Inr ws"
    by (auto simp: and_then_eq_Inr split: if_splits)
  have "field_within lo hi us"
    using insert_numeric_part_within [OF us] Cons.prems by auto
  then show ?case using Cons.IH [OF rest] Cons.prems by simp
qed simp

lemma parse_values_within: "parse_values e lo hi f l = Inr ws \<Longrightarrow> lo \<le> hi \<Longrightarrow> field_within lo hi ws"
  by (auto simp: parse_values_def split: if_splits intro: insert_numeric_parts_within)

lemma number_field_any_within: "lo \<le> hi \<Longrightarrow> field_within lo hi (number_field_any lo hi)"
  unfolding number_field_any_def by (rule insert_ascending_within) simp_all

text \<open>All values of the range, no more and no less.\<close>

lemma number_field_any_all: "v |\<in>| number_field_any lo hi \<longleftrightarrow> lo \<le> v \<and> v \<le> hi"
proof -
  have "(\<exists>k. unat v = unat lo + k) \<longleftrightarrow> lo \<le> v"
    by (auto simp: word_le_nat_alt le_iff_add)
  then show ?thesis
    using insert_ascending_spec [of 1 lo hi "{||}"] by (auto simp: number_field_any_def)
qed

fun day_within :: "day_field \<Rightarrow> bool" where
  "day_within (MonthDay vs) = field_within 1 31 vs"
| "day_within (LastDay vs) = field_within 1 31 vs"

lemma day_field_parse_within: "day_field_parse e = Inr d \<Longrightarrow> day_within d"
  by (auto simp: day_field_parse_def number_field_parse_def map_sum_def
      dest!: parse_values_within split: option.splits if_splits sum.splits)

definition weekday_within :: "u8 fset \<Rightarrow> bool" where
  "weekday_within vs \<longleftrightarrow> vs \<noteq> {||} \<and> (\<forall>v. v |\<in>| vs \<longrightarrow> 1 \<le> v \<and> v \<le> 7)"

lemma weekday_loop_ascending:
  "weekday_loop v stop step vs = vs |\<union>| ucast |`| insert_ascending v stop step {||}"
proof -
  have acc: "step \<noteq> 0 \<Longrightarrow> insert_ascending v stop step us = us |\<union>| insert_ascending v stop step {||}"
    for v stop step us
    using insert_ascending_spec [of step v stop us] insert_ascending_spec [of step v stop "{||}"]
    by (simp add: fset_eq_iff [unfolded fset_eq_iff] fset_inject [symmetric])
  show ?thesis
  proof (induction v stop step vs rule: weekday_loop.induct)
    case (1 v stop step vs)
    show ?case
    proof (cases "v \<le> stop \<and> step \<noteq> 0")
      case False
      then show ?thesis
        by (subst weekday_loop.simps, subst insert_ascending.simps) auto
    next
      case True
      show ?thesis
      proof (cases "checked_add v step")
        case None
        then show ?thesis
          using True by (subst weekday_loop.simps, subst insert_ascending.simps) simp
      next
        case (Some n)
        have "insert_ascending v stop step {||} = {|v|} |\<union>| insert_ascending n stop step {||}"
          using True Some acc [of step n stop "{|v|}"] by (subst insert_ascending.simps) simp
        then show ?thesis
          using 1 [OF True Some] True Some by (subst weekday_loop.simps) simp
      qed
    qed
  qed
qed

lemma unat_ucast_u16 [simp]: "unat (ucast (v :: u8) :: u16) = unat v"
  using unat_bounded [of v] by (simp add: unsigned_ucast_eq take_bit_nat_eq_self)

lemma unat_ucast_u8: "unat (v :: u16) \<le> 7 \<Longrightarrow> unat (ucast v :: u8) = unat v"
  by (simp add: unsigned_ucast_eq take_bit_nat_eq_self)

lemma insert_weekday_part_within:
  assumes "insert_weekday_part part e vs = Inr ws" "vs = {||} \<or> weekday_within vs"
  shows "weekday_within ws"
proof -
  obtain base step start stop single where
    st: "split_step part ''weekday'' e = Inr (base, step)" and
    b: "weekday_bounds base e = Inr (start, stop, single)"
    and ws: "ws = insert_ascending_weekdays start (if single \<and> step \<noteq> None then 7 else stop)
        (case step of Some n \<Rightarrow> n | None \<Rightarrow> 1) vs"
    using assms(1) by (auto simp: insert_weekday_part_def and_then_eq_Inr Let_def split: if_splits)
  let ?stop = "if single \<and> step \<noteq> None then 7 else stop"
  let ?step = "case step of Some n \<Rightarrow> n | None \<Rightarrow> 1"
  have name: "parse_weekday_name n e = Inr v \<Longrightarrow> 1 \<le> v \<and> v \<le> 7" for n v
    by (auto simp: parse_weekday_name_def Let_def split: if_splits)
  have w: "1 \<le> start \<and> start \<le> stop \<and> stop \<le> 7"
    using b by (auto simp: weekday_bounds_def and_then_eq_Inr not_less dest!: name
        split: option.splits if_splits)
  then have w': "start \<le> ?stop" "?stop \<le> 7" by (auto intro: order_trans)
  have s: "?step \<noteq> 0"
    using st split_step_nonzero [of part "''weekday''" e base] by (cases step) auto
  have "field_within (ucast start) (ucast ?stop)
      (insert_ascending (ucast start) (ucast ?stop) ?step {||})"
    using w' by (intro insert_ascending_within s) (auto simp: word_le_nat_alt)
  then show ?thesis
    unfolding ws insert_ascending_weekdays_def weekday_loop_ascending
    using w w' assms(2)
    by (fastforce simp: weekday_within_def field_within_def word_le_nat_alt unat_ucast_u8)
qed

lemma insert_weekday_parts_within:
  "insert_weekday_parts parts e vs = Inr ws \<Longrightarrow> vs = {||} \<and> parts \<noteq> [] \<or> weekday_within vs
   \<Longrightarrow> weekday_within ws"
proof (induction parts arbitrary: vs)
  case (Cons part parts)
  then obtain us where us: "insert_weekday_part part e vs = Inr us"
    and rest: "insert_weekday_parts parts e us = Inr ws"
    by (auto simp: and_then_eq_Inr split: if_splits)
  have "weekday_within us"
    using insert_weekday_part_within [OF us] Cons.prems by auto
  then show ?case using Cons.IH [OF rest] by simp
qed simp

lemma weekday_field_parse_within: "weekday_field_parse e = Inr ws \<Longrightarrow> weekday_within ws"
  by (auto simp: weekday_field_parse_def split: if_splits intro: insert_weekday_parts_within)

section \<open>Schedules\<close>

definition schedule_wf :: "calendar_schedule \<Rightarrow> bool" where
  "schedule_wf s \<longleftrightarrow>
     weekday_within (cs_weekdays s) \<and> field_within 0 9999 (cs_years s)
     \<and> field_within 1 12 (cs_months s) \<and> day_within (cs_days s)
     \<and> field_within 0 23 (cs_hours s) \<and> field_within 0 59 (cs_minutes s)
     \<and> field_within 0 59 (cs_seconds s)"

lemma weekday_field_any_within: "weekday_within weekday_field_any"
  by (simp add: weekday_within_def weekday_field_any_def)

lemma take_weekdays_within:
  assumes "take_weekdays ts = Inr (w, r, b)"
  shows "weekday_within w"
proof (cases ts)
  case Nil
  then show ?thesis using assms weekday_field_any_within by (simp add: take_weekdays_def)
next
  case (Cons t ts')
  then show ?thesis
    using assms weekday_field_any_within weekday_field_parse_within
    by (auto simp: take_weekdays_def and_then_eq_Inr split: if_splits)
qed

lemma date_within:
  assumes "parse_date e = Inr d"
  shows "field_within 0 9999 (df_years d) \<and> field_within 1 12 (df_months d)
     \<and> day_within (df_days d)"
proof -
  obtain year rest where sp: "split_once (CHR ''-'') e = Some (year, rest)"
    using assms by (auto simp: parse_date_def split: option.splits)
  obtain month day l where rest: "split_date e rest = Inr (month, day, l)"
    using assms sp by (auto simp: parse_date_def and_then_eq_Inr)
  have "number_field_parse year 0 9999 ''year'' = Inr (df_years d)
      \<and> number_field_parse month 1 12 ''month'' = Inr (df_months d)
      \<and> (\<exists>x. day_field_parse x = Inr (df_days d))"
    using assms sp rest by (auto simp: parse_date_def and_then_eq_Inr Let_def)
  then show ?thesis
    unfolding number_field_parse_def
    using parse_values_within day_field_parse_within by fastforce
qed

lemma take_date_within:
  "take_date ts = Inr (d, r, b) \<Longrightarrow> field_within 0 9999 (df_years d) \<and> field_within 1 12 (df_months d)
     \<and> day_within (df_days d)"
  by (auto simp: take_date_def and_then_eq_Inr date_fields_any_def day_field_any_def
      number_field_any_within dest!: date_within split: list.splits if_splits)

lemma time_of_within:
  "time_of h m s = Inr t \<Longrightarrow> field_within 0 23 (tf_hours t) \<and> field_within 0 59 (tf_minutes t)
     \<and> field_within 0 59 (tf_seconds t)"
  by (auto simp: time_of_def and_then_eq_Inr number_field_parse_def dest!: parse_values_within)

lemma take_time_within:
  "take_time ts = Inr (t, r, b) \<Longrightarrow> field_within 0 23 (tf_hours t) \<and> field_within 0 59 (tf_minutes t)
     \<and> field_within 0 59 (tf_seconds t)"
proof -
  assume t: "take_time ts = Inr (t, r, b)"
  have "\<exists>h m s. time_of h m s = Inr t"
    using t by (auto simp: take_time_def and_then_eq_Inr midnight_def parse_time_def Let_def
        split: list.splits if_splits)
  then show ?thesis using time_of_within by blast
qed

lemma parse_calendar_stages:
  assumes "parse_calendar_schedule tz_get expression = Inr s"
  obtains ts w r1 b1 d r2 b2 t r3 b3 r4 where
    "take_weekdays ts = Inr (w, r1, b1)" "take_date r1 = Inr (d, r2, b2)"
    "take_time r2 = Inr (t, r3, b3)" "take_timezone tz_get r3 = Inr (cs_timezone s, r4)"
    "cs_weekdays s = w" "cs_years s = df_years d" "cs_months s = df_months d"
    "cs_days s = df_days d" "cs_hours s = tf_hours t" "cs_minutes s = tf_minutes t"
    "cs_seconds s = tf_seconds t"
proof -
  obtain e sc where e: "expand_shortcut (trim expression) = (e, sc)"
    by (cases "expand_shortcut (trim expression)")
  let ?ts = "split_whitespace e"
  obtain w r1 b1 where 1: "take_weekdays ?ts = Inr (w, r1, b1)"
    using assms e by (auto simp: parse_calendar_schedule_def Let_def and_then_eq_Inr split: if_splits)
  obtain d r2 b2 where 2: "take_date r1 = Inr (d, r2, b2)"
    using assms e 1
    by (auto simp: parse_calendar_schedule_def Let_def and_then_eq_Inr split: if_splits)
  obtain t r3 b3 where 3: "take_time r2 = Inr (t, r3, b3)"
    using assms e 1 2
    by (auto simp: parse_calendar_schedule_def Let_def and_then_eq_Inr split: if_splits)
  obtain tz r4 where 4: "take_timezone tz_get r3 = Inr (tz, r4)"
    using assms e 1 2 3
    by (auto simp: parse_calendar_schedule_def Let_def and_then_eq_Inr split: if_splits)
  have "s = \<lparr>cs_weekdays = w, cs_years = df_years d, cs_months = df_months d,
      cs_days = df_days d, cs_hours = tf_hours t, cs_minutes = tf_minutes t,
      cs_seconds = tf_seconds t, cs_timezone = tz\<rparr>"
    using assms e 1 2 3 4 by (simp add: parse_calendar_schedule_def Let_def split: if_splits)
  with 1 2 3 4 show ?thesis by (intro that [of ?ts]) simp_all
qed

text \<open>What evaluates the parser on a concrete expression.\<close>

lemmas calendar_eval =
  parse_calendar_schedule_def trim_def trim_start.simps ws_len_def expand_shortcut_def
  split_whitespace_def split_ws.simps shortcut_expression_def to_ascii_lowercase_def
  take_weekdays_def looks_like_weekday_def weekday_field_parse_def insert_weekday_part_def
  split_step_def weekday_bounds_def parse_weekday_name_def insert_ascending_weekdays_def
  weekday_loop.simps checked_add_def take_date_def looks_like_date_def parse_date_def
  split_date_def strip_suffix_hyphen_def day_field_parse_def number_field_parse_def
  parse_values_def insert_numeric_part_def numeric_bounds_def parse_number_def parse_u16_def
  is_ascii_digit_def insert_ascending.simps insert_descending.simps take_time_def
  looks_like_time_def parse_time_def reject_fractions_def time_of_def take_timezone_def
  validate_timezone_def

section \<open>Properties\<close>

text \<open>
  C29: every schedule the parser accepts can be evaluated: each of its fields is a non-empty set of
  values within the field's range, and its time zone, when it names one, is known.
\<close>

theorem parsed_schedule_is_wf:
  assumes "parse_calendar_schedule tz_get expression = Inr s"
  shows "schedule_wf s \<and> (case cs_timezone s of Some tz \<Rightarrow> tz_get tz = None | None \<Rightarrow> True)"
  using assms
proof (rule parse_calendar_stages, goal_cases)
  case (1 ts w r1 b1 d r2 b2 t r3 b3 r4)
  then show ?case
    using take_weekdays_within [OF 1(1)] take_date_within [OF 1(2)] take_time_within [OF 1(3)]
    by (auto simp: schedule_wf_def take_timezone_def validate_timezone_def and_then_eq_Inr
        split: list.splits option.splits)
qed

theorem parsed_schedule_is_wf_witness:
  "\<exists>s. parse_calendar_schedule (\<lambda>tz. None) ''mon..fri 2026-01/3-~7/2 8..17:00 UTC'' = Inr s
     \<and> schedule_wf s"
proof -
  have "is_ok (parse_calendar_schedule (\<lambda>tz. None)
      ''mon..fri 2026-01/3-~7/2 8..17:00 UTC'')"
    by (simp add: calendar_eval)
  then obtain s where "parse_calendar_schedule (\<lambda>tz. None)
      ''mon..fri 2026-01/3-~7/2 8..17:00 UTC'' = Inr s"
    by (rule is_okE)
  with parsed_schedule_is_wf [OF this] show ?thesis by blast
qed

end
