(* ===== verification/Service_Graph.thy ===== *)
theory Service_Graph
  imports Role Calendar "HOL-Library.Product_Lexorder"
begin

text \<open>
  Validation of a definition set (\<open>src/service/graph\<close>): the findings that block services, the
  warnings, and the cycle search.

  The lemmas show that the cycle search reports only real dependency cycles and reports one
  whenever there is one, so that a validated graph always has a start order, and what a
  validated set satisfies.
\<close>

section \<open>Findings and warnings\<close>

datatype service_graph_finding =
    InvalidServiceName string
  | DuplicateService string
  | MissingHardDependency string string service_dependency_kind
  | CycleFinding "string list"
  | ConflictingBootServices string string
  | InvalidHealthCheckRestartWindow string u32 u64 u64
  | InvalidTimerSchedule string string string
  | UnschedulableHealthCheck string service_type

datatype service_graph_warning =
    AliveReadinessWithHardDependents string "string list"
  | UnfilledRole string "string list"

fun warning_message :: "service_graph_warning \<Rightarrow> string" where
  "warning_message (AliveReadinessWithHardDependents service dependents) =
     ''service '' @ service @ '' uses Alive readiness while hard dependents require readiness''"
| "warning_message (UnfilledRole role services) =
     ''no service provides '' @ role @ '', which other services need to start''"

record service_graph_validation =
  gv_service_count :: nat
  gv_warnings :: "service_graph_warning list"

record service_graph_validation_failure =
  gf_findings :: "service_graph_finding list"
  gf_warnings :: "service_graph_warning list"

type_synonym definition_map = "(string, service_definition) btmap"

section \<open>The cycle search\<close>

definition rotated :: "nat \<Rightarrow> 'a list \<Rightarrow> 'a list" where
  "rotated index cycle = drop index cycle @ take index cycle"

definition canonical_cycle :: "string list \<Rightarrow> string list" where
  "canonical_cycle cycle =
     (case cycle of
        [] \<Rightarrow> []
      | first # _ \<Rightarrow>
          fold (\<lambda>index best.
              if cycle ! index < first \<or> rotated index cycle < best then rotated index cycle
              else best)
            [1..<length cycle] cycle)"

text \<open>
  The search state. \<open>active\<close> and \<open>stack\<close> grow on the way down and shrink on the way up, so they
  are arguments; \<open>permanent\<close>, \<open>seen\<close> and \<open>cycles\<close> are threaded through.
\<close>

record cycle_search =
  cy_permanent :: "string fset"
  cy_seen :: "string list fset"
  cy_cycles :: "string list list"

definition record_cycle :: "string list \<Rightarrow> nat \<Rightarrow> cycle_search \<Rightarrow> cycle_search" where
  "record_cycle stack index st =
     (let cycle = drop index stack; canonical = canonical_cycle cycle
      in if canonical |\<in>| cy_seen st then st
         else st\<lparr>cy_seen := finsert canonical (cy_seen st), cy_cycles := cy_cycles st @ [cycle]\<rparr>)"

definition graph_targets :: "definition_map \<Rightarrow> service_definition \<Rightarrow> string list" where
  "graph_targets by_name d = existing_start_order_dependency_targets d (bt_contains_key by_name)"

function (sequential)
  cycle_visit :: "definition_map \<Rightarrow> string \<Rightarrow> (string, nat) btmap \<Rightarrow> string list \<Rightarrow> cycle_search
    \<Rightarrow> cycle_search" and
  cycle_visit_each :: "definition_map \<Rightarrow> string list \<Rightarrow> (string, nat) btmap \<Rightarrow> string list
    \<Rightarrow> cycle_search \<Rightarrow> cycle_search" where
  "cycle_visit by_name service active stack st =
     (if service |\<in>| cy_permanent st then st
      else case bt_get active service of
          Some index \<Rightarrow> record_cycle stack index st
        | None \<Rightarrow>
            (case bt_get by_name service of
               None \<Rightarrow> st
             | Some d \<Rightarrow>
                 let st' = cycle_visit_each by_name (graph_targets by_name d)
                       (bt_insert service (length stack) active) (stack @ [service]) st
                 in st'\<lparr>cy_permanent := finsert service (cy_permanent st')\<rparr>))"
| "cycle_visit_each by_name [] active stack st = st"
| "cycle_visit_each by_name (d # ds) active stack st =
     cycle_visit_each by_name ds active stack (cycle_visit by_name d active stack st)"
  by pat_completeness auto
termination
proof (relation "measures [
    \<lambda>arg. case arg of
        Inl (by_name, s, active, stack, st) \<Rightarrow> card (dom (bt_get by_name) - dom (bt_get active))
      | Inr (by_name, ds, active, stack, st) \<Rightarrow> card (dom (bt_get by_name) - dom (bt_get active)),
    \<lambda>arg. case arg of
        Inl (by_name, s, active, stack, st) \<Rightarrow> 0
      | Inr (by_name, ds, active, stack, st) \<Rightarrow> Suc (length ds)]", goal_cases)
  case (2 by_name service active stack st d)
  then have "card (dom (bt_get by_name) - dom (bt_get (bt_insert service (length stack) active)))
      < card (dom (bt_get by_name) - dom (bt_get active))"
    by (intro psubset_card_mono) (auto simp: bt_get_insert)
  then show ?case by simp
qed simp_all

definition find_cycles :: "definition_map \<Rightarrow> string list list" where
  "find_cycles by_name =
     cy_cycles (fold (\<lambda>service. cycle_visit by_name service bt_empty []) (bt_keys by_name)
       \<lparr>cy_permanent = {||}, cy_seen = {||}, cy_cycles = []\<rparr>)"

section \<open>Validation\<close>

definition index_step :: "service_definition \<Rightarrow> definition_map \<times> string fset
    \<Rightarrow> definition_map \<times> string fset" where
  "index_step d ix =
     (case ix of (by_name, duplicates) \<Rightarrow>
        if bt_contains_key by_name (sd_name d) then (by_name, finsert (sd_name d) duplicates)
        else (bt_insert (sd_name d) d by_name, duplicates))"

definition index_definitions ::
  "service_definition list \<Rightarrow> definition_map \<times> service_graph_finding list" where
  "index_definitions definitions =
     (let (by_name, duplicates) = fold index_step definitions (bt_empty, {||})
      in (by_name, map DuplicateService (sorted_list_of_fset duplicates)))"

definition invalid_service_name_findings ::
  "service_definition list \<Rightarrow> service_graph_finding list" where
  "invalid_service_name_findings definitions =
     map (\<lambda>d. InvalidServiceName (sd_name d))
       (filter (\<lambda>d. \<not> is_valid_service_name (sd_name d)) definitions)"

definition missing_hard_dependencies ::
  "service_definition list \<Rightarrow> definition_map \<Rightarrow> service_graph_finding list" where
  "missing_hard_dependencies definitions by_name =
     concat (map (\<lambda>d.
       map (\<lambda>dep. MissingHardDependency (sd_name d) (dep_target dep) (dep_kind dep))
         (filter (\<lambda>dep. \<not> bt_contains_key by_name (dep_target dep)) (hard_dependencies d)))
       definitions)"

definition conflict_pair :: "string \<Rightarrow> string \<Rightarrow> string \<times> string" where
  "conflict_pair a b = (if a \<le> b then (a, b) else (b, a))"

definition boot_conflict_pairs :: "definition_map \<Rightarrow> (string \<times> string) list" where
  "boot_conflict_pairs by_name =
     concat (map (\<lambda>d.
       if \<not> has_boot_trigger d then []
       else map (conflict_pair (sd_name d))
         (filter (\<lambda>target.
            case bt_get by_name target of None \<Rightarrow> False | Some t \<Rightarrow> has_boot_trigger t)
           (sd_conflicts d)))
       (bt_values by_name))"

definition conflicting_boot_services :: "definition_map \<Rightarrow> service_graph_finding list" where
  "conflicting_boot_services by_name =
     map (\<lambda>(service, target). ConflictingBootServices service target)
       (sorted_list_of_fset (fset_of_list (boot_conflict_pairs by_name)))"

definition health_check_is_scheduled :: "service_definition \<Rightarrow> bool" where
  "health_check_is_scheduled d \<longleftrightarrow> sd_health_check d \<noteq> None \<and> sd_service_type d = Simple"

definition health_check_failure_window_secs :: "service_definition \<Rightarrow> u64" where
  "health_check_failure_window_secs d =
     sat_mul (ucast (sd_health_check_retries d)) (sd_health_check_interval_secs d)"

definition health_check_restart_window_findings ::
  "service_definition list \<Rightarrow> service_graph_finding list" where
  "health_check_restart_window_findings definitions =
     map (\<lambda>d. InvalidHealthCheckRestartWindow (sd_name d) (sd_health_check_retries d)
            (sd_health_check_interval_secs d) (sd_restart_window_secs d))
       (filter (\<lambda>d. health_check_failure_window_secs d \<ge> sd_restart_window_secs d)
         (filter health_check_is_scheduled definitions))"

definition unschedulable_health_check_findings ::
  "service_definition list \<Rightarrow> service_graph_finding list" where
  "unschedulable_health_check_findings definitions =
     map (\<lambda>d. UnschedulableHealthCheck (sd_name d) (sd_service_type d))
       (filter (\<lambda>d. sd_health_check d \<noteq> None \<and> \<not> health_check_is_scheduled d) definitions)"

definition timer_schedule_finding ::
  "(string \<Rightarrow> string option) \<Rightarrow> service_definition \<Rightarrow> service_trigger
   \<Rightarrow> service_graph_finding list" where
  "timer_schedule_finding tz_get d trigger =
     (case trigger of
        TimerTrigger schedule \<Rightarrow>
          (case parse_calendar_schedule tz_get schedule of
             Inl error \<Rightarrow> [InvalidTimerSchedule (sd_name d) schedule (calendar_error_text error)]
           | Inr _ \<Rightarrow> [])
      | _ \<Rightarrow> [])"

definition invalid_timer_schedule_findings ::
  "(string \<Rightarrow> string option) \<Rightarrow> service_definition list \<Rightarrow> service_graph_finding list" where
  "invalid_timer_schedule_findings tz_get definitions =
     concat (map (\<lambda>d. concat (map (timer_schedule_finding tz_get d) (sd_triggers d))) definitions)"

definition cycle_findings :: "definition_map \<Rightarrow> service_graph_finding list" where
  "cycle_findings by_name = map CycleFinding (find_cycles by_name)"

definition hard_dependents :: "definition_map \<Rightarrow> (string, string list) btmap" where
  "hard_dependents by_name =
     fold (\<lambda>d. fold (\<lambda>dep dependents.
         if bt_contains_key by_name (dep_target dep)
         then bt_insert (dep_target dep)
                (bt_get_or [] dependents (dep_target dep) @ [sd_name d]) dependents
         else dependents) (hard_dependencies d))
       (bt_values by_name) bt_empty"

definition readiness_warnings :: "definition_map \<Rightarrow> service_graph_warning list" where
  "readiness_warnings by_name =
     (let dependents = hard_dependents by_name
      in concat (map (\<lambda>d.
           case bt_get dependents (sd_name d) of
             None \<Rightarrow> []
           | Some entries \<Rightarrow>
               if entries = [] then []
               else [AliveReadinessWithHardDependents (sd_name d) entries])
           (filter (\<lambda>d. sd_readiness d = Alive) (bt_values by_name))))"

definition unfilled_role_warnings :: "service_definition list \<Rightarrow> service_graph_warning list" where
  "unfilled_role_warnings definitions =
     (if role_providers definitions AUTHN_ROLE \<noteq> [] then []
      else
        let services = map sd_name (filter requires_authority definitions)
        in if services = [] then [] else [UnfilledRole AUTHN_ROLE services])"

definition validate_service_graph ::
  "(string \<Rightarrow> string option) \<Rightarrow> service_definition list
   \<Rightarrow> service_graph_validation_failure + service_graph_validation" where
  "validate_service_graph tz_get definitions =
     (let definitions = synthesise_role_dependencies definitions;
          (by_name, duplicate_findings) = index_definitions definitions;
          findings =
            invalid_service_name_findings definitions
            @ duplicate_findings
            @ missing_hard_dependencies definitions by_name
            @ conflicting_boot_services by_name
            @ health_check_restart_window_findings definitions
            @ unschedulable_health_check_findings definitions
            @ invalid_timer_schedule_findings tz_get definitions
            @ cycle_findings by_name;
          warnings = readiness_warnings by_name @ unfilled_role_warnings definitions
      in if findings \<noteq> [] then Inl \<lparr>gf_findings = findings, gf_warnings = warnings\<rparr>
         else Inr \<lparr>gv_service_count = length (bt_keys by_name), gv_warnings = warnings\<rparr>)"

section \<open>The cycle search is sound\<close>

definition graph_deps :: "definition_map \<Rightarrow> string \<Rightarrow> string list" where
  "graph_deps by_name service =
     (case bt_get by_name service of None \<Rightarrow> [] | Some d \<Rightarrow> graph_targets by_name d)"

definition graph_names :: "definition_map \<Rightarrow> string fset" where
  "graph_names by_name = fset_of_list (bt_keys by_name)"

lemma graph_names_iff [simp]: "s |\<in>| graph_names by_name \<longleftrightarrow> bt_get by_name s \<noteq> None"
  by (auto simp: graph_names_def fset_of_list_elem set_bt_keys)

lemma graph_targets_known: "d \<in> set (graph_targets by_name e) \<Longrightarrow> bt_get by_name d \<noteq> None"
  by (auto simp: graph_targets_def existing_targets bt_contains_key_def)

text \<open>\<open>active\<close> records the position of each service on the stack.\<close>

definition active_index :: "(string, nat) btmap \<Rightarrow> string list \<Rightarrow> bool" where
  "active_index active stack \<longleftrightarrow> (\<forall>s. bt_get active s = position (\<lambda>entry. entry = s) stack)"

lemma active_index_Nil [simp]: "active_index bt_empty []"
  by (simp add: active_index_def)

lemma active_index_push:
  "active_index active stack \<Longrightarrow> bt_get active s = None
   \<Longrightarrow> active_index (bt_insert s (length stack) active) (stack @ [s])"
  by (auto simp: active_index_def position_append split: option.splits)

lemma cycle_visit_sound:
  "active_index active stack \<Longrightarrow> set stack \<subseteq> fset (graph_names g) \<Longrightarrow> bt_get g s \<noteq> None
   \<Longrightarrow> successively (\<lambda>a b. b \<in> set (graph_deps g a)) (stack @ [s])
   \<Longrightarrow> (\<And>c. c \<in> set (cy_cycles st) \<Longrightarrow> dependency_cycle (graph_names g) (graph_deps g) c)
   \<Longrightarrow> c \<in> set (cy_cycles (cycle_visit g s active stack st))
   \<Longrightarrow> dependency_cycle (graph_names g) (graph_deps g) c"
  "active_index active stack \<Longrightarrow> set stack \<subseteq> fset (graph_names g) \<Longrightarrow> stack \<noteq> []
   \<Longrightarrow> set ds \<subseteq> set (graph_deps g (last stack))
   \<Longrightarrow> successively (\<lambda>a b. b \<in> set (graph_deps g a)) stack
   \<Longrightarrow> (\<And>c. c \<in> set (cy_cycles st) \<Longrightarrow> dependency_cycle (graph_names g) (graph_deps g) c)
   \<Longrightarrow> c \<in> set (cy_cycles (cycle_visit_each g ds active stack st))
   \<Longrightarrow> dependency_cycle (graph_names g) (graph_deps g) c"
proof (induction g s active stack st and g ds active stack st
    arbitrary: c and c rule: cycle_visit_cycle_visit_each.induct)
  case (1 g s active stack st)
  show ?case
  proof (cases "s |\<in>| cy_permanent st")
    case True
    then show ?thesis using 1 by simp
  next
    case fresh: False
    show ?thesis
    proof (cases "bt_get active s")
      case (Some i)
      then have i: "i < length stack" "stack ! i = s"
        using 1(2) by (simp_all add: active_index_def position_Some)
      have "successively (\<lambda>a b. b \<in> set (graph_deps g a)) (drop i stack @ [s])"
        using 1(5) successively_append_iff [of _ "take i stack" "drop i stack @ [s]"]
        by (metis append.assoc append_take_drop_id)
      then have "dependency_cycle (graph_names g) (graph_deps g) (drop i stack)"
        using i 1(3) set_drop_subset [of i stack]
        by (auto simp: dependency_cycle_def successively_append_iff hd_drop_conv_nth)
      then show ?thesis
        using 1(6,7) fresh Some by (auto simp: record_cycle_def Let_def split: if_splits)
    next
      case None
      obtain d where d: "bt_get g s = Some d" using 1(4) by auto
      show ?thesis
      proof (rule 1(1) [OF fresh None d])
        show "active_index (bt_insert s (length stack) active) (stack @ [s])"
          using active_index_push 1(2) None by blast
        show "set (stack @ [s]) \<subseteq> fset (graph_names g)" using 1(3) d by auto
        show "set (graph_targets g d) \<subseteq> set (graph_deps g (last (stack @ [s])))"
          using d by (simp add: graph_deps_def)
        show "c \<in> set (cy_cycles (cycle_visit_each g (graph_targets g d)
            (bt_insert s (length stack) active) (stack @ [s]) st))"
          using 1(7) fresh None d by (simp add: Let_def)
      qed (use 1(5,6) in auto)
    qed
  qed
next
  case (2 g active stack st)
  then show ?case by simp
next
  case (3 g d ds active stack st)
  have mid: "dependency_cycle (graph_names g) (graph_deps g) c'"
    if "c' \<in> set (cy_cycles (cycle_visit g d active stack st))" for c'
  proof (rule 3(1) [OF 3(3,4) _ _ 3(8) that])
    show "bt_get g d \<noteq> None"
      using 3(6) graph_targets_known by (auto simp: graph_deps_def split: option.splits)
    show "successively (\<lambda>a b. b \<in> set (graph_deps g a)) (stack @ [d])"
      using 3(5-7) by (simp add: successively_append_iff)
  qed
  show ?case
    using 3(2) [OF 3(3,4,5) _ 3(7) mid] 3(6,9) by simp
qed

section \<open>The cycle search is complete\<close>

lemma cycle_visit_cycles_mono:
  "cy_cycles (cycle_visit g s active stack st) = [] \<Longrightarrow> cy_cycles st = []"
  "cy_cycles (cycle_visit_each g ds active stack st) = [] \<Longrightarrow> cy_cycles st = []"
  by (induction g s active stack st and g ds active stack st
      rule: cycle_visit_cycle_visit_each.induct)
    (auto simp: record_cycle_def Let_def split: if_splits option.splits)

text \<open>While no cycle has been recorded none has been seen, so the next one is recorded.\<close>

definition unseen :: "cycle_search \<Rightarrow> bool" where
  "unseen st \<longleftrightarrow> (cy_cycles st = [] \<longrightarrow> cy_seen st = {||})"

lemma unseen_record_cycle: "cy_cycles (record_cycle stack i st) = [] \<Longrightarrow> unseen st \<Longrightarrow> False"
  by (auto simp: record_cycle_def unseen_def Let_def split: if_splits)

lemma cycle_visit_unseen:
  "unseen st \<Longrightarrow> unseen (cycle_visit g s active stack st)"
  "unseen st \<Longrightarrow> unseen (cycle_visit_each g ds active stack st)"
proof (induction g s active stack st and g ds active stack st
    rule: cycle_visit_cycle_visit_each.induct)
  case (1 g s active stack st)
  then show ?case
    by (auto simp: record_cycle_def unseen_def Let_def split: if_splits option.splits)
qed simp_all

text \<open>A search that records nothing visits exactly as the start order does.\<close>

lemma cycle_visit_simulates:
  "cy_cycles (cycle_visit g s active stack st) = [] \<Longrightarrow> active_index active stack \<Longrightarrow> unseen st
   \<Longrightarrow> bt_get g s \<noteq> None
   \<Longrightarrow> \<exists>order'. visit_order (graph_names g) (graph_deps g) s stack (cy_permanent st, order)
       = Inr (cy_permanent (cycle_visit g s active stack st), order')"
  "cy_cycles (cycle_visit_each g ds active stack st) = [] \<Longrightarrow> active_index active stack \<Longrightarrow> unseen st
   \<Longrightarrow> (\<And>d. d \<in> set ds \<Longrightarrow> bt_get g d \<noteq> None)
   \<Longrightarrow> \<exists>order'. visit_dependencies (graph_names g) (graph_deps g) ds stack (cy_permanent st, order)
       = Inr (cy_permanent (cycle_visit_each g ds active stack st), order')"
proof (induction g s active stack st and g ds active stack st
    arbitrary: order and order rule: cycle_visit_cycle_visit_each.induct)
  case (1 g s active stack st)
  show ?case
  proof (cases "s |\<in>| cy_permanent st")
    case True
    then show ?thesis by simp
  next
    case fresh: False
    obtain d where d: "bt_get g s = Some d" using 1(5) by auto
    show ?thesis
    proof (cases "bt_get active s")
      case (Some i)
      then show ?thesis
        using 1(2,4) fresh unseen_record_cycle [of stack i st] by simp
    next
      case None
      let ?st' = "cycle_visit_each g (graph_targets g d) (bt_insert s (length stack) active)
          (stack @ [s]) st"
      have "cy_cycles ?st' = []" using 1(2) fresh None d by (simp add: Let_def)
      then obtain order' where "visit_dependencies (graph_names g) (graph_deps g)
          (graph_targets g d) (stack @ [s]) (cy_permanent st, order) = Inr (cy_permanent ?st', order')"
        using 1(1) [OF fresh None d _ active_index_push [OF 1(3) None] 1(4)] graph_targets_known
        by blast
      moreover have "position (\<lambda>entry. entry = s) stack = None"
        using 1(3) None by (simp add: active_index_def)
      moreover have "graph_deps g s = graph_targets g d" using d by (simp add: graph_deps_def)
      ultimately show ?thesis
        using fresh None d by (simp add: Let_def)
    qed
  qed
next
  case (2 g active stack st)
  then show ?case by simp
next
  case (3 g d ds active stack st)
  let ?mid = "cycle_visit g d active stack st"
  have "cy_cycles ?mid = []" using 3(3) cycle_visit_cycles_mono(2) by simp
  then obtain order1 where one: "visit_order (graph_names g) (graph_deps g) d stack
      (cy_permanent st, order) = Inr (cy_permanent ?mid, order1)"
    using 3(1) [of order] 3(4-6) by auto
  moreover have "bt_get g d \<noteq> None" using 3(6) by simp
  ultimately show ?case
    using 3(2) [of order1] 3(3-6) cycle_visit_unseen(1) [OF 3(5)] by simp
qed

declare cycle_visit.simps [simp del]

lemma cycle_fold_simulates:
  "cy_cycles (fold (\<lambda>s. cycle_visit g s bt_empty []) ss st) = [] \<Longrightarrow> unseen st
   \<Longrightarrow> (\<And>s. s \<in> set ss \<Longrightarrow> bt_get g s \<noteq> None)
   \<Longrightarrow> \<exists>st'. visit_all (graph_names g) (graph_deps g) ss (cy_permanent st, order) = Inr st'"
proof (induction ss arbitrary: st order)
  case (Cons s ss)
  let ?mid = "cycle_visit g s bt_empty [] st"
  have mono: "cy_cycles (fold (\<lambda>s. cycle_visit g s bt_empty []) xs q) = [] \<Longrightarrow> cy_cycles q = []"
    for xs q
    by (induction xs arbitrary: q)
      (auto simp del: cycle_visit.simps dest: cycle_visit_cycles_mono(1))
  have "cy_cycles ?mid = []" using Cons.prems(1) mono by simp
  then obtain order' where "visit_order (graph_names g) (graph_deps g) s [] (cy_permanent st, order)
      = Inr (cy_permanent ?mid, order')"
    using cycle_visit_simulates(1) [of g s bt_empty "[]" st order] Cons.prems by auto
  moreover have "\<exists>st'. visit_all (graph_names g) (graph_deps g) ss (cy_permanent ?mid, order') = Inr st'"
    using Cons.IH [of ?mid order'] Cons.prems cycle_visit_unseen(1) by simp
  ultimately show ?case by simp
qed simp

lemma cycle_fold_sound:
  "c \<in> set (cy_cycles (fold (\<lambda>s. cycle_visit g s bt_empty []) ss st))
   \<Longrightarrow> (\<And>s. s \<in> set ss \<Longrightarrow> bt_get g s \<noteq> None)
   \<Longrightarrow> (\<And>c. c \<in> set (cy_cycles st) \<Longrightarrow> dependency_cycle (graph_names g) (graph_deps g) c)
   \<Longrightarrow> dependency_cycle (graph_names g) (graph_deps g) c"
proof (induction ss arbitrary: st)
  case (Cons s ss)
  have "dependency_cycle (graph_names g) (graph_deps g) c'"
    if "c' \<in> set (cy_cycles (cycle_visit g s bt_empty [] st))" for c'
    using cycle_visit_sound(1) [of bt_empty "[]" g s st c'] Cons.prems(2,3) that by simp
  then show ?case using Cons.IH [of "cycle_visit g s bt_empty [] st"] Cons.prems by simp
qed simp

lemma find_cycles_sound:
  "c \<in> set (find_cycles g) \<Longrightarrow> dependency_cycle (graph_names g) (graph_deps g) c"
  unfolding find_cycles_def by (rule cycle_fold_sound) (auto simp: set_bt_keys)

lemma sorted_graph_names: "sorted_list_of_fset (graph_names g) = bt_keys g"
proof -
  have "sorted_list_of_set (set (bt_keys g)) = bt_keys g"
    using sorted_bt_keys [of g] by (simp add: strict_sorted_iff sorted_list_of_set.idem_if_sorted_distinct)
  then show ?thesis
    by (simp add: graph_names_def sorted_list_of_fset.rep_eq fset_of_list.rep_eq)
qed

lemma find_cycles_Nil_iff:
  "find_cycles g = [] \<longleftrightarrow> (\<nexists>c. dependency_cycle (graph_names g) (graph_deps g) c)"
proof
  assume none: "find_cycles g = []"
  have "\<exists>st'. visit_all (graph_names g) (graph_deps g) (bt_keys g) ({||}, []) = Inr st'"
    using cycle_fold_simulates [of g "bt_keys g"
        "\<lparr>cy_permanent = {||}, cy_seen = {||}, cy_cycles = []\<rparr>" "[]"] none
    by (auto simp: find_cycles_def unseen_def set_bt_keys)
  then have "\<exists>order. dependency_start_order (graph_names g) (graph_deps g) = Inr order"
    by (auto simp: dependency_start_order_def sorted_graph_names)
  then show "\<nexists>c. dependency_cycle (graph_names g) (graph_deps g) c"
    by (simp add: start_order_total)
next
  assume "\<nexists>c. dependency_cycle (graph_names g) (graph_deps g) c"
  then have "c \<notin> set (find_cycles g)" for c using find_cycles_sound by blast
  then show "find_cycles g = []" by (cases "find_cycles g") auto
qed

section \<open>Validated sets\<close>

lemma index_step_eq:
  "bt_get m (sd_name d) = Some e \<Longrightarrow> index_step d (m, D) = (m, finsert (sd_name d) D)"
  "bt_get m (sd_name d) = None \<Longrightarrow> index_step d (m, D) = (bt_insert (sd_name d) d m, D)"
  by (simp_all add: index_step_def bt_contains_key_def)

lemma fold_index_step:
  "fold index_step ds (m, D) = (m', {||}) \<Longrightarrow>
   D = {||} \<and> distinct (map sd_name ds) \<and> (\<forall>d\<in>set ds. bt_get m (sd_name d) = None)
   \<and> (\<forall>n d. bt_get m' n = Some d \<longleftrightarrow> bt_get m n = Some d \<or> d \<in> set ds \<and> sd_name d = n)"
proof (induction ds arbitrary: m D)
  case Nil
  then show ?case by simp
next
  case (Cons d ds)
  show ?case
  proof (cases "bt_get m (sd_name d)")
    case (Some e)
    then have "fold index_step ds (m, finsert (sd_name d) D) = (m', {||})"
      using Cons.prems by (simp add: index_step_eq)
    then show ?thesis using Cons.IH by blast
  next
    case None
    then have "fold index_step ds (bt_insert (sd_name d) d m, D) = (m', {||})"
      using Cons.prems by (simp add: index_step_eq)
    note ih = Cons.IH [OF this]
    then have D: "D = {||}" and dist: "distinct (map sd_name ds)"
      and get: "bt_get m' n = Some e \<longleftrightarrow>
        bt_get (bt_insert (sd_name d) d m) n = Some e \<or> e \<in> set ds \<and> sd_name e = n" for n e
      by blast+
    have other: "sd_name e \<noteq> sd_name d \<and> bt_get m (sd_name e) = None" if "e \<in> set ds" for e
      using ih that by (simp split: if_splits) fastforce
    have "distinct (map sd_name (d # ds))"
      using dist other by force
    moreover have "bt_get m' n = Some e \<longleftrightarrow> bt_get m n = Some e \<or> e \<in> set (d # ds) \<and> sd_name e = n"
      for n e
      using get [of n e] None by (cases "n = sd_name d") auto
    ultimately show ?thesis using D other None by simp
  qed
qed

lemma map_Nil_fset: "map f (sorted_list_of_fset A) = [] \<longleftrightarrow> A = {||}"
  by (simp add: sorted_list_of_fset.rep_eq) (metis bot_fset.rep_eq fset_inject)

lemma validate_Inr:
  assumes "validate_service_graph tz_get definitions = Inr v"
  defines "ds \<equiv> synthesise_role_dependencies definitions"
  defines "g \<equiv> fst (index_definitions ds)"
  shows "distinct (map sd_name ds)" "bt_get g n = Some d \<longleftrightarrow> d \<in> set ds \<and> sd_name d = n"
    "invalid_service_name_findings ds = []" "missing_hard_dependencies ds g = []"
    "conflicting_boot_services g = []" "health_check_restart_window_findings ds = []"
    "unschedulable_health_check_findings ds = []" "invalid_timer_schedule_findings tz_get ds = []"
    "find_cycles g = []" "gv_service_count v = length (bt_keys g)"
proof -
  obtain m D where ix: "fold index_step ds (bt_empty, {||}) = (m, D)"
    by (cases "fold index_step ds (bt_empty, {||})")
  have g: "g = m" using ix by (simp add: g_def index_definitions_def)
  have all: "invalid_service_name_findings ds = [] \<and> map DuplicateService (sorted_list_of_fset D) = []
      \<and> missing_hard_dependencies ds g = [] \<and> conflicting_boot_services g = []
      \<and> health_check_restart_window_findings ds = [] \<and> unschedulable_health_check_findings ds = []
      \<and> invalid_timer_schedule_findings tz_get ds = [] \<and> cycle_findings g = []
      \<and> gv_service_count v = length (bt_keys g)"
    using assms(1) ix g
    by (simp add: validate_service_graph_def index_definitions_def ds_def [symmetric] Let_def
        split: if_splits) (elim conjE, hypsubst, simp)
  then have "D = {||}" unfolding map_Nil_fset by (elim conjE)
  then have "fold index_step ds (bt_empty, {||}) = (m, {||})" using ix by simp
  from fold_index_step [OF this] show "distinct (map sd_name ds)"
    "bt_get g n = Some d \<longleftrightarrow> d \<in> set ds \<and> sd_name d = n"
    by (simp_all add: g)
  show "invalid_service_name_findings ds = []" "missing_hard_dependencies ds g = []"
    "conflicting_boot_services g = []" "health_check_restart_window_findings ds = []"
    "unschedulable_health_check_findings ds = []" "invalid_timer_schedule_findings tz_get ds = []"
    "find_cycles g = []" "gv_service_count v = length (bt_keys g)"
    using all by (simp_all add: cycle_findings_def)
qed

lemma dependency_cycle_mono:
  "dependency_cycle S deps c \<Longrightarrow> fset S \<subseteq> fset T \<Longrightarrow> dependency_cycle T deps c"
  by (auto simp: dependency_cycle_def)

lemma flap_window_nat:
  assumes "\<not> health_check_failure_window_secs d \<ge> sd_restart_window_secs d"
  shows "unat (sd_health_check_retries d) * unat (sd_health_check_interval_secs d)
    < unat (sd_restart_window_secs d)"
proof -
  have "unat (ucast (sd_health_check_retries d) :: u64) = unat (sd_health_check_retries d)"
    using unat_bounded [of "sd_health_check_retries d"]
    by (simp add: unsigned_ucast_eq take_bit_nat_eq_self)
  then show ?thesis
    using assms unat_bounded [of "sd_restart_window_secs d"]
    by (auto simp: health_check_failure_window_secs_def word_le_nat_alt unat_sat_mul not_le
        min_less_iff_disj)
qed

lemma no_boot_conflict:
  assumes "conflicting_boot_services g = []" "bt_get g n = Some d" "has_boot_trigger d"
    "t \<in> set (sd_conflicts d)" "bt_get g t = Some e"
  shows "\<not> has_boot_trigger e"
proof
  assume boot: "has_boot_trigger e"
  have "d \<in> set (bt_values g)" using assms(2) by (auto simp: set_bt_values ran_def)
  then have "conflict_pair (sd_name d) t \<in> set (boot_conflict_pairs g)"
    using assms boot by (auto simp: boot_conflict_pairs_def intro!: bexI [of _ d])
  moreover have "fset_of_list (boot_conflict_pairs g) = {||}"
    using assms(1) unfolding conflicting_boot_services_def map_Nil_fset .
  ultimately show False by (simp flip: fset_of_list_elem)
qed

section \<open>Properties\<close>

text \<open>
  C2: the cycle search is sound and complete: every list it reports is a real cycle of start-order
  dependencies between defined services, and it reports nothing exactly when there is none.
\<close>

theorem find_cycles_correct:
  "set (find_cycles g) \<subseteq> {c. dependency_cycle (graph_names g) (graph_deps g) c}
   \<and> (find_cycles g = [] \<longleftrightarrow> (\<nexists>c. dependency_cycle (graph_names g) (graph_deps g) c))"
  using find_cycles_sound find_cycles_Nil_iff by blast

text \<open>
  C8: a definition set that validates can be started: for every set of its services the
  dependency start order succeeds.
\<close>

theorem validated_graph_has_start_order:
  assumes "validate_service_graph tz_get definitions = Inr v"
    and "g = fst (index_definitions (synthesise_role_dependencies definitions))"
    and "startable |\<subseteq>| graph_names g"
  shows "\<exists>order. dependency_start_order startable (graph_deps g) = Inr order"
proof -
  have "find_cycles g = []" using validate_Inr(9) [OF assms(1)] assms(2) by simp
  then have "\<nexists>c. dependency_cycle (graph_names g) (graph_deps g) c"
    by (simp add: find_cycles_Nil_iff)
  then show ?thesis
    using dependency_cycle_mono [of startable "graph_deps g"] assms(3)
    by (auto simp: start_order_total less_eq_fset.rep_eq)
qed

theorem validated_graph_has_start_order_witness:
  "\<exists>order. dependency_start_order {|''a'', ''b''|}
     (graph_deps (fst (index_definitions (synthesise_role_dependencies
       [simple_system_boot ''a'' ''/a'',
        (simple_system_boot ''b'' ''/b'')\<lparr>sd_requires := [''a'']\<rparr>])))) = Inr order"
proof -
  let ?ds = "[simple_system_boot ''a'' ''/a'',
      (simple_system_boot ''b'' ''/b'')\<lparr>sd_requires := [''a'']\<rparr>]"
  have "is_ok (validate_service_graph (\<lambda>_. None) ?ds)"
    by code_simp
  then obtain v where v: "validate_service_graph (\<lambda>_. None) ?ds = Inr v"
    by (rule is_okE)
  let ?g = "fst (index_definitions (synthesise_role_dependencies ?ds))"
  have "bt_contains_key ?g ''a'' \<and> bt_contains_key ?g ''b''"
    by code_simp
  then have "{|''a'', ''b''|} |\<subseteq>| graph_names ?g"
    by (simp add: bt_contains_key_def)
  from validated_graph_has_start_order [OF v refl this] show ?thesis .
qed

text \<open>
  C21: in a definition set that validates, with the derived dependencies added, names are valid and
  distinct, every hard dependency names a service of the set, no two boot services conflict, a
  scheduled health check fails its budget within the restart window, no health check is left
  unscheduled, and every timer schedule parses.
\<close>

theorem validated_definitions_are_consistent:
  assumes "validate_service_graph tz_get definitions = Inr v"
    and "ds = synthesise_role_dependencies definitions" and "d \<in> set ds"
  shows "distinct (map sd_name ds) \<and> is_valid_service_name (sd_name d)
    \<and> dep_target ` set (hard_dependencies d) \<subseteq> sd_name ` set ds
    \<and> \<not> (has_boot_trigger d
         \<and> (\<exists>e. e \<in> set ds \<and> has_boot_trigger e \<and> sd_name e \<in> set (sd_conflicts d)))
    \<and> (health_check_is_scheduled d \<longrightarrow>
        unat (sd_health_check_retries d) * unat (sd_health_check_interval_secs d)
        < unat (sd_restart_window_secs d))
    \<and> (sd_health_check d \<noteq> None \<longrightarrow> sd_service_type d = Simple)
    \<and> (\<forall>schedule. TimerTrigger schedule \<in> set (sd_triggers d) \<longrightarrow>
        is_ok (parse_calendar_schedule tz_get schedule))"
proof -
  note v = validate_Inr [OF assms(1), folded assms(2)]
  let ?g = "fst (index_definitions ds)"
  have get: "bt_get ?g n = Some e \<longleftrightarrow> e \<in> set ds \<and> sd_name e = n" for n e by (rule v(2))
  have names: "is_valid_service_name (sd_name d)"
    using v(3) assms(3) by (auto simp: invalid_service_name_findings_def filter_empty_conv)
  have hard: "dep_target dep \<in> sd_name ` set ds" if "dep \<in> set (hard_dependencies d)" for dep
  proof -
    have "bt_contains_key ?g (dep_target dep)"
      using v(4) assms(3) that by (force simp: missing_hard_dependencies_def filter_empty_conv)
    then show ?thesis using get by (force simp: bt_contains_key_def)
  qed
  have conflict: "\<not> has_boot_trigger e"
    if "has_boot_trigger d" "e \<in> set ds" "sd_name e \<in> set (sd_conflicts d)" for e
    using no_boot_conflict [OF v(5), of "sd_name d" d "sd_name e" e] get that assms(3) by simp
  have flap: "unat (sd_health_check_retries d) * unat (sd_health_check_interval_secs d)
      < unat (sd_restart_window_secs d)" if "health_check_is_scheduled d"
    using v(6) assms(3) that
    by (intro flap_window_nat) (auto simp: health_check_restart_window_findings_def filter_empty_conv)
  have simple: "sd_service_type d = Simple" if "sd_health_check d \<noteq> None"
    using v(7) assms(3) that
    by (auto simp: unschedulable_health_check_findings_def filter_empty_conv
        health_check_is_scheduled_def)
  have timer: "is_ok (parse_calendar_schedule tz_get schedule)"
    if t: "TimerTrigger schedule \<in> set (sd_triggers d)" for schedule
  proof (rule ccontr)
    assume "\<not> is_ok (parse_calendar_schedule tz_get schedule)"
    then have "timer_schedule_finding tz_get d (TimerTrigger schedule) \<noteq> []"
      by (auto simp: timer_schedule_finding_def is_ok_def split: sum.splits)
    then show False
      using v(8) assms(3) t by (auto simp: invalid_timer_schedule_findings_def)
  qed
  show ?thesis using v(1) names hard conflict flap simple timer by blast
qed

theorem validated_definitions_are_consistent_witness:
  "\<exists>d ds. ds = synthesise_role_dependencies
      [simple_system_boot ''a'' ''/a'', (simple_system_boot ''b'' ''/b'')\<lparr>sd_requires := [''a'']\<rparr>]
    \<and> d \<in> set ds \<and> sd_requires d = [''a''] \<and> is_valid_service_name (sd_name d)
    \<and> dep_target ` set (hard_dependencies d) \<subseteq> sd_name ` set ds"
proof -
  let ?ds = "[simple_system_boot ''a'' ''/a'',
      (simple_system_boot ''b'' ''/b'')\<lparr>sd_requires := [''a'']\<rparr>]"
  have "is_ok (validate_service_graph (\<lambda>_. None) ?ds)"
    by code_simp
  then obtain v where v: "validate_service_graph (\<lambda>_. None) ?ds = Inr v"
    by (rule is_okE)
  have "list_ex (\<lambda>d. sd_requires d = [''a'']) (synthesise_role_dependencies ?ds)"
    by code_simp
  then obtain d where d: "d \<in> set (synthesise_role_dependencies ?ds)" "sd_requires d = [''a'']"
    by (auto simp: list_ex_iff)
  from validated_definitions_are_consistent [OF v refl d(1)] d show ?thesis by blast
qed

end
