(* ===== verification/Service_Reload.thy ===== *)
theory Service_Reload
  imports Service_Table
begin

text \<open>
  Reloading definitions (\<open>src/service/table/reload.rs\<close>): a registry snapshot applied to the
  table in three passes, over the definitions that decoded, over the names that are gone, and
  over the keys that would not decode. The passes carry the table and the summary.

  The locale \<open>keyed_step\<close> is the contract of one step of a pass: it changes one key, by a
  function of the old entry. The lemmas show that the three passes amount to one function on
  each entry, that a running service keeps its process, its runtime and its identity, and the
  invariant of every table reachable by reloads and table operations.
\<close>

section \<open>Definitions\<close>

record undecodable_service =
  ud_name :: string
  ud_field :: "string option"
  ud_message :: string

record service_reload_summary =
  rs_added :: "string list"
  rs_updated :: "string list"
  rs_restored :: "string list"
  rs_marked_removed :: "string list"
  rs_discarded :: "string list"
  rs_undecodable :: "string list"
  rs_deferred :: "string list"

definition summary_is_empty :: "service_reload_summary \<Rightarrow> bool" where
  "summary_is_empty s \<longleftrightarrow>
     rs_added s = [] \<and> rs_updated s = [] \<and> rs_restored s = [] \<and> rs_marked_removed s = []
     \<and> rs_discarded s = [] \<and> rs_undecodable s = [] \<and> rs_deferred s = []"

definition new_summary :: service_reload_summary where
  "new_summary =
     \<lparr>rs_added = [], rs_updated = [], rs_restored = [], rs_marked_removed = [],
      rs_discarded = [], rs_undecodable = [], rs_deferred = []\<rparr>"

definition undecodable_message :: "undecodable_service \<Rightarrow> string" where
  "undecodable_message service = ''Service definition failed to decode: '' @ ud_message service"

definition desired_definition :: "service_entry \<Rightarrow> service_definition" where
  "desired_definition entry =
     (case en_pending_definition entry of Some p \<Rightarrow> p | None \<Rightarrow> en_definition entry)"

definition runtime_effective_definition ::
  "service_definition \<Rightarrow> service_definition \<Rightarrow> service_definition" where
  "runtime_effective_definition current incoming =
     incoming\<lparr>
       sd_image_path := sd_image_path current,
       sd_service_type := sd_service_type current,
       sd_identity := sd_identity current,
       sd_required_privileges := sd_required_privileges current,
       sd_error_control := sd_error_control current,
       sd_remain_after_exit := sd_remain_after_exit current,
       sd_requires := sd_requires current,
       sd_wants := sd_wants current,
       sd_binds_to := sd_binds_to current,
       sd_conflicts := sd_conflicts current,
       sd_on_failure := sd_on_failure current,
       sd_conditions := sd_conditions current,
       sd_asserts := sd_asserts current,
       sd_triggers := sd_triggers current,
       sd_disabled := sd_disabled current,
       sd_compiled_in := sd_compiled_in current\<rparr>"

definition apply_reloaded_definition :: "service_definition \<Rightarrow> service_entry \<Rightarrow> service_entry" where
  "apply_reloaded_definition incoming entry =
     (if retains_definition_after_removal (rt_state (en_runtime entry)) then
        let effective = runtime_effective_definition (en_definition entry) incoming
        in entry\<lparr>en_pending_definition := (if effective = incoming then None else Some incoming),
                 en_definition := effective\<rparr>
      else entry\<lparr>en_definition := incoming, en_pending_definition := None\<rparr>)"

type_synonym reload_state = "service_table \<times> service_reload_summary"

text \<open>The first pass, for one definition that decoded.\<close>

definition apply_incoming ::
  "string fset \<Rightarrow> string \<times> service_definition \<Rightarrow> reload_state \<Rightarrow> reload_state" where
  "apply_incoming frozen = (\<lambda>(name, d) (t, s).
     (case bt_get t name of
        Some entry \<Rightarrow>
          if name |\<in>| frozen then
            (bt_insert name
               (entry\<lparr>en_pending_definition := (if en_definition entry = d then None else Some d)\<rparr>) t,
             if desired_definition entry \<noteq> d then s\<lparr>rs_deferred := rs_deferred s @ [name]\<rparr> else s)
          else
            let s1 = (if desired_definition entry \<noteq> d
                      then s\<lparr>rs_updated := rs_updated s @ [name]\<rparr> else s);
                s2 = (if en_definition_removed entry
                      then s1\<lparr>rs_restored := rs_restored s1 @ [name]\<rparr> else s1)
            in (bt_insert name
                  ((apply_reloaded_definition d entry)\<lparr>en_definition_removed := False\<rparr>) t, s2)
      | None \<Rightarrow>
          (bt_insert name (new_entry d name) t, s\<lparr>rs_added := rs_added s @ [name]\<rparr>)))"

text \<open>The second pass, for one name of the table.\<close>

definition withdraw ::
  "string fset \<Rightarrow> string fset \<Rightarrow> string fset \<Rightarrow> string \<Rightarrow> reload_state \<Rightarrow> reload_state" where
  "withdraw incoming_names undecodable_names frozen name = (\<lambda>(t, s).
     if name |\<in>| incoming_names \<or> name |\<in>| undecodable_names then (t, s)
     else if name |\<in>| frozen then (t, s\<lparr>rs_deferred := rs_deferred s @ [name]\<rparr>)
     else
       (case bt_get t name of
          None \<Rightarrow> (t, s)
        | Some entry \<Rightarrow>
            if sd_compiled_in (en_definition entry) then (t, s)
            else if retains_definition_after_removal (rt_state (en_runtime entry)) then
              (if en_definition_removed entry then (t, s)
               else (bt_insert name (entry\<lparr>en_definition_removed := True\<rparr>) t,
                     s\<lparr>rs_marked_removed := rs_marked_removed s @ [name]\<rparr>))
            else (bt_remove name t, s\<lparr>rs_discarded := rs_discarded s @ [name]\<rparr>)))"

definition apply_undecodable ::
  "undecodable_service \<Rightarrow> service_table \<Rightarrow> (service_table_error, unit, service_table) outcome" where
  "apply_undecodable service t =
     (case bt_get t (ud_name service) of
        Some entry \<Rightarrow>
          if retains_definition_after_removal (rt_state (en_runtime entry)) then
            (Inr (),
             bt_insert (ud_name service)
               (entry\<lparr>en_definition_removed := True, en_pending_definition := None\<rparr>) t)
          else insert_undecodable_placeholder (ud_name service) ValidationError
                 (undecodable_message service) t
      | None \<Rightarrow>
          insert_undecodable_placeholder (ud_name service) ValidationError
            (undecodable_message service) t)"

text \<open>The third pass; a failure leaves what the earlier steps did.\<close>

fun apply_undecodables ::
  "string fset \<Rightarrow> string fset \<Rightarrow> undecodable_service list \<Rightarrow> reload_state
   \<Rightarrow> (service_table_error, service_reload_summary, service_table) outcome" where
  "apply_undecodables incoming_names frozen [] (t, s) = (Inr s, t)"
| "apply_undecodables incoming_names frozen (service # services) (t, s) =
     (if ud_name service |\<in>| incoming_names then
        apply_undecodables incoming_names frozen services (t, s)
      else if ud_name service |\<in>| frozen \<and> bt_contains_key t (ud_name service) then
        apply_undecodables incoming_names frozen services
          (t, s\<lparr>rs_deferred := rs_deferred s @ [ud_name service]\<rparr>)
      else
        (case apply_undecodable service t of
           (Inl e, t') \<Rightarrow> (Inl e, t')
         | (Inr _, t') \<Rightarrow>
             apply_undecodables incoming_names frozen services
               (t', s\<lparr>rs_undecodable := rs_undecodable s @ [ud_name service]\<rparr>)))"

definition apply_definition_snapshot_with ::
  "service_definition list \<Rightarrow> undecodable_service list \<Rightarrow> string list \<Rightarrow> service_table
   \<Rightarrow> (service_table_error, service_reload_summary, service_table) outcome" where
  "apply_definition_snapshot_with definitions undecodable frozen t =
     (case map_definitions definitions of
        Inl e \<Rightarrow> (Inl e, t)
      | Inr incoming \<Rightarrow>
          let frozen_set = fset_of_list frozen;
              incoming_names = fset_of_list (bt_keys incoming);
              undecodable_names = fset_of_list (map ud_name undecodable);
              (t1, s1) = fold (apply_incoming frozen_set) (bt_entries incoming) (t, new_summary);
              st2 = fold (withdraw incoming_names undecodable_names frozen_set) (bt_keys t1) (t1, s1)
          in apply_undecodables incoming_names frozen_set undecodable st2)"

definition apply_definition_snapshot_with_undecodable ::
  "service_definition list \<Rightarrow> undecodable_service list \<Rightarrow> service_table
   \<Rightarrow> (service_table_error, service_reload_summary, service_table) outcome" where
  "apply_definition_snapshot_with_undecodable definitions undecodable =
     apply_definition_snapshot_with definitions undecodable []"

definition apply_definition_snapshot ::
  "service_definition list \<Rightarrow> service_table
   \<Rightarrow> (service_table_error, service_reload_summary, service_table) outcome" where
  "apply_definition_snapshot definitions =
     apply_definition_snapshot_with_undecodable definitions []"

definition definition_inheriting_service_security ::
  "service_table \<Rightarrow> string \<Rightarrow> service_security_descriptor option \<Rightarrow> service_definition option" where
  "definition_inheriting_service_security t service inherited =
     map_option
       (\<lambda>d. d\<lparr>sd_service_security := (case inherited of Some sd \<Rightarrow> sd | None \<Rightarrow> DefaultDescriptor)\<rparr>)
       (table_definition t service)"

definition compiled_in_definitions_absent_from ::
  "service_table \<Rightarrow> service_definition list \<Rightarrow> service_security_descriptor option
   \<Rightarrow> service_definition list" where
  "compiled_in_definitions_absent_from t snapshot inherited =
     List.map_filter (\<lambda>(name, _). definition_inheriting_service_security t name inherited)
       (filter (\<lambda>(name, entry).
            sd_compiled_in (en_definition entry) \<and> \<not> (\<exists>d\<in>set snapshot. sd_name d = name))
          (bt_entries t))"

section \<open>What a reload makes of one entry\<close>

definition incoming_entry ::
  "string fset \<Rightarrow> string \<times> service_definition \<Rightarrow> service_entry option \<Rightarrow> service_entry option" where
  "incoming_entry frozen nd old =
     Some (case old of
        None \<Rightarrow> new_entry (snd nd) (fst nd)
      | Some e \<Rightarrow>
          if fst nd |\<in>| frozen
          then e\<lparr>en_pending_definition := (if en_definition e = snd nd then None else Some (snd nd))\<rparr>
          else (apply_reloaded_definition (snd nd) e)\<lparr>en_definition_removed := False\<rparr>)"

definition withdrawn_entry :: "service_entry \<Rightarrow> service_entry option" where
  "withdrawn_entry e =
     (if sd_compiled_in (en_definition e) then Some e
      else if retains_definition_after_removal (rt_state (en_runtime e))
      then Some (e\<lparr>en_definition_removed := True\<rparr>) else None)"

definition placeholder_entry :: "undecodable_service \<Rightarrow> service_entry" where
  "placeholder_entry u =
     \<lparr>en_definition = undecodable_placeholder (ud_name u) (undecodable_message u),
      en_pending_definition = None,
      en_runtime = snd (transition \<lparr>tr_to = Failed, tr_cause = ValidationError\<rparr>
        (runtime_inactive (ud_name u))),
      en_definition_removed = True\<rparr>"

definition undecodable_entry :: "undecodable_service \<Rightarrow> service_entry option \<Rightarrow> service_entry" where
  "undecodable_entry u old =
     (case old of
        Some e \<Rightarrow>
          if retains_definition_after_removal (rt_state (en_runtime e))
          then e\<lparr>en_definition_removed := True, en_pending_definition := None\<rparr>
          else placeholder_entry u
      | None \<Rightarrow> placeholder_entry u)"

text \<open>
  The reference: what a reload makes of the entry of a name, from the definition that decoded
  under it, the undecodable key of that name, whether the name is frozen, and the old entry.
\<close>

definition reloaded_entry ::
  "string fset \<Rightarrow> string \<Rightarrow> service_definition option \<Rightarrow> undecodable_service option
   \<Rightarrow> service_entry option \<Rightarrow> service_entry option" where
  "reloaded_entry frozen name incoming undecodable old =
     (case (incoming, undecodable) of
        (Some d, _) \<Rightarrow> incoming_entry frozen (name, d) old
      | (None, Some u) \<Rightarrow>
          if name |\<in>| frozen \<and> old \<noteq> None then old else Some (undecodable_entry u old)
      | (None, None) \<Rightarrow>
          (case old of
             None \<Rightarrow> None
           | Some e \<Rightarrow> if name |\<in>| frozen then Some e else withdrawn_entry e))"

section \<open>Passes\<close>

locale keyed_step =
  fixes step :: "'x \<Rightarrow> service_table \<times> 's \<Rightarrow> service_table \<times> 's"
    and key :: "'x \<Rightarrow> string"
    and effect :: "'x \<Rightarrow> service_entry option \<Rightarrow> service_entry option"
  assumes step_get: "bt_get (fst (step x st)) name =
    (if name = key x then effect x (bt_get (fst st) name) else bt_get (fst st) name)"
begin

lemma pass_get:
  "distinct (map key xs) \<Longrightarrow>
   bt_get (fst (fold step xs st)) name =
     (case find (\<lambda>x. key x = name) xs of
        None \<Rightarrow> bt_get (fst st) name
      | Some x \<Rightarrow> effect x (bt_get (fst st) name))"
proof (induction xs arbitrary: st)
  case (Cons x xs)
  have "find (\<lambda>y. key y = name) xs = None" if "key x = name"
    using Cons.prems that by (auto simp: find_None_iff image_iff)
  then show ?case
    using Cons.IH [of "step x st"] Cons.prems
    by (cases "name = key x") (auto simp: step_get split: option.split)
qed simp

end

interpretation incoming_pass: keyed_step "apply_incoming frozen" fst "incoming_entry frozen" for frozen
  by unfold_locales
    (auto simp: apply_incoming_def incoming_entry_def Let_def split: prod.split option.split)

interpretation withdraw_pass: keyed_step "withdraw inc und frozen" "\<lambda>name. name"
  "\<lambda>name old. if name |\<in>| inc \<or> name |\<in>| und \<or> name |\<in>| frozen then old
     else Option.bind old withdrawn_entry" for inc und frozen
  by unfold_locales
    (auto simp: withdraw_def withdrawn_entry_def Let_def split: prod.split option.split)

text \<open>The third pass never fails, so it is a pass of its own.\<close>

definition undecodable_step ::
  "string fset \<Rightarrow> string fset \<Rightarrow> undecodable_service \<Rightarrow> reload_state \<Rightarrow> reload_state" where
  "undecodable_step incoming_names frozen u = (\<lambda>(t, s).
     if ud_name u |\<in>| incoming_names then (t, s)
     else if ud_name u |\<in>| frozen \<and> bt_contains_key t (ud_name u)
     then (t, s\<lparr>rs_deferred := rs_deferred s @ [ud_name u]\<rparr>)
     else (bt_insert (ud_name u) (undecodable_entry u (bt_get t (ud_name u))) t,
           s\<lparr>rs_undecodable := rs_undecodable s @ [ud_name u]\<rparr>))"

interpretation undecodable_pass: keyed_step "undecodable_step inc frozen" ud_name
  "\<lambda>u old. if ud_name u |\<in>| inc \<or> ud_name u |\<in>| frozen \<and> old \<noteq> None then old
     else Some (undecodable_entry u old)" for inc frozen
  by unfold_locales (auto simp: undecodable_step_def bt_contains_key_def split: prod.split)

lemma insert_placeholder_ok:
  "insert_undecodable_placeholder (ud_name u) ValidationError (undecodable_message u) t
     = (Inr (), bt_insert (ud_name u) (placeholder_entry u) t)"
  by (simp add: insert_undecodable_placeholder_def placeholder_entry_def transition_def Let_def
      runtime_inactive_def is_allowed_transition_def)

lemma apply_undecodable_ok:
  "apply_undecodable u t
     = (Inr (), bt_insert (ud_name u) (undecodable_entry u (bt_get t (ud_name u))) t)"
  by (simp add: apply_undecodable_def undecodable_entry_def insert_placeholder_ok split: option.split)

lemma apply_undecodables_fold:
  "apply_undecodables inc frozen us st
     = (Inr (snd (fold (undecodable_step inc frozen) us st)), fst (fold (undecodable_step inc frozen) us st))"
  by (induction inc frozen us st rule: apply_undecodables.induct)
    (simp_all add: undecodable_step_def apply_undecodable_ok)

lemma find_entries: "find (\<lambda>e. fst e = name) (bt_entries m) = map_option (Pair name) (bt_get m name)"
  for m :: "('a::linorder, 'b) btmap"
proof -
  have "find (\<lambda>e. fst e = name) xs = map_option (Pair name) (map_of xs name)" for xs :: "('a \<times> 'b) list"
    by (induction xs) auto
  then show ?thesis by (simp add: bt_get_def)
qed

lemma find_same: "find (\<lambda>x. x = name) xs = (if name \<in> set xs then Some name else None)"
  by (induction xs) auto

lemma apply_definition_snapshot_get:
  assumes "map_definitions ds = Inr incoming" and "distinct (map ud_name undecodable)"
  shows "\<exists>s t'. apply_definition_snapshot_with ds undecodable frozen t = (Inr s, t') \<and>
    (\<forall>name. bt_get t' name =
       reloaded_entry (fset_of_list frozen) name (bt_get incoming name)
         (find (\<lambda>u. ud_name u = name) undecodable) (bt_get t name))"
proof -
  define f where "f = fset_of_list frozen"
  define inc where "inc = fset_of_list (bt_keys incoming)"
  define und where "und = fset_of_list (map ud_name undecodable)"
  define st1 where "st1 = fold (apply_incoming f) (bt_entries incoming) (t, new_summary)"
  define st2 where "st2 = fold (withdraw inc und f) (bt_keys (fst st1)) st1"
  define st3 where "st3 = fold (undecodable_step inc f) undecodable st2"
  let ?find = "\<lambda>name. find (\<lambda>u. ud_name u = name) undecodable"
  have result: "apply_definition_snapshot_with ds undecodable frozen t = (Inr (snd st3), fst st3)"
    unfolding apply_definition_snapshot_with_def assms(1) sum.case Let_def f_def [symmetric]
      inc_def [symmetric] und_def [symmetric] st1_def [symmetric] apply_undecodables_fold
    by (cases st1) (simp add: st2_def st3_def)
  have get1: "bt_get (fst st1) name = (case bt_get incoming name of
      None \<Rightarrow> bt_get t name | Some d \<Rightarrow> incoming_entry f (name, d) (bt_get t name))" for name
    using incoming_pass.pass_get [OF bt_entries_distinct, of f incoming "(t, new_summary)" name]
    by (simp add: find_entries st1_def split: option.splits)
  have inc_iff: "name |\<in>| inc \<longleftrightarrow> bt_get incoming name \<noteq> None" for name
    by (simp add: inc_def fset_of_list_elem set_bt_keys dom_def)
  have und_iff: "name |\<in>| und \<longleftrightarrow> ?find name \<noteq> None" for name
    by (auto simp: und_def fset_of_list_elem find_None_iff image_iff)
  have get2: "bt_get (fst st2) name = (if name |\<in>| inc \<or> name |\<in>| und \<or> name |\<in>| f
      then bt_get (fst st1) name else Option.bind (bt_get (fst st1) name) withdrawn_entry)" for name
    using withdraw_pass.pass_get [of "bt_keys (fst st1)" inc und f st1 name]
    by (simp add: st2_def find_same set_bt_keys dom_def)
  have found: "?find name = Some u \<Longrightarrow> ud_name u = name" for name u
    by (auto simp: find_Some_iff)
  have get3: "bt_get (fst st3) name = (case ?find name of
      None \<Rightarrow> bt_get (fst st2) name
    | Some u \<Rightarrow> if name |\<in>| inc \<or> name |\<in>| f \<and> bt_get (fst st2) name \<noteq> None
        then bt_get (fst st2) name else Some (undecodable_entry u (bt_get (fst st2) name)))" for name
  proof (cases "?find name")
    case (Some u)
    then show ?thesis
      using undecodable_pass.pass_get [OF assms(2), of inc f st2 name] found [OF Some]
      by (simp add: st3_def)
  qed (use undecodable_pass.pass_get [OF assms(2), of inc f st2 name] in \<open>simp add: st3_def\<close>)
  have "bt_get (fst st3) name = reloaded_entry f name (bt_get incoming name) (?find name) (bt_get t name)"
    for name
    by (cases "bt_get incoming name"; cases "?find name"; cases "bt_get t name")
      (simp_all add: get3 get2 get1 inc_iff und_iff reloaded_entry_def incoming_entry_def)
  with result show ?thesis unfolding f_def by blast
qed

lemma apply_definition_snapshot_Inl:
  assumes "map_definitions ds = Inl e"
  shows "apply_definition_snapshot_with ds undecodable frozen t = (Inl e, t)"
  by (simp add: apply_definition_snapshot_with_def assms)

lemma running_entry_kept:
  assumes "apply_definition_snapshot_with ds undecodable frozen t = (res, t')"
    and "distinct (map ud_name undecodable)"
    and "bt_get t name = Some e" and "retains_definition_after_removal (rt_state (en_runtime e))"
  shows "\<exists>e'. bt_get t' name = Some e' \<and> en_runtime e' = en_runtime e \<and>
    sd_image_path (en_definition e') = sd_image_path (en_definition e) \<and>
    sd_service_type (en_definition e') = sd_service_type (en_definition e) \<and>
    sd_identity (en_definition e') = sd_identity (en_definition e) \<and>
    sd_required_privileges (en_definition e') = sd_required_privileges (en_definition e) \<and>
    sd_error_control (en_definition e') = sd_error_control (en_definition e) \<and>
    sd_requires (en_definition e') = sd_requires (en_definition e) \<and>
    sd_binds_to (en_definition e') = sd_binds_to (en_definition e) \<and>
    sd_compiled_in (en_definition e') = sd_compiled_in (en_definition e)"
proof (cases "map_definitions ds")
  case (Inl err)
  then show ?thesis
    using assms(1,3) apply_definition_snapshot_Inl [OF Inl, of undecodable frozen t] by auto
next
  case (Inr incoming)
  from apply_definition_snapshot_get [OF Inr assms(2), of frozen t] assms(1)
  have get: "bt_get t' name = reloaded_entry (fset_of_list frozen) name (bt_get incoming name)
      (find (\<lambda>u. ud_name u = name) undecodable) (Some e)"
    using assms(3) by auto
  show ?thesis
    unfolding get using assms(4)
    by (cases "bt_get incoming name"; cases "find (\<lambda>u. ud_name u = name) undecodable")
      (simp_all add: reloaded_entry_def incoming_entry_def apply_reloaded_definition_def
        runtime_effective_definition_def undecodable_entry_def withdrawn_entry_def Let_def)
qed

section \<open>Reachable tables\<close>

lemma map_definitions_loop_names:
  "map_definitions_loop ds m = Inr m' \<Longrightarrow> \<forall>name d. bt_get m name = Some d \<longrightarrow> sd_name d = name
   \<Longrightarrow> \<forall>name d. bt_get m' name = Some d \<longrightarrow> sd_name d = name"
proof (induction ds arbitrary: m)
  case (Cons d ds)
  from Cons.prems(1) have "map_definitions_loop ds (bt_insert (sd_name d) d m) = Inr m'"
    by (simp split: if_splits)
  moreover have "\<forall>name e. bt_get (bt_insert (sd_name d) d m) name = Some e \<longrightarrow> sd_name e = name"
  proof (intro allI impI)
    fix name e
    assume "bt_get (bt_insert (sd_name d) d m) name = Some e"
    then show "sd_name e = name"
      using Cons.prems(2) [rule_format, of name e] by (cases "name = sd_name d") simp_all
  qed
  ultimately show ?case by (rule Cons.IH)
qed simp

lemma map_definitions_name:
  "map_definitions ds = Inr m \<Longrightarrow> bt_get m name = Some d \<Longrightarrow> sd_name d = name"
  unfolding map_definitions_def using map_definitions_loop_names [of _ bt_empty] by simp

lemma placeholder_entry_wf: "entry_wf (ud_name u) (placeholder_entry u)"
  by (simp add: placeholder_entry_def entry_wf_def undecodable_placeholder_def simple_system_boot_def
      runtime_inactive_def transition_def Let_def is_allowed_transition_def)

lemma incoming_entry_wf:
  assumes "incoming_entry frozen (name, d) old = Some e" and "sd_name d = name"
    and "\<And>e. old = Some e \<Longrightarrow> entry_wf name e"
  shows "entry_wf name e"
proof (cases old)
  case None
  then show ?thesis using assms entry_wf_new by (auto simp: incoming_entry_def)
next
  case (Some e0)
  have "entry_wf name (e0\<lparr>en_pending_definition := (if en_definition e0 = d then None else Some d)\<rparr>)"
    using assms(3) [OF Some] assms(2) by (auto simp: entry_wf_def)
  moreover have "entry_wf name ((apply_reloaded_definition d e0)\<lparr>en_definition_removed := False\<rparr>)"
    using assms(3) [OF Some] assms(2)
    by (auto simp: entry_wf_def apply_reloaded_definition_def runtime_effective_definition_def Let_def)
  ultimately show ?thesis
    using assms(1) Some by (auto simp: incoming_entry_def split: if_splits)
qed

lemma withdrawn_entry_wf: "withdrawn_entry e = Some e' \<Longrightarrow> entry_wf name e \<Longrightarrow> entry_wf name e'"
  by (auto simp: withdrawn_entry_def entry_wf_def split: if_splits)

lemma undecodable_entry_wf:
  "(\<And>e. old = Some e \<Longrightarrow> entry_wf (ud_name u) e) \<Longrightarrow> entry_wf (ud_name u) (undecodable_entry u old)"
  using placeholder_entry_wf [of u]
  by (cases old) (auto simp: undecodable_entry_def entry_wf_def)

lemma reloaded_entry_wf:
  assumes "reloaded_entry frozen name inc und old = Some e"
    and "\<And>d. inc = Some d \<Longrightarrow> sd_name d = name" and "\<And>u. und = Some u \<Longrightarrow> ud_name u = name"
    and "\<And>e. old = Some e \<Longrightarrow> entry_wf name e"
  shows "entry_wf name e"
proof -
  show ?thesis
  proof (cases inc)
    case (Some d)
    then show ?thesis
      using assms incoming_entry_wf [of frozen name d old e] by (simp add: reloaded_entry_def)
  next
    case None
    note inc = this
    show ?thesis
    proof (cases und)
      case (Some u)
      then have "old = Some e \<or> e = undecodable_entry u old"
        using assms(1) inc by (simp add: reloaded_entry_def split: if_splits)
      then show ?thesis
        using assms(3,4) Some undecodable_entry_wf [of old u] by auto
    next
      case None
      then obtain e0 where "old = Some e0" "e = e0 \<or> withdrawn_entry e0 = Some e"
        using assms(1) inc by (cases old) (simp_all add: reloaded_entry_def split: if_splits)
      then show ?thesis using assms(4) withdrawn_entry_wf by auto
    qed
  qed
qed

lemma apply_definition_snapshot_wf:
  assumes "table_wf t" and "distinct (map ud_name undecodable)"
  shows "table_wf (snd (apply_definition_snapshot_with ds undecodable frozen t))"
proof (cases "map_definitions ds")
  case (Inl e)
  then show ?thesis using assms by (simp add: apply_definition_snapshot_Inl)
next
  case (Inr incoming)
  from apply_definition_snapshot_get [OF Inr assms(2), of frozen t]
  obtain s t' where t': "apply_definition_snapshot_with ds undecodable frozen t = (Inr s, t')"
    "\<And>name. bt_get t' name = reloaded_entry (fset_of_list frozen) name (bt_get incoming name)
         (find (\<lambda>u. ud_name u = name) undecodable) (bt_get t name)"
    by blast
  have "entry_wf name e" if "bt_get t' name = Some e" for name e
    using that unfolding t'(2)
  proof (rule reloaded_entry_wf)
    show "ud_name u = name" if "find (\<lambda>u. ud_name u = name) undecodable = Some u" for u
      using that by (auto simp: find_Some_iff)
  qed (use map_definitions_name [OF Inr] table_wfD [OF assms(1)] in auto)
  then show ?thesis by (simp add: t' table_wf_def)
qed

text \<open>Every operation of the table, on any arguments and whether it succeeds or fails.\<close>

inductive table_step :: "service_table \<Rightarrow> service_table \<Rightarrow> bool" where
  "table_step t (snd (transition_service service tr t))"
| "table_step t (snd (transition_service_to_restart_backoff service c until t))"
| "table_step t (snd (release_completed_oneshot_if_not_retained service t))"
| "table_step t (snd (insert_undecodable_placeholder service c message t))"
| "distinct (map ud_name undecodable)
   \<Longrightarrow> table_step t (snd (apply_definition_snapshot_with ds undecodable frozen t))"
| "table_step t (snd (record_leaked_cgroup service path kind at t))"
| "table_step t (snd (record_health_success service at t))"
| "table_step t (snd (record_health_failure service at t))"
| "table_step t (snd (update_status_text service status t))"
| "table_step t (snd (update_progress service progress t))"
| "table_step t (snd (update_progress_unit service unit' t))"
| "table_step t (snd (take_progress_event service at t))"
| "table_step t (snd (update_levels service levels t))"
| "table_step t (snd (clear_level service t))"
| "table_step t (snd (acknowledge_stopping service t))"
| "table_step t (snd (record_stopping_timeout service evidence t))"
| "table_step t (snd (set_pending_timer service t))"
| "table_step t (snd (clear_pending_timer service t))"
| "table_step t (snd (table_mark_dependent_satisfied_since service at t))"
| "table_step t (snd (consume_restart_backoff service t))"
| "table_step t (snd (reset_restart_failures_after_window service t))"

inductive table_reachable :: "service_table \<Rightarrow> bool" where
  reachable_new: "table_reachable table_new"
| reachable_boot: "from_boot_snapshot ds = Inr t \<Longrightarrow> table_reachable t"
| reachable_step: "table_reachable t \<Longrightarrow> table_step t t' \<Longrightarrow> table_reachable t'"

lemma table_step_wf: "table_step t t' \<Longrightarrow> table_wf t \<Longrightarrow> table_wf t'"
  by (induction rule: table_step.induct)
    (intro transition_service_wf transition_backoff_wf release_completed_wf insert_placeholder_wf
      apply_definition_snapshot_wf leak_op.keeps_table_wf health_success_op.keeps_table_wf health_failure_op.keeps_table_wf status_text_op.keeps_table_wf
      progress_op.keeps_table_wf progress_unit_op.keeps_table_wf progress_event_op.keeps_table_wf levels_op.keeps_table_wf
      clear_level_op.keeps_table_wf stopping_op.keeps_table_wf stopping_timeout_op.keeps_table_wf set_timer_op.keeps_table_wf
      clear_timer_op.keeps_table_wf satisfied_op.keeps_table_wf consume_op.keeps_table_wf window_op.keeps_table_wf; assumption)+

lemma fold_new_entries_wf:
  "table_wf t \<Longrightarrow> \<forall>(name, d)\<in>set xs. sd_name d = name
   \<Longrightarrow> table_wf (fold (\<lambda>(name, d). bt_insert name (new_entry d name)) xs t)"
  by (induction xs arbitrary: t) (auto intro!: table_wf_insert entry_wf_new)

lemma from_boot_snapshot_wf: "from_boot_snapshot ds = Inr t \<Longrightarrow> table_wf t"
  by (auto simp: from_boot_snapshot_def and_then_eq_Inr map_definitions_name
      simp flip: bt_get_entries_iff intro!: fold_new_entries_wf)

section \<open>Properties\<close>

text \<open>
  C9: on every table peinit can reach, from the boot snapshot through any sequence of transitions,
  bookkeeping operations and reloads, each entry is under its own name, a backoff deadline stands
  only in Backoff, a satisfied-since stamp only in a state that satisfies dependents, and a
  withdrawn definition is kept only for a service still to be drained or a failed placeholder.
\<close>

theorem reachable_tables_are_wf:
  assumes "table_reachable t"
  shows "table_wf t"
  using assms
proof induction
  case reachable_new
  then show ?case by (simp add: table_new_def)
next
  case (reachable_boot ds t)
  then show ?case by (rule from_boot_snapshot_wf)
next
  case (reachable_step t t')
  then show ?case by (blast intro: table_step_wf)
qed

theorem reachable_tables_are_wf_witness:
  "\<exists>t. from_boot_snapshot [simple_system_boot ''a'' ''/a''] = Inr t \<and> bt_get t ''a'' \<noteq> None
     \<and> table_wf (snd (transition_service ''a'' \<lparr>tr_to = Starting, tr_cause = ExplicitStart\<rparr> t))"
proof -
  have ok: "case from_boot_snapshot [simple_system_boot ''a'' ''/a''] of
      Inl _ \<Rightarrow> False | Inr t \<Rightarrow> bt_contains_key t ''a''"
    by code_simp
  then obtain t where t: "from_boot_snapshot [simple_system_boot ''a'' ''/a''] = Inr t"
    and a: "bt_get t ''a'' \<noteq> None"
    by (auto simp: bt_contains_key_def split: sum.splits)
  have "table_reachable (snd (transition_service ''a'' \<lparr>tr_to = Starting, tr_cause = ExplicitStart\<rparr> t))"
    using reachable_boot [OF t] by (rule reachable_step) (rule table_step.intros)
  from reachable_tables_are_wf [OF this] t a show ?thesis by blast
qed

text \<open>
  C10: the three passes of a reload amount to one function of each entry on its own: what becomes
  of a service depends only on its old entry, the definition and the undecodable key under its
  name, and whether it is frozen; and a reload whose definitions have distinct names succeeds.
\<close>

theorem reload_is_pointwise:
  assumes "map_definitions ds = Inr incoming" and "distinct (map ud_name undecodable)"
  shows "\<exists>s t'. apply_definition_snapshot_with ds undecodable frozen t = (Inr s, t') \<and>
    (\<forall>name. bt_get t' name =
       reloaded_entry (fset_of_list frozen) name (bt_get incoming name)
         (find (\<lambda>u. ud_name u = name) undecodable) (bt_get t name))"
  using assms by (rule apply_definition_snapshot_get)

theorem reload_is_pointwise_witness:
  "\<exists>s t'. apply_definition_snapshot_with [simple_system_boot ''a'' ''/a'']
       [\<lparr>ud_name = ''b'', ud_field = None, ud_message = ''bad''\<rparr>] [] bt_empty = (Inr s, t') \<and>
     bt_get t' ''b''
       = Some (placeholder_entry \<lparr>ud_name = ''b'', ud_field = None, ud_message = ''bad''\<rparr>)"
proof -
  have ok: "case map_definitions [simple_system_boot ''a'' ''/a''] of
      Inl _ \<Rightarrow> False | Inr m \<Rightarrow> \<not> bt_contains_key m ''b''"
    by code_simp
  then obtain m where m: "map_definitions [simple_system_boot ''a'' ''/a''] = Inr m"
    and b: "bt_get m ''b'' = None"
    by (auto simp: bt_contains_key_def split: sum.splits)
  from reload_is_pointwise [OF m, of "[\<lparr>ud_name = ''b'', ud_field = None, ud_message = ''bad''\<rparr>]" "[]" bt_empty]
  show ?thesis by (auto simp: b reloaded_entry_def undecodable_entry_def)
qed

text \<open>
  C24: a reload never loses a running service. Whatever the snapshot holds, as long as its
  undecodable keys are distinct, a service that is starting, active, reloading or stopping keeps its
  entry, its runtime, and of its definition the image path, the type, the identity, the required
  privileges, the error control, the \<open>requires\<close> and \<open>binds_to\<close> lists and the compiled-in mark.
\<close>

theorem reload_keeps_running_services:
  assumes "apply_definition_snapshot_with ds undecodable frozen t = (res, t')"
    and "distinct (map ud_name undecodable)"
    and "bt_get t name = Some e" and "retains_definition_after_removal (rt_state (en_runtime e))"
  shows "\<exists>e'. bt_get t' name = Some e' \<and> en_runtime e' = en_runtime e \<and>
    sd_image_path (en_definition e') = sd_image_path (en_definition e) \<and>
    sd_service_type (en_definition e') = sd_service_type (en_definition e) \<and>
    sd_identity (en_definition e') = sd_identity (en_definition e) \<and>
    sd_required_privileges (en_definition e') = sd_required_privileges (en_definition e) \<and>
    sd_error_control (en_definition e') = sd_error_control (en_definition e) \<and>
    sd_requires (en_definition e') = sd_requires (en_definition e) \<and>
    sd_binds_to (en_definition e') = sd_binds_to (en_definition e) \<and>
    sd_compiled_in (en_definition e') = sd_compiled_in (en_definition e)"
  using assms by (rule running_entry_kept)

theorem reload_keeps_running_services_witness:
  "\<exists>t t' e'. apply_definition_snapshot_with [] [] [] t = t' \<and> bt_get (snd t') ''a'' = Some e'
     \<and> rt_state (en_runtime e') = Active"
proof -
  let ?e = "(new_entry (simple_system_boot ''a'' ''/a'') ''a'')
    \<lparr>en_runtime := (runtime_inactive ''a'')\<lparr>rt_state := Active\<rparr>\<rparr>"
  let ?t = "bt_insert ''a'' ?e bt_empty"
  let ?r = "apply_definition_snapshot_with [] [] [] ?t"
  have "\<exists>e'. bt_get (snd ?r) ''a'' = Some e' \<and> en_runtime e' = en_runtime ?e"
    using reload_keeps_running_services [of "[]" "[]" "[]" ?t "fst ?r" "snd ?r" "''a''" ?e]
    by (auto simp: retains_definition_after_removal_def)
  then obtain e' where "bt_get (snd ?r) ''a'' = Some e'" "en_runtime e' = en_runtime ?e" by blast
  moreover from this have "rt_state (en_runtime e') = Active" by simp
  ultimately show ?thesis by blast
qed

text \<open>
  A registry definition under the name of a running compiled-in service strips the compiled-in
  mark. While the service runs its entry keeps the mark; with the first transition that drains the
  service the registry's definition replaces the compiled-in one; and the next snapshot without
  that key then drops the service from the table.
\<close>

theorem shadowing_strips_compiled_in:
  assumes "bt_get t name = Some e" and "retains_definition_after_removal (rt_state (en_runtime e))"
    and "sd_compiled_in (en_definition e)"
    and "map_definitions ds = Inr incoming" and "bt_get incoming name = Some d"
    and "\<not> sd_compiled_in d"
    and "apply_definition_snapshot ds t = (res, t1)"
    and "transition_service name tr t1 = (Inr x, t2)"
    and "\<not> retains_definition_after_removal (tr_to tr)"
    and "map_definitions ds' = Inr incoming'" and "bt_get incoming' name = None"
    and "apply_definition_snapshot ds' t2 = (res', t3)"
  shows "map_option en_definition (bt_get t1 name) = Some (runtime_effective_definition (en_definition e) d)
    \<and> map_option en_definition (bt_get t2 name) = Some d \<and> bt_get t3 name = None"
proof -
  have "runtime_effective_definition (en_definition e) d \<noteq> d"
    using assms(3,6) by (auto simp: runtime_effective_definition_def dest: arg_cong [of _ _ sd_compiled_in])
  with apply_definition_snapshot_get [OF assms(4), of "[]" "[]" t] assms(1-7)
  have t1: "bt_get t1 name = Some (e\<lparr>en_definition := runtime_effective_definition (en_definition e) d,
      en_pending_definition := Some d, en_definition_removed := False\<rparr>)"
    by (auto simp: apply_definition_snapshot_def apply_definition_snapshot_with_undecodable_def
        reloaded_entry_def incoming_entry_def apply_reloaded_definition_def Let_def)
  from assms(8) obtain e2 where t2: "bt_get t2 name = Some e2" "en_definition e2 = d"
    "rt_state (en_runtime e2) = tr_to tr"
  proof (rule transition_service_Inr)
    fix entry r
    assume *: "bt_get t1 name = Some entry" "transition tr (en_runtime entry) = (Inr (tt_event x), r)"
      "tt_discarded_definition_removed x =
        (en_definition_removed entry \<and> \<not> retains_definition_after_removal (tr_to tr))"
      "t2 = (if tt_discarded_definition_removed x then bt_remove name t1
       else bt_insert name
         (settled_entry entry (update_restart_metadata_after_transition (tt_event x) r)) t1)"
    show thesis
      using * t1 assms(9) transition_fields(2) [OF *(2)]
      by (intro that [of "settled_entry entry (update_restart_metadata_after_transition (tt_event x) r)"])
        (auto simp: settled_entry_def)
  qed
  from apply_definition_snapshot_get [OF assms(10), of "[]" "[]" t2] assms(6,9,11,12) t2
  have "bt_get t3 name = None"
    by (auto simp: apply_definition_snapshot_def apply_definition_snapshot_with_undecodable_def
        reloaded_entry_def withdrawn_entry_def)
  then show ?thesis using t1 t2 by simp
qed

theorem shadowing_strips_compiled_in_witness:
  "let e = (new_entry compiled_in_registryd REGISTRYD_NAME)
         \<lparr>en_runtime := (runtime_inactive REGISTRYD_NAME)\<lparr>rt_state := Active\<rparr>\<rparr>;
       d = simple_system_boot REGISTRYD_NAME REGISTRYD_IMAGE_PATH;
       t1 = snd (apply_definition_snapshot [d] (bt_insert REGISTRYD_NAME e bt_empty));
       t2 = snd (transition_service REGISTRYD_NAME \<lparr>tr_to = Failed, tr_cause = ProcessCrash\<rparr> t1)
   in sd_compiled_in (en_definition e) \<and> map_option (sd_compiled_in \<circ> en_definition) (bt_get t2 REGISTRYD_NAME) = Some False
    \<and> bt_get (snd (apply_definition_snapshot [] t2)) REGISTRYD_NAME = None"
proof -
  let ?e = "(new_entry compiled_in_registryd REGISTRYD_NAME)
         \<lparr>en_runtime := (runtime_inactive REGISTRYD_NAME)\<lparr>rt_state := Active\<rparr>\<rparr>"
  let ?d = "simple_system_boot REGISTRYD_NAME REGISTRYD_IMAGE_PATH"
  let ?t = "bt_insert REGISTRYD_NAME ?e bt_empty"
  let ?r = "apply_definition_snapshot [?d] ?t"
  let ?tr = "\<lparr>tr_to = Failed, tr_cause = ProcessCrash\<rparr>"
  let ?s = "transition_service REGISTRYD_NAME ?tr (snd ?r)"
  let ?q = "apply_definition_snapshot [] (snd ?s)"
  have ok: "is_ok (fst ?s)" by code_simp
  then obtain x where x: "?s = (Inr x, snd ?s)" by (metis is_okE prod.collapse)
  have c: "sd_compiled_in (en_definition ?e)" by code_simp
  have "case map_definitions [?d] of Inl _ \<Rightarrow> False
      | Inr m \<Rightarrow> map_option sd_compiled_in (bt_get m REGISTRYD_NAME) = Some False"
    by code_simp
  then obtain m d where m: "map_definitions [?d] = Inr m" "bt_get m REGISTRYD_NAME = Some d" "\<not> sd_compiled_in d"
    by (auto split: sum.splits)
  have n: "map_definitions [] = Inr bt_empty"
    by (simp add: map_definitions_def synthesise_role_dependencies_def resolve_role_references_def Let_def)
  have r: "?r = (fst ?r, snd ?r)" "?q = (fst ?q, snd ?q)" "bt_get ?t REGISTRYD_NAME = Some ?e"
    by simp_all
  have a: "retains_definition_after_removal (rt_state (en_runtime ?e))"
    "\<not> retains_definition_after_removal (tr_to ?tr)" "bt_get bt_empty REGISTRYD_NAME = None"
    by (simp_all add: retains_definition_after_removal_def)
  have "map_option en_definition (bt_get (snd ?s) REGISTRYD_NAME) = Some d
     \<and> bt_get (snd ?q) REGISTRYD_NAME = None"
    using shadowing_strips_compiled_in [OF r(3) a(1) c m r(1) x a(2) n a(3) r(2)] by blast
  with c m(3) show ?thesis by (simp only: Let_def) (auto simp: map_option_eq_Some)
qed
end
