(* ===== verification/Reload_Config.thy ===== *)
theory Reload_Config
  imports Service_Graph Service_Reload
begin

text \<open>
  The reload transaction (\<open>src/control/reload_config/transaction.rs\<close>). What the registry answers
  is a parameter: the schema version, the partial read of the definitions, and the other settings
  read in between, which the transaction only passes on; \<open>tz_get\<close> is the time zone database.
  The texts of the warnings are not modelled.

  The lemmas show that a refused reload leaves the table alone, that an accepted one validates
  what it applies, and that one undecodable key under a compiled-in name refuses every reload.
\<close>

record service_definitions_read =
  dr_definitions :: "service_definition list"
  dr_undecodable :: "undecodable_service list"
  dr_inherited_service_security :: "service_security_descriptor option"

datatype 'e reload_config_error =
    ReloadRegistry 'e
  | ReloadValidation service_graph_validation_failure
  | ReloadServiceTable service_table_error

record 'c reload_config_outcome =
  ro_summary :: service_reload_summary
  ro_services_schema_version :: u32
  ro_settings :: 'c
  ro_warnings :: "service_graph_warning list"
  ro_undecodable :: "undecodable_service list"

definition definitions_with_placeholders ::
  "service_definition list \<Rightarrow> undecodable_service list \<Rightarrow> service_definition list" where
  "definitions_with_placeholders definitions undecodable =
     definitions @
     map (\<lambda>service. undecodable_placeholder (ud_name service) (ud_message service))
       (filter (\<lambda>service. is_valid_service_name (ud_name service)) undecodable)"

definition reload_config_with_frozen ::
  "(string \<Rightarrow> string option) \<Rightarrow> 'e + u32 \<Rightarrow> 'e + service_definitions_read \<Rightarrow> 'e + 'c \<Rightarrow> string list
   \<Rightarrow> service_table \<Rightarrow> ('e reload_config_error, 'c reload_config_outcome, service_table) outcome"
where
  "reload_config_with_frozen tz_get schema_version read settings frozen services =
     (case schema_version of
        Inl e \<Rightarrow> (Inl (ReloadRegistry e), services)
      | Inr services_schema_version \<Rightarrow>
     (case read of
        Inl e \<Rightarrow> (Inl (ReloadRegistry e), services)
      | Inr definitions_read \<Rightarrow>
          let undecodable = dr_undecodable definitions_read;
              definitions = dr_definitions definitions_read
                @ compiled_in_definitions_absent_from services (dr_definitions definitions_read)
                    (dr_inherited_service_security definitions_read)
          in
     (case settings of
        Inl e \<Rightarrow> (Inl (ReloadRegistry e), services)
      | Inr setting_values \<Rightarrow>
     (case validate_service_graph tz_get (definitions_with_placeholders definitions undecodable) of
        Inl failure \<Rightarrow> (Inl (ReloadValidation failure), services)
      | Inr validation \<Rightarrow>
     (case apply_definition_snapshot_with definitions undecodable frozen services of
        (Inl e, _) \<Rightarrow> (Inl (ReloadServiceTable e), services)
      | (Inr summary, next_services) \<Rightarrow>
          (Inr \<lparr>ro_summary = summary, ro_services_schema_version = services_schema_version,
                ro_settings = setting_values, ro_warnings = gv_warnings validation,
                ro_undecodable = undecodable\<rparr>,
           next_services))))))"

definition reload_config ::
  "(string \<Rightarrow> string option) \<Rightarrow> 'e + u32 \<Rightarrow> 'e + service_definitions_read \<Rightarrow> 'e + 'c
   \<Rightarrow> service_table \<Rightarrow> ('e reload_config_error, 'c reload_config_outcome, service_table) outcome"
where
  "reload_config tz_get schema_version read settings =
     reload_config_with_frozen tz_get schema_version read settings []"

section \<open>Lemmas\<close>

lemma reload_config_Inl:
  "reload_config_with_frozen tz_get schema read settings frozen t = (Inl e, t') \<Longrightarrow> t' = t"
  by (auto simp: reload_config_with_frozen_def Let_def split: sum.splits prod.splits)

lemma reload_config_Inr:
  assumes "reload_config_with_frozen tz_get schema read settings frozen t = (Inr x, t')"
  obtains r v s ds where "read = Inr r"
    "ds = dr_definitions r @ compiled_in_definitions_absent_from t (dr_definitions r)
       (dr_inherited_service_security r)"
    "validate_service_graph tz_get (definitions_with_placeholders ds (dr_undecodable r)) = Inr v"
    "apply_definition_snapshot_with ds (dr_undecodable r) frozen t = (Inr s, t')"
  using assms by (auto simp: reload_config_with_frozen_def Let_def split: sum.splits prod.splits)

lemma synthesise_names: "map sd_name (synthesise_role_dependencies ds) = map sd_name ds"
  by (rule map_sans_fields(1) [OF synthesise_sans])

lemma validated_names_distinct:
  "validate_service_graph tz_get ds = Inr v \<Longrightarrow> distinct (map sd_name ds)"
  using validate_Inr(1) synthesise_names by metis

lemma placeholder_name [simp]: "sd_name (undecodable_placeholder name message) = name"
  by (simp add: undecodable_placeholder_def simple_system_boot_def)

lemma shared_not_distinct: "x \<in> f ` set xs \<Longrightarrow> x \<in> f ` set ys \<Longrightarrow> \<not> distinct (map f (xs @ ys))"
  by auto

lemma compiled_in_carried:
  assumes "bt_get t name = Some e" "sd_compiled_in (en_definition e)" "sd_name (en_definition e) = name"
    and "name \<notin> sd_name ` set snapshot"
  shows "name \<in> sd_name ` set (compiled_in_definitions_absent_from t snapshot inherited)"
proof -
  have "(name, e) \<in> set (bt_entries t)" using assms(1) by (simp add: bt_get_entries_iff)
  moreover have "\<exists>d. definition_inheriting_service_security t name inherited = Some d \<and> sd_name d = name"
    using assms(1,3) by (simp add: definition_inheriting_service_security_def table_definition_def)
  ultimately show ?thesis
    using assms(2,4)
    by (force simp: compiled_in_definitions_absent_from_def map_filter_def image_iff)
qed

section \<open>Properties\<close>

text \<open>
  C17: a reload is a transaction. Refused, for whatever reason, it leaves the table as it was.
  Accepted, the definitions it applied are those the registry gave, followed by the compiled-in ones
  it does not mention; with a stand-in for each undecodable key they passed the graph validation;
  they were applied to the table as one snapshot; and, when no key is undecodable twice, every
  running service kept its entry and its runtime.
\<close>

theorem reload_config_is_transaction:
  assumes "reload_config_with_frozen tz_get schema read settings frozen t = (res, t')"
  shows "case res of
      Inl e \<Rightarrow> t' = t
    | Inr x \<Rightarrow> \<exists>r v s ds. read = Inr r
        \<and> ds = dr_definitions r @ compiled_in_definitions_absent_from t (dr_definitions r)
             (dr_inherited_service_security r)
        \<and> apply_definition_snapshot_with ds (dr_undecodable r) frozen t = (Inr s, t')
        \<and> validate_service_graph tz_get (definitions_with_placeholders ds (dr_undecodable r)) = Inr v
        \<and> (distinct (map ud_name (dr_undecodable r)) \<longrightarrow>
            (\<forall>name e. bt_get t name = Some e \<longrightarrow>
               retains_definition_after_removal (rt_state (en_runtime e)) \<longrightarrow>
               (\<exists>e'. bt_get t' name = Some e' \<and> en_runtime e' = en_runtime e)))"
proof (cases res)
  case (Inl e)
  then show ?thesis using assms reload_config_Inl by auto
next
  case (Inr x)
  with assms have "reload_config_with_frozen tz_get schema read settings frozen t = (Inr x, t')" by simp
  then obtain r v s ds where r: "read = Inr r"
      and ds: "ds = dr_definitions r @ compiled_in_definitions_absent_from t (dr_definitions r)
        (dr_inherited_service_security r)"
      and v: "validate_service_graph tz_get (definitions_with_placeholders ds (dr_undecodable r)) = Inr v"
      and s: "apply_definition_snapshot_with ds (dr_undecodable r) frozen t = (Inr s, t')"
    by (rule reload_config_Inr)
  have kept: "\<exists>e'. bt_get t' name = Some e' \<and> en_runtime e' = en_runtime e"
    if "distinct (map ud_name (dr_undecodable r))" "bt_get t name = Some e"
      "retains_definition_after_removal (rt_state (en_runtime e))" for name e
    using running_entry_kept [OF s that] by blast
  from r ds s v show ?thesis
    unfolding Inr sum.case
    by (intro exI [of _ r] exI [of _ v] exI [of _ s] exI [of _ ds] conjI impI allI)
      (assumption | rule kept, assumption+)+
qed

definition running_a :: service_table where
  "running_a = bt_insert ''a'' ((new_entry (simple_system_boot ''a'' ''/a'') ''a'')
     \<lparr>en_runtime := (runtime_inactive ''a'')\<lparr>rt_state := Active\<rparr>\<rparr>) bt_empty"

theorem reload_config_is_transaction_witness:
  "\<exists>res e'. reload_config_with_frozen (\<lambda>_. None) (Inr 1 :: unit + u32)
       (Inr \<lparr>dr_definitions = [], dr_undecodable = [], dr_inherited_service_security = None\<rparr>) (Inr ()) [] running_a = res
     \<and> is_ok (fst res) \<and> bt_get (snd res) ''a'' = Some e' \<and> rt_state (en_runtime e') = Active"
proof -
  let ?read = "Inr \<lparr>dr_definitions = [], dr_undecodable = [], dr_inherited_service_security = None\<rparr>"
  let ?r = "reload_config_with_frozen (\<lambda>_. None) (Inr 1 :: unit + u32) ?read (Inr ()) [] running_a"
  have ok: "is_ok (fst ?r)" by code_simp
  obtain e where e: "bt_get running_a ''a'' = Some e" "rt_state (en_runtime e) = Active"
    by (simp add: running_a_def)
  obtain x where x: "?r = (Inr x, snd ?r)" using ok by (metis is_okE prod.collapse)
  have "\<exists>e'. bt_get (snd ?r) ''a'' = Some e' \<and> en_runtime e' = en_runtime e"
    using reload_config_is_transaction [OF x] e by (auto simp: retains_definition_after_removal_def)
  then show ?thesis using ok e(2) by auto
qed

text \<open>
  C40: an undecodable key under the name of a compiled-in service refuses the whole reload: the
  compiled-in definition is carried into the snapshot and the stand-in for the key is added
  beside it, so that validation meets the name twice.
\<close>

theorem undecodable_compiled_in_refuses_reload:
  assumes "bt_get t name = Some e" and "sd_compiled_in (en_definition e)"
    and "sd_name (en_definition e) = name" and "is_valid_service_name name"
    and "name \<notin> sd_name ` set (dr_definitions r)" and "name \<in> ud_name ` set (dr_undecodable r)"
  shows "\<exists>failure. reload_config_with_frozen tz_get (Inr version) (Inr r) (Inr settings) frozen t
    = (Inl (ReloadValidation failure), t)"
proof -
  let ?ds = "dr_definitions r @ compiled_in_definitions_absent_from t (dr_definitions r)
    (dr_inherited_service_security r)"
  define ph where "ph = map (\<lambda>service. undecodable_placeholder (ud_name service) (ud_message service))
    (filter (\<lambda>service. is_valid_service_name (ud_name service)) (dr_undecodable r))"
  have "name \<in> sd_name ` set ?ds"
    using compiled_in_carried [OF assms(1-3,5)] by auto
  moreover have "name \<in> sd_name ` set ph"
    using assms(4,6) by (auto simp: ph_def image_image)
  ultimately have "\<not> distinct (map sd_name (?ds @ ph))"
    by (rule shared_not_distinct)
  then have "\<not> distinct (map sd_name (definitions_with_placeholders ?ds (dr_undecodable r)))"
    by (simp only: definitions_with_placeholders_def ph_def not_False_eq_True)
  then have "validate_service_graph tz_get (definitions_with_placeholders ?ds (dr_undecodable r)) \<noteq> Inr v" for v
    using validated_names_distinct [of tz_get _ v] by metis
  then obtain failure where
    "validate_service_graph tz_get (definitions_with_placeholders ?ds (dr_undecodable r)) = Inl failure"
    by (metis sum.exhaust)
  then show ?thesis by (simp add: reload_config_with_frozen_def)
qed

theorem undecodable_compiled_in_refuses_reload_witness:
  "\<exists>t failure. reload_config_with_frozen (\<lambda>_. None) (Inr 1 :: unit + u32)
     (Inr \<lparr>dr_definitions = [simple_system_boot ''a'' ''/a''],
           dr_undecodable = [\<lparr>ud_name = REGISTRYD_NAME, ud_field = None, ud_message = ''bad''\<rparr>],
           dr_inherited_service_security = None\<rparr>) (Inr ()) [] t = (Inl (ReloadValidation failure), t)"
proof -
  let ?e = "new_entry compiled_in_registryd REGISTRYD_NAME"
  let ?t = "bt_insert REGISTRYD_NAME ?e bt_empty"
  have "is_valid_service_name REGISTRYD_NAME" by code_simp
  then have "\<exists>failure. reload_config_with_frozen (\<lambda>_. None) (Inr 1 :: unit + u32)
     (Inr \<lparr>dr_definitions = [simple_system_boot ''a'' ''/a''],
           dr_undecodable = [\<lparr>ud_name = REGISTRYD_NAME, ud_field = None, ud_message = ''bad''\<rparr>],
           dr_inherited_service_security = None\<rparr>) (Inr ()) [] ?t = (Inl (ReloadValidation failure), ?t)"
    by (intro undecodable_compiled_in_refuses_reload [of _ REGISTRYD_NAME ?e])
      (simp_all add: new_entry_def compiled_in_registryd_def simple_system_boot_def REGISTRYD_NAME_def)
  then show ?thesis by blast
qed

end
