(* ===== verification/Job.thy ===== *)
theory Job
  imports Cgroup
begin

text \<open>
  Jobs (\<open>src/job/model.rs\<close>, \<open>lifecycle.rs\<close>, \<open>event.rs\<close>, \<open>builder.rs\<close>, \<open>hook_builder.rs\<close>):
  the record of one process peinit runs, its transitions, the events it emits and the
  constructors for each kind of job. Record fields carry the prefix \<open>jb_\<close>, event fields \<open>je_\<close>.

  The locale \<open>job_transition\<close> is the contract of a transition: it is accepted in one state,
  refuses without changing the record, and leaves what identifies the job alone. The lemmas show
  the type invariant of records, \<open>job_wf\<close>, and that an ended job can always report its end.
\<close>

section \<open>Records\<close>

datatype job_type = ServiceMain | PreExecHook | PostExecHook | ReloadHook | HealthCheckJob | Submitted

datatype job_state = JobCreated | JobRunning | JobCompleted | JobFailed | JobAbandoned

definition job_is_terminal :: "job_state \<Rightarrow> bool" where
  "job_is_terminal s \<longleftrightarrow> s \<in> {JobCompleted, JobFailed, JobAbandoned}"

record process_handle =
  ph_pid :: u32
  ph_pidfd :: i32

datatype job_exit = ExitCode i32 | ExitSignal i32

record job_record =
  jb_id :: job_id
  jb_service :: "string option"
  jb_type :: job_type
  jb_hook_index :: "nat option"
  jb_state :: job_state
  jb_pid :: "u32 option"
  jb_pidfd :: "i32 option"
  jb_resolved_identity :: string
  jb_token_summary :: token_summary
  jb_required_privileges :: "string list"
  jb_image_path :: string
  jb_arguments :: "string list"
  jb_environment :: "service_environment_variable list"
  jb_working_directory :: string
  jb_limit_nofile :: "u64 option"
  jb_limit_core :: "u64 option"
  jb_oom_score_adj :: i32
  jb_created_at_ns :: u64
  jb_started_at_ns :: "u64 option"
  jb_ended_at_ns :: "u64 option"
  jb_exit_code :: "i32 option"
  jb_exit_signal :: "i32 option"
  jb_failure_cause :: "string option"
  jb_cgroup_id :: string
  jb_activation_generation :: u64
  jb_cgroup_generation :: u64
  jb_operation_id :: "operation_id option"
  jb_console_path :: "string option"

datatype job_transition_action = JobStart | JobComplete | FailBeforeStart | FailRunning | JobAbandon

datatype job_transition_error =
    JobInvalidTransition job_id job_state job_transition_action
  | JobStartBeforeCreation job_id u64 u64
  | EndBeforeCreation job_id u64 u64
  | EndBeforeStart job_id u64 u64

section \<open>Transitions\<close>

definition job_ensure_state ::
  "job_record \<Rightarrow> job_state \<Rightarrow> job_transition_action \<Rightarrow> job_transition_error + unit" where
  "job_ensure_state j expected action =
     (if jb_state j = expected then Inr ()
      else Inl (JobInvalidTransition (jb_id j) (jb_state j) action))"

definition ensure_ended_at :: "job_record \<Rightarrow> u64 \<Rightarrow> job_transition_error + unit" where
  "ensure_ended_at j ended_at_ns =
     (if ended_at_ns < jb_created_at_ns j
      then Inl (EndBeforeCreation (jb_id j) (jb_created_at_ns j) ended_at_ns)
      else case jb_started_at_ns j of
          Some started_at_ns \<Rightarrow>
            if ended_at_ns < started_at_ns
            then Inl (EndBeforeStart (jb_id j) started_at_ns ended_at_ns) else Inr ()
        | None \<Rightarrow> Inr ())"

text \<open>The guards of a transition, then its update; a refused one leaves the record.\<close>

definition guarded ::
  "(job_transition_error + unit) \<Rightarrow> job_record \<Rightarrow> job_record
   \<Rightarrow> (job_transition_error, unit, job_record) outcome" where
  "guarded check j' j = (case check of Inl e \<Rightarrow> (Inl e, j) | Inr _ \<Rightarrow> (Inr (), j'))"

definition job_start ::
  "process_handle \<Rightarrow> u64 \<Rightarrow> job_record \<Rightarrow> (job_transition_error, unit, job_record) outcome" where
  "job_start process started_at_ns j =
     guarded
       (and_then (job_ensure_state j JobCreated JobStart) (\<lambda>_.
          if started_at_ns < jb_created_at_ns j
          then Inl (JobStartBeforeCreation (jb_id j) (jb_created_at_ns j) started_at_ns) else Inr ()))
       (j\<lparr>jb_state := JobRunning, jb_pid := Some (ph_pid process), jb_pidfd := Some (ph_pidfd process),
          jb_started_at_ns := Some started_at_ns\<rparr>) j"

definition job_complete ::
  "u64 \<Rightarrow> i32 \<Rightarrow> job_record \<Rightarrow> (job_transition_error, unit, job_record) outcome" where
  "job_complete ended_at_ns exit_code j =
     guarded
       (and_then (job_ensure_state j JobRunning JobComplete) (\<lambda>_. ensure_ended_at j ended_at_ns))
       (j\<lparr>jb_state := JobCompleted, jb_ended_at_ns := Some ended_at_ns, jb_exit_code := Some exit_code\<rparr>) j"

definition job_fail_before_start ::
  "u64 \<Rightarrow> string \<Rightarrow> job_record \<Rightarrow> (job_transition_error, unit, job_record) outcome" where
  "job_fail_before_start ended_at_ns failure_cause j =
     guarded
       (and_then (job_ensure_state j JobCreated FailBeforeStart) (\<lambda>_. ensure_ended_at j ended_at_ns))
       (j\<lparr>jb_state := JobFailed, jb_ended_at_ns := Some ended_at_ns,
          jb_failure_cause := Some failure_cause\<rparr>) j"

definition job_fail_running ::
  "u64 \<Rightarrow> job_exit option \<Rightarrow> string \<Rightarrow> job_record
   \<Rightarrow> (job_transition_error, unit, job_record) outcome" where
  "job_fail_running ended_at_ns exit failure_cause j =
     guarded
       (and_then (job_ensure_state j JobRunning FailRunning) (\<lambda>_. ensure_ended_at j ended_at_ns))
       (let j1 = j\<lparr>jb_state := JobFailed, jb_ended_at_ns := Some ended_at_ns,
                   jb_failure_cause := Some failure_cause\<rparr>
        in case exit of
            Some (ExitCode code) \<Rightarrow> j1\<lparr>jb_exit_code := Some code\<rparr>
          | Some (ExitSignal signal) \<Rightarrow> j1\<lparr>jb_exit_signal := Some signal\<rparr>
          | None \<Rightarrow> j1) j"

definition job_abandon ::
  "u64 \<Rightarrow> string \<Rightarrow> job_record \<Rightarrow> (job_transition_error, unit, job_record) outcome" where
  "job_abandon ended_at_ns failure_cause j =
     guarded
       (and_then (job_ensure_state j JobRunning JobAbandon) (\<lambda>_. ensure_ended_at j ended_at_ns))
       (j\<lparr>jb_state := JobAbandoned, jb_ended_at_ns := Some ended_at_ns,
          jb_failure_cause := Some failure_cause\<rparr>) j"

definition job_duration_ns :: "job_record \<Rightarrow> u64 option" where
  "job_duration_ns j = map_option (\<lambda>ended_at_ns. ended_at_ns - jb_created_at_ns j) (jb_ended_at_ns j)"

section \<open>Store errors and events\<close>

datatype job_store_error =
    DuplicateJobId job_id
  | UnknownJob job_id
  | InvalidInitialState job_id job_state
  | ServiceMainAlreadyActive string job_id
  | InvalidJobEventRecord job_id job_state string
  | JobTransitionFailed job_transition_error

datatype job_event_detail =
    JobCreatedDetail string string "operation_id option"
  | JobStartedDetail u64 u32 string
  | JobEndedDetail u64 u64 "i32 option" "i32 option" "string option"

record job_event =
  je_job_id :: job_id
  je_service :: "string option"
  je_job_type :: job_type
  je_hook_index :: "nat option"
  je_state :: job_state
  je_pid :: "u32 option"
  je_pidfd :: "i32 option"
  je_resolved_identity :: string
  je_operation_id :: "operation_id option"
  je_token_summary :: token_summary
  je_image_path :: string
  je_arguments :: "string list"
  je_created_at_ns :: u64
  je_started_at_ns :: "u64 option"
  je_ended_at_ns :: "u64 option"
  je_exit_code :: "i32 option"
  je_exit_signal :: "i32 option"
  je_failure_cause :: "string option"
  je_cgroup_id :: string
  je_activation_generation :: u64
  je_cgroup_generation :: u64
  je_detail :: job_event_detail

definition job_event_new :: "job_record \<Rightarrow> job_event_detail \<Rightarrow> job_event" where
  "job_event_new j detail = \<lparr>
     je_job_id = jb_id j, je_service = jb_service j, je_job_type = jb_type j,
     je_hook_index = jb_hook_index j, je_state = jb_state j, je_pid = jb_pid j,
     je_pidfd = jb_pidfd j, je_resolved_identity = jb_resolved_identity j,
     je_operation_id = jb_operation_id j, je_token_summary = jb_token_summary j,
     je_image_path = jb_image_path j, je_arguments = jb_arguments j,
     je_created_at_ns = jb_created_at_ns j, je_started_at_ns = jb_started_at_ns j,
     je_ended_at_ns = jb_ended_at_ns j, je_exit_code = jb_exit_code j,
     je_exit_signal = jb_exit_signal j, je_failure_cause = jb_failure_cause j,
     je_cgroup_id = jb_cgroup_id j, je_activation_generation = jb_activation_generation j,
     je_cgroup_generation = jb_cgroup_generation j, je_detail = detail\<rparr>"

definition job_invalid_record :: "job_record \<Rightarrow> string \<Rightarrow> job_store_error" where
  "job_invalid_record j reason = InvalidJobEventRecord (jb_id j) (jb_state j) reason"

definition job_event_created :: "job_record \<Rightarrow> job_event" where
  "job_event_created j =
     job_event_new j (JobCreatedDetail (jb_image_path j) (jb_resolved_identity j) (jb_operation_id j))"

definition job_event_started :: "job_record \<Rightarrow> job_store_error + job_event" where
  "job_event_started j =
     and_then (ok_or (jb_started_at_ns j) (job_invalid_record j ''started job has start timestamp''))
       (\<lambda>started_at_ns.
     and_then (ok_or (jb_pid j) (job_invalid_record j ''started job has pid''))
       (\<lambda>pid. Inr (job_event_new j (JobStartedDetail started_at_ns pid (jb_cgroup_id j)))))"

definition job_event_ended :: "job_record \<Rightarrow> job_store_error + job_event" where
  "job_event_ended j =
     and_then (ok_or (jb_ended_at_ns j) (job_invalid_record j ''ended job has end timestamp''))
       (\<lambda>ended_at_ns.
     and_then (ok_or (job_duration_ns j) (job_invalid_record j ''ended job has duration''))
       (\<lambda>duration_ns.
          Inr (job_event_new j
            (JobEndedDetail ended_at_ns duration_ns (jb_exit_code j) (jb_exit_signal j)
               (jb_failure_cause j)))))"

section \<open>Constructors\<close>

record service_main_job_spec =
  ms_service :: service_definition
  ms_resolved_identity :: string
  ms_token_summary :: token_summary
  ms_activation_generation :: u64
  ms_cgroup_generation :: u64
  ms_operation_id :: operation_id
  ms_created_at_ns :: u64

record submitted_job_spec =
  ss_identity_user_sid :: string
  ss_token_summary :: token_summary
  ss_image_path :: string
  ss_arguments :: "string list"
  ss_environment :: "service_environment_variable list"
  ss_working_directory :: string
  ss_created_at_ns :: u64

record service_hook_job_spec =
  hk_service :: service_definition
  hk_argv :: "string list"
  hk_hook_index :: "nat option"
  hk_resolved_identity :: string
  hk_token_summary :: token_summary
  hk_activation_generation :: u64
  hk_cgroup_generation :: u64
  hk_operation_id :: operation_id
  hk_created_at_ns :: u64

record service_health_check_job_spec =
  hc_service :: service_definition
  hc_argv :: "string list"
  hc_resolved_identity :: string
  hc_token_summary :: token_summary
  hc_activation_generation :: u64
  hc_cgroup_generation :: u64
  hc_created_at_ns :: u64

datatype service_hook_job_build_error = EmptyArgv string job_type

fun oom_score_adj :: "error_control \<Rightarrow> i32" where
  "oom_score_adj Critical = - 1000"
| "oom_score_adj NormalControl = 0"

definition new_service_main :: "job_id \<Rightarrow> service_main_job_spec \<Rightarrow> job_record" where
  "new_service_main jid spec =
     (let service = ms_service spec in \<lparr>
     jb_id = jid, jb_service = Some (sd_name service), jb_type = ServiceMain, jb_hook_index = None,
     jb_state = JobCreated, jb_pid = None, jb_pidfd = None,
     jb_resolved_identity = ms_resolved_identity spec, jb_token_summary = ms_token_summary spec,
     jb_required_privileges = sd_required_privileges service,
     jb_image_path = sd_image_path service, jb_arguments = sd_arguments service,
     jb_environment = sd_environment service, jb_working_directory = sd_working_directory service,
     jb_limit_nofile = sd_limit_nofile service, jb_limit_core = sd_limit_core service,
     jb_oom_score_adj = oom_score_adj (sd_error_control service),
     jb_created_at_ns = ms_created_at_ns spec, jb_started_at_ns = None, jb_ended_at_ns = None,
     jb_exit_code = None, jb_exit_signal = None, jb_failure_cause = None,
     jb_cgroup_id = service_job_cgroup_path (sd_name service) (ms_cgroup_generation spec) MainCgroup,
     jb_activation_generation = ms_activation_generation spec,
     jb_cgroup_generation = ms_cgroup_generation spec,
     jb_operation_id = Some (ms_operation_id spec), jb_console_path = sd_console_path service\<rparr>)"

definition new_submitted :: "job_id \<Rightarrow> submitted_job_spec \<Rightarrow> job_record" where
  "new_submitted jid spec = \<lparr>
     jb_id = jid, jb_service = None, jb_type = Submitted, jb_hook_index = None,
     jb_state = JobCreated, jb_pid = None, jb_pidfd = None,
     jb_resolved_identity = ss_identity_user_sid spec, jb_token_summary = ss_token_summary spec,
     jb_required_privileges = [],
     jb_image_path = ss_image_path spec, jb_arguments = ss_arguments spec,
     jb_environment = ss_environment spec, jb_working_directory = ss_working_directory spec,
     jb_limit_nofile = None, jb_limit_core = None, jb_oom_score_adj = 0,
     jb_created_at_ns = ss_created_at_ns spec, jb_started_at_ns = None, jb_ended_at_ns = None,
     jb_exit_code = None, jb_exit_signal = None, jb_failure_cause = None,
     jb_cgroup_id = submitted_job_cgroup_path jid,
     jb_activation_generation = 0, jb_cgroup_generation = 0, jb_operation_id = None,
     jb_console_path = None\<rparr>"

definition new_service_hook_job ::
  "job_id \<Rightarrow> service_hook_job_spec \<Rightarrow> job_type \<Rightarrow> service_hook_job_build_error + job_record" where
  "new_service_hook_job jid spec kind =
     (let service = hk_service spec
      in case hk_argv spec of
        [] \<Rightarrow> Inl (EmptyArgv (sd_name service) kind)
      | image_path # arguments \<Rightarrow> Inr \<lparr>
     jb_id = jid, jb_service = Some (sd_name service), jb_type = kind,
     jb_hook_index = hk_hook_index spec,
     jb_state = JobCreated, jb_pid = None, jb_pidfd = None,
     jb_resolved_identity = hk_resolved_identity spec, jb_token_summary = hk_token_summary spec,
     jb_required_privileges = sd_required_privileges service,
     jb_image_path = image_path, jb_arguments = arguments,
     jb_environment = sd_environment service, jb_working_directory = sd_working_directory service,
     jb_limit_nofile = sd_limit_nofile service, jb_limit_core = sd_limit_core service,
     jb_oom_score_adj = 0,
     jb_created_at_ns = hk_created_at_ns spec, jb_started_at_ns = None, jb_ended_at_ns = None,
     jb_exit_code = None, jb_exit_signal = None, jb_failure_cause = None,
     jb_cgroup_id = service_job_cgroup_path (sd_name service) (hk_cgroup_generation spec) HooksCgroup,
     jb_activation_generation = hk_activation_generation spec,
     jb_cgroup_generation = hk_cgroup_generation spec,
     jb_operation_id = Some (hk_operation_id spec), jb_console_path = None\<rparr>)"

definition new_reload_hook ::
  "job_id \<Rightarrow> service_hook_job_spec \<Rightarrow> service_hook_job_build_error + job_record" where
  "new_reload_hook jid spec = new_service_hook_job jid spec ReloadHook"

definition new_pre_exec_hook ::
  "job_id \<Rightarrow> service_hook_job_spec \<Rightarrow> service_hook_job_build_error + job_record" where
  "new_pre_exec_hook jid spec = new_service_hook_job jid spec PreExecHook"

definition new_post_exec_hook ::
  "job_id \<Rightarrow> service_hook_job_spec \<Rightarrow> service_hook_job_build_error + job_record" where
  "new_post_exec_hook jid spec = new_service_hook_job jid spec PostExecHook"

definition new_health_check ::
  "job_id \<Rightarrow> service_health_check_job_spec \<Rightarrow> service_hook_job_build_error + job_record" where
  "new_health_check jid spec =
     (let service = hc_service spec
      in case hc_argv spec of
        [] \<Rightarrow> Inl (EmptyArgv (sd_name service) HealthCheckJob)
      | image_path # arguments \<Rightarrow> Inr \<lparr>
     jb_id = jid, jb_service = Some (sd_name service), jb_type = HealthCheckJob,
     jb_hook_index = None,
     jb_state = JobCreated, jb_pid = None, jb_pidfd = None,
     jb_resolved_identity = hc_resolved_identity spec, jb_token_summary = hc_token_summary spec,
     jb_required_privileges = sd_required_privileges service,
     jb_image_path = image_path, jb_arguments = arguments,
     jb_environment = sd_environment service, jb_working_directory = sd_working_directory service,
     jb_limit_nofile = sd_limit_nofile service, jb_limit_core = sd_limit_core service,
     jb_oom_score_adj = 0,
     jb_created_at_ns = hc_created_at_ns spec, jb_started_at_ns = None, jb_ended_at_ns = None,
     jb_exit_code = None, jb_exit_signal = None, jb_failure_cause = None,
     jb_cgroup_id = service_job_cgroup_path (sd_name service) (hc_cgroup_generation spec) HealthCgroup,
     jb_activation_generation = hc_activation_generation spec,
     jb_cgroup_generation = hc_cgroup_generation spec,
     jb_operation_id = None, jb_console_path = None\<rparr>)"

section \<open>Well-formed records\<close>

definition job_wf :: "job_record \<Rightarrow> bool" where
  "job_wf j \<longleftrightarrow>
     (\<forall>s. jb_started_at_ns j = Some s \<longrightarrow> jb_created_at_ns j \<le> s)
     \<and> (\<forall>e. jb_ended_at_ns j = Some e \<longrightarrow> jb_created_at_ns j \<le> e
          \<and> (\<forall>s. jb_started_at_ns j = Some s \<longrightarrow> s \<le> e))
     \<and> (jb_ended_at_ns j \<noteq> None \<longleftrightarrow> job_is_terminal (jb_state j))
     \<and> (jb_pid j \<noteq> None \<longleftrightarrow> jb_started_at_ns j \<noteq> None)
     \<and> (jb_pidfd j \<noteq> None \<longleftrightarrow> jb_started_at_ns j \<noteq> None)
     \<and> (jb_state j = JobCreated \<longrightarrow> jb_started_at_ns j = None)
     \<and> (jb_state j \<in> {JobRunning, JobCompleted, JobAbandoned} \<longrightarrow> jb_started_at_ns j \<noteq> None)
     \<and> (jb_exit_code j \<noteq> None \<or> jb_exit_signal j \<noteq> None \<longrightarrow> jb_ended_at_ns j \<noteq> None)
     \<and> (jb_exit_code j = None \<or> jb_exit_signal j = None)
     \<and> (jb_state j = JobCompleted \<longrightarrow> jb_exit_code j \<noteq> None)
     \<and> (jb_state j \<in> {JobFailed, JobAbandoned} \<longrightarrow> jb_failure_cause j \<noteq> None)"

text \<open>What identifies a job, and no transition changes.\<close>

definition job_identity ::
  "job_record \<Rightarrow> job_id \<times> string option \<times> job_type \<times> string \<times> operation_id option \<times> u64" where
  "job_identity j =
     (jb_id j, jb_service j, jb_type j, jb_cgroup_id j, jb_operation_id j, jb_created_at_ns j)"

locale job_transition =
  fixes run :: "job_record \<Rightarrow> (job_transition_error, unit, job_record) outcome"
    and src :: job_state
    and tgt :: job_state
  assumes refused: "run j = (Inl e, j') \<Longrightarrow> j' = j"
    and accepted: "run j = (Inr x, j') \<Longrightarrow>
      jb_state j = src \<and> jb_state j' = tgt \<and> job_identity j' = job_identity j
      \<and> (job_wf j \<longrightarrow> job_wf j')"

locale job_finish = job_transition +
  assumes terminal: "job_is_terminal tgt"
    and live: "\<not> job_is_terminal src"
    and ends: "run j = (Inr x, j') \<Longrightarrow> jb_pidfd j' = jb_pidfd j \<and> jb_ended_at_ns j' \<noteq> None"
begin

lemma ended_reports:
  assumes "run j = (Inr x, j')"
  shows "\<exists>event. job_event_ended j' = Inr event \<and> je_service event = jb_service j
    \<and> je_job_id event = jb_id j \<and> je_state event = tgt"
  using ends [OF assms] accepted [OF assms]
  by (auto simp: job_event_ended_def job_duration_ns_def job_event_new_def job_identity_def)

end

lemmas job_transition_simps =
  guarded_def job_ensure_state_def ensure_ended_at_def job_identity_def job_wf_def
  job_is_terminal_def

interpretation start_job_transition: job_transition "job_start process at" JobCreated JobRunning
  for process at
  by unfold_locales
    (auto simp: job_start_def job_transition_simps split: sum.splits if_splits)

interpretation complete_job_finish: job_finish "job_complete at code" JobRunning JobCompleted
  for at code
  by unfold_locales
    (auto simp: job_complete_def job_transition_simps not_less
      split: sum.splits if_splits option.splits)

interpretation fail_before_start_finish: job_finish "job_fail_before_start at reason" JobCreated JobFailed
  for at reason
  by unfold_locales
    (auto simp: job_fail_before_start_def job_transition_simps not_less
      split: sum.splits if_splits option.splits)

interpretation fail_running_finish: job_finish "job_fail_running at ex reason" JobRunning JobFailed
  for at ex reason
  by unfold_locales
    (auto simp: job_fail_running_def job_transition_simps not_less Let_def
      split: sum.splits if_splits option.splits job_exit.splits)

interpretation abandon_finish: job_finish "job_abandon at reason" JobRunning JobAbandoned
  for at reason
  by unfold_locales
    (auto simp: job_abandon_def job_transition_simps not_less
      split: sum.splits if_splits option.splits)

end
