(* ===== verification/Active_Index.thy ===== *)
theory Active_Index
  imports Prelude
begin

text \<open>
  The index from a service to its live identifiers, which the job store and the operation store
  keep the same way: an identifier is put at an end of the list of its service, and taken out of
  it, with the list, when it was the last. The lemmas keep the contract \<open>index_of\<close>.
\<close>

section \<open>The index of live identifiers\<close>

text \<open>
  An index lists, for each service, exactly the identifiers the store holds live for it, each
  once, and holds no empty list.
\<close>

definition index_of :: "(string, 'i list) btmap \<Rightarrow> ('i \<Rightarrow> string option) \<Rightarrow> bool" where
  "index_of idx live \<longleftrightarrow>
     (\<forall>service. distinct (bt_get_or [] idx service)
        \<and> set (bt_get_or [] idx service) = {i. live i = Some service}
        \<and> bt_get idx service \<noteq> Some [])"

lemma bt_get_or_insert [simp]:
  "bt_get_or d (bt_insert k v m) k' = (if k' = k then v else bt_get_or d m k')"
  by (simp add: bt_get_or_def)

lemma bt_get_or_remove [simp]:
  "bt_get_or d (bt_remove k m) k' = (if k' = k then d else bt_get_or d m k')"
  by (simp add: bt_get_or_def)

lemma index_of_empty: "index_of bt_empty (\<lambda>_. None)"
  by (simp add: index_of_def bt_get_or_def)

text \<open>A fresh identifier may be put anywhere in the list of its service.\<close>

lemma index_of_insert:
  assumes "index_of idx live" and "live i = None"
    and "distinct active" "set active = insert i (set (bt_get_or [] idx service))"
  shows "index_of (bt_insert service active idx) (live(i := Some service))"
  using assms by (auto simp: index_of_def)

lemma index_of_remove:
  assumes "index_of idx live" and "live i = Some service" and "bt_get idx service = Some active"
  defines "active' \<equiv> filter (\<lambda>j. j \<noteq> i) active"
  shows "index_of (if active' = [] then bt_remove service idx else bt_insert service active' idx)
    (live(i := None))"
proof -
  have active: "distinct active" "set active = {j. live j = Some service}"
    using assms(1,3) by (auto simp: index_of_def bt_get_or_def dest!: spec [of _ service])
  have "set active' = {j. (live(i := None)) j = Some service}"
    using active by (auto simp: active'_def)
  moreover have "distinct active'" using active by (simp add: active'_def)
  moreover have "active' = [] \<Longrightarrow> {j. (live(i := None)) j = Some service} = {}"
    using calculation(1) by simp
  moreover have "{j. (live(i := None)) j = Some other} = {j. live j = Some other}" if "other \<noteq> service" for other
    using assms(2) that by auto
  ultimately show ?thesis
    using assms(1) by (simp add: index_of_def)
qed

lemma index_of_same: "index_of idx live \<Longrightarrow> (\<And>i. live' i = live i) \<Longrightarrow> index_of idx live'"
  by (simp add: index_of_def)

end
