(* ===== verification/Job_Store.thy ===== *)
theory Job_Store
  imports Job Active_Index "HOL-Library.Multiset"
begin

text \<open>
  The store of live jobs (\<open>src/job/store.rs\<close> and \<open>store/\<close>): the records, the index from a
  service to its live jobs, and the process descriptors waiting to be closed. A job leaves the
  store the moment it ends.

  \<open>index_of\<close> of \<open>Active_Index\<close> states the contract of the index; the lemmas on ends of jobs are
  proved once in the locale \<open>job_finish\<close> of \<open>Job\<close>. They show that the index lists exactly the live jobs of each
  service, that a service has at most one main job, and that every process descriptor given to
  the store is handed out for closing exactly once.
\<close>

section \<open>Definitions\<close>

record job_store =
  js_records :: "(job_id, job_record) btmap"
  js_active_by_service :: "(string, job_id list) btmap"
  js_released_pidfds :: "i32 list"

definition job_store_new :: job_store where
  "job_store_new = \<lparr>js_records = bt_empty, js_active_by_service = bt_empty, js_released_pidfds = []\<rparr>"

definition job_store_get :: "job_store \<Rightarrow> job_id \<Rightarrow> job_record option" where
  "job_store_get s jid = bt_get (js_records s) jid"

definition take_released_pidfds :: "job_store \<Rightarrow> i32 list \<times> job_store" where
  "take_released_pidfds s = (js_released_pidfds s, s\<lparr>js_released_pidfds := []\<rparr>)"

definition job_active_for_service :: "job_store \<Rightarrow> string \<Rightarrow> job_id list" where
  "job_active_for_service s service = bt_get_or [] (js_active_by_service s) service"

definition current_service_main_job :: "job_store \<Rightarrow> string \<Rightarrow> job_id option" where
  "current_service_main_job s service =
     find (\<lambda>jid. case bt_get (js_records s) jid of
               Some j \<Rightarrow> jb_type j = ServiceMain | None \<Rightarrow> False)
       (bt_get_or [] (js_active_by_service s) service)"

definition active_job_by_pid :: "job_store \<Rightarrow> u32 \<Rightarrow> job_id option" where
  "active_job_by_pid s pid =
     map_option fst (find (\<lambda>e. jb_pid (snd e) = Some pid) (bt_entries (js_records s)))"

definition job_insert_active :: "string \<Rightarrow> job_id \<Rightarrow> job_store \<Rightarrow> job_store" where
  "job_insert_active service jid s =
     s\<lparr>js_active_by_service := bt_insert service
         (bt_get_or [] (js_active_by_service s) service @ [jid]) (js_active_by_service s)\<rparr>"

definition job_remove_active :: "string \<Rightarrow> job_id \<Rightarrow> job_store \<Rightarrow> job_store" where
  "job_remove_active service jid s =
     (case bt_get (js_active_by_service s) service of
        None \<Rightarrow> s
      | Some active \<Rightarrow>
          let active' = filter (\<lambda>active_id. active_id \<noteq> jid) active
          in s\<lparr>js_active_by_service :=
               (if active' = [] then bt_remove service (js_active_by_service s)
                else bt_insert service active' (js_active_by_service s))\<rparr>)"

definition ensure_can_create :: "job_store \<Rightarrow> job_record \<Rightarrow> job_store_error + unit" where
  "ensure_can_create s j =
     (if bt_contains_key (js_records s) (jb_id j) then Inl (DuplicateJobId (jb_id j))
      else if jb_state j \<noteq> JobCreated then Inl (InvalidInitialState (jb_id j) (jb_state j))
      else case (if jb_type j = ServiceMain then jb_service j else None) of
          Some service \<Rightarrow>
            (case current_service_main_job s service of
               Some active_job_id \<Rightarrow> Inl (ServiceMainAlreadyActive service active_job_id)
             | None \<Rightarrow> Inr ())
        | None \<Rightarrow> Inr ())"

definition create_job ::
  "job_record \<Rightarrow> job_store \<Rightarrow> (job_store_error, job_event, job_store) outcome" where
  "create_job j s =
     (case ensure_can_create s j of
        Inl e \<Rightarrow> (Inl e, s)
      | Inr _ \<Rightarrow>
          let s1 = s\<lparr>js_records := bt_insert (jb_id j) j (js_records s)\<rparr>
          in (Inr (job_event_created j),
              case jb_service j of
                Some service \<Rightarrow> job_insert_active service (jb_id j) s1
              | None \<Rightarrow> s1))"

definition start_job_with_token_summary ::
  "job_id \<Rightarrow> process_handle \<Rightarrow> token_summary \<Rightarrow> u64 \<Rightarrow> job_store
   \<Rightarrow> (job_store_error, job_event, job_store) outcome" where
  "start_job_with_token_summary jid process summary started_at_ns s =
     (case bt_get (js_records s) jid of
        None \<Rightarrow> (Inl (UnknownJob jid), s)
      | Some j \<Rightarrow>
          let j1 = j\<lparr>jb_token_summary := summary\<rparr>
          in case job_start process started_at_ns j1 of
              (Inl e, j2) \<Rightarrow>
                (Inl (JobTransitionFailed e), s\<lparr>js_records := bt_insert jid j2 (js_records s)\<rparr>)
            | (Inr _, j2) \<Rightarrow>
                (job_event_started j2, s\<lparr>js_records := bt_insert jid j2 (js_records s)\<rparr>))"

definition start_job ::
  "job_id \<Rightarrow> process_handle \<Rightarrow> u64 \<Rightarrow> job_store
   \<Rightarrow> (job_store_error, job_event, job_store) outcome" where
  "start_job jid process started_at_ns s =
     (case bt_get (js_records s) jid of
        None \<Rightarrow> (Inl (UnknownJob jid), s)
      | Some j \<Rightarrow> start_job_with_token_summary jid process (jb_token_summary j) started_at_ns s)"

definition finish_job ::
  "job_id \<Rightarrow> (job_record \<Rightarrow> (job_transition_error, unit, job_record) outcome) \<Rightarrow> job_store
   \<Rightarrow> (job_store_error, job_event, job_store) outcome" where
  "finish_job jid finish s =
     (case bt_get (js_records s) jid of
        None \<Rightarrow> (Inl (UnknownJob jid), s)
      | Some j \<Rightarrow>
          (case finish j of
             (Inl e, j') \<Rightarrow>
               (Inl (JobTransitionFailed e), s\<lparr>js_records := bt_insert jid j' (js_records s)\<rparr>)
           | (Inr _, j') \<Rightarrow>
               (case job_event_ended j' of
                  Inl e \<Rightarrow> (Inl e, s\<lparr>js_records := bt_insert jid j' (js_records s)\<rparr>)
                | Inr event \<Rightarrow>
                    let s1 = s\<lparr>js_records := bt_remove jid (js_records s)\<rparr>;
                        s2 = (case jb_pidfd j' of
                                Some pidfd \<Rightarrow>
                                  s1\<lparr>js_released_pidfds := js_released_pidfds s1 @ [pidfd]\<rparr>
                              | None \<Rightarrow> s1);
                        s3 = (case je_service event of
                                Some service \<Rightarrow> job_remove_active service jid s2
                              | None \<Rightarrow> s2)
                    in (Inr event, s3))))"

definition complete_job ::
  "job_id \<Rightarrow> u64 \<Rightarrow> i32 \<Rightarrow> job_store \<Rightarrow> (job_store_error, job_event, job_store) outcome" where
  "complete_job jid ended_at_ns exit_code = finish_job jid (job_complete ended_at_ns exit_code)"

definition fail_job_before_start ::
  "job_id \<Rightarrow> u64 \<Rightarrow> string \<Rightarrow> job_store \<Rightarrow> (job_store_error, job_event, job_store) outcome" where
  "fail_job_before_start jid ended_at_ns failure_cause =
     finish_job jid (job_fail_before_start ended_at_ns failure_cause)"

definition fail_running_job ::
  "job_id \<Rightarrow> u64 \<Rightarrow> job_exit option \<Rightarrow> string \<Rightarrow> job_store
   \<Rightarrow> (job_store_error, job_event, job_store) outcome" where
  "fail_running_job jid ended_at_ns exit failure_cause =
     finish_job jid (job_fail_running ended_at_ns exit failure_cause)"

definition abandon_job ::
  "job_id \<Rightarrow> u64 \<Rightarrow> string \<Rightarrow> job_store \<Rightarrow> (job_store_error, job_event, job_store) outcome" where
  "abandon_job jid ended_at_ns failure_cause = finish_job jid (job_abandon ended_at_ns failure_cause)"

section \<open>The invariant\<close>

definition live_jobs :: "job_store \<Rightarrow> job_id \<Rightarrow> string option" where
  "live_jobs s jid = Option.bind (bt_get (js_records s) jid) jb_service"

definition job_store_wf :: "job_store \<Rightarrow> bool" where
  "job_store_wf s \<longleftrightarrow>
     (\<forall>jid j. bt_get (js_records s) jid = Some j
        \<longrightarrow> jb_id j = jid \<and> job_wf j \<and> \<not> job_is_terminal (jb_state j))
     \<and> index_of (js_active_by_service s) (live_jobs s)
     \<and> (\<forall>jid j jid' j' service.
          bt_get (js_records s) jid = Some j \<and> bt_get (js_records s) jid' = Some j'
          \<and> jb_type j = ServiceMain \<and> jb_type j' = ServiceMain
          \<and> jb_service j = Some service \<and> jb_service j' = Some service \<longrightarrow> jid = jid')"

lemma job_store_wfD:
  assumes "job_store_wf s" "bt_get (js_records s) jid = Some j"
  shows "jb_id j = jid" "job_wf j" "\<not> job_is_terminal (jb_state j)"
  using assms by (auto simp: job_store_wf_def)

lemma job_wf_token_summary [simp]: "job_wf (j\<lparr>jb_token_summary := summary\<rparr>) = job_wf j"
  by (simp add: job_wf_def)

text \<open>Writing a record that keeps what the store looks at keeps the store well-formed.\<close>

lemma job_store_wf_update:
  assumes "job_store_wf s" "bt_get (js_records s) jid = Some j"
    and j': "jb_id j' = jid" "jb_service j' = jb_service j" "jb_type j' = jb_type j" "job_wf j'"
      "\<not> job_is_terminal (jb_state j')"
  shows "job_store_wf (s\<lparr>js_records := bt_insert jid j' (js_records s)\<rparr>)"
proof -
  have live: "live_jobs (s\<lparr>js_records := bt_insert jid j' (js_records s)\<rparr>) i = live_jobs s i" for i
    using assms by (simp add: live_jobs_def)
  have "index_of (js_active_by_service s) (live_jobs (s\<lparr>js_records := bt_insert jid j' (js_records s)\<rparr>))"
    using assms(1) live by (auto simp: job_store_wf_def intro: index_of_same)
  then show ?thesis
    using assms unfolding job_store_wf_def by (auto split: if_splits)
qed

lemma current_main_None:
  assumes "job_store_wf s" and "current_service_main_job s service = None"
    and "bt_get (js_records s) jid = Some j" and "jb_service j = Some service"
  shows "jb_type j \<noteq> ServiceMain"
proof -
  have "jid \<in> set (bt_get_or [] (js_active_by_service s) service)"
    using assms(1,3,4) by (simp add: job_store_wf_def index_of_def live_jobs_def)
  then show ?thesis
    using assms(2,3) by (auto simp: current_service_main_job_def find_None_iff split: option.splits)
qed

lemma job_store_new_wf: "job_store_wf job_store_new"
  using index_of_empty by (auto simp: job_store_wf_def job_store_new_def live_jobs_def
      intro: index_of_same)

lemma create_job_wf:
  assumes "job_store_wf s" and "job_wf j"
  shows "job_store_wf (snd (create_job j s))"
proof (cases "ensure_can_create s j")
  case (Inl e)
  then show ?thesis using assms(1) by (simp add: create_job_def)
next
  case (Inr u)
  have fresh: "bt_get (js_records s) (jb_id j) = None" and state: "jb_state j = JobCreated"
    using Inr by (auto simp: ensure_can_create_def bt_contains_key_def split: if_splits)
  have main: "jb_type j' \<noteq> ServiceMain"
    if "jb_type j = ServiceMain" "jb_service j = Some service"
      "bt_get (js_records s) jid' = Some j'" "jb_service j' = Some service" for jid' j' service
    using Inr that current_main_None [OF assms(1) _ that(3,4)]
    by (auto simp: ensure_can_create_def split: if_splits option.splits)
  let ?s = "snd (create_job j s)"
  have records: "js_records ?s = bt_insert (jb_id j) j (js_records s)"
    using Inr by (simp add: create_job_def Let_def job_insert_active_def split: option.split)
  have live: "live_jobs ?s = (live_jobs s)(jb_id j := jb_service j)"
    by (auto simp: live_jobs_def records)
  have idx: "index_of (js_active_by_service s) (live_jobs s)"
    using assms(1) by (simp add: job_store_wf_def)
  have "live_jobs s (jb_id j) = None" by (simp add: live_jobs_def fresh)
  then have "index_of (js_active_by_service ?s) (live_jobs ?s)"
  proof (cases "jb_service j")
    case None
    then have "js_active_by_service ?s = js_active_by_service s"
      using Inr by (simp add: create_job_def Let_def)
    then show ?thesis
      unfolding live using idx \<open>live_jobs s (jb_id j) = None\<close> None by (simp add: fun_upd_idem)
  next
    case (Some service)
    then have "js_active_by_service ?s = bt_insert service
        (bt_get_or [] (js_active_by_service s) service @ [jb_id j]) (js_active_by_service s)"
      using Inr by (simp add: create_job_def Let_def job_insert_active_def)
    moreover have "jb_id j \<notin> set (bt_get_or [] (js_active_by_service s) service)"
      "distinct (bt_get_or [] (js_active_by_service s) service)"
      using idx \<open>live_jobs s (jb_id j) = None\<close> by (simp_all add: index_of_def)
    ultimately show ?thesis
      unfolding live Some using idx \<open>live_jobs s (jb_id j) = None\<close>
      by (auto intro!: index_of_insert)
  qed
  then show ?thesis
    using assms fresh state main
    by (auto simp: job_store_wf_def records job_is_terminal_def split: if_splits)
qed

lemma start_job_with_token_summary_wf:
  assumes "job_store_wf s"
  shows "job_store_wf (snd (start_job_with_token_summary jid process summary at s))"
proof (cases "bt_get (js_records s) jid")
  case None
  then show ?thesis using assms by (simp add: start_job_with_token_summary_def)
next
  case (Some j)
  let ?j1 = "j\<lparr>jb_token_summary := summary\<rparr>"
  obtain res j2 where run: "job_start process at ?j1 = (res, j2)" by (cases "job_start process at ?j1")
  note j = job_store_wfD [OF assms Some]
  have j2: "job_identity j2 = job_identity j \<and> job_wf j2 \<and> \<not> job_is_terminal (jb_state j2)"
  proof (cases res)
    case (Inl e)
    then show ?thesis
      using start_job_transition.refused [of process at ?j1 e j2] run j
      by (simp add: job_identity_def)
  next
    case (Inr x)
    then show ?thesis
      using start_job_transition.accepted [of process at ?j1 x j2] run j
      by (simp add: job_identity_def job_is_terminal_def)
  qed
  have "snd (start_job_with_token_summary jid process summary at s)
      = s\<lparr>js_records := bt_insert jid j2 (js_records s)\<rparr>"
    using Some run by (simp add: start_job_with_token_summary_def Let_def split: sum.split)
  then show ?thesis
    using job_store_wf_update [OF assms Some] j j2 by (simp add: job_identity_def)
qed

lemma start_job_wf: "job_store_wf s \<Longrightarrow> job_store_wf (snd (start_job jid process at s))"
  by (simp add: start_job_def start_job_with_token_summary_wf split: option.split)

context job_finish
begin

lemma finish_job_refused: "finish_job jid run s = (Inl e, s') \<Longrightarrow> s' = s"
proof -
  assume fin: "finish_job jid run s = (Inl e, s')"
  show "s' = s"
  proof (cases "bt_get (js_records s) jid")
    case (Some j)
    obtain res j' where run: "run j = (res, j')" by (cases "run j")
    show ?thesis
    proof (cases res)
      case (Inl e)
      with run have "j' = j" using refused by blast
      moreover have "bt_insert jid j (js_records s) = js_records s"
        using Some by (intro btmap_eqI) simp
      ultimately show ?thesis using fin Some run Inl by (simp add: finish_job_def)
    next
      case (Inr x)
      with run ended_reports [of j x j'] show ?thesis
        using fin Some by (auto simp: finish_job_def Let_def)
    qed
  qed (use fin in \<open>simp add: finish_job_def\<close>)
qed

lemma finish_job_accepted:
  assumes "finish_job jid run s = (Inr event, s')"
  shows "\<exists>j. bt_get (js_records s) jid = Some j \<and> jb_state j = src \<and> je_state event = tgt
    \<and> js_records s' = bt_remove jid (js_records s)
    \<and> js_released_pidfds s' = js_released_pidfds s @ (case jb_pidfd j of Some fd \<Rightarrow> [fd] | None \<Rightarrow> [])
    \<and> js_active_by_service s' =
        (case jb_service j of
           None \<Rightarrow> js_active_by_service s
         | Some service \<Rightarrow> js_active_by_service (job_remove_active service jid s))"
proof -
  from assms obtain j where j: "bt_get (js_records s) jid = Some j"
    by (auto simp: finish_job_def split: option.splits)
  obtain res j' where run: "run j = (res, j')" by (cases "run j")
  with assms j obtain x where x: "run j = (Inr x, j')"
    by (cases res) (auto simp: finish_job_def)
  from ended_reports [OF x] obtain ev where ev: "job_event_ended j' = Inr ev"
    "je_service ev = jb_service j" "je_state ev = tgt" by blast
  have "jb_state j = src" "jb_pidfd j' = jb_pidfd j" using accepted [OF x] ends [OF x] by auto
  then show ?thesis
    using assms j x ev
    by (auto simp: finish_job_def Let_def job_remove_active_def split: option.splits)
qed

lemma finish_job_wf:
  assumes "job_store_wf s"
  shows "job_store_wf (snd (finish_job jid run s))"
proof (cases "finish_job jid run s")
  case (Pair res s')
  show ?thesis
  proof (cases res)
    case (Inl e)
    then show ?thesis using Pair assms finish_job_refused by auto
  next
    case (Inr event)
    with Pair finish_job_accepted obtain j where j: "bt_get (js_records s) jid = Some j"
      and s': "js_records s' = bt_remove jid (js_records s)"
        "js_active_by_service s' = (case jb_service j of
           None \<Rightarrow> js_active_by_service s
         | Some service \<Rightarrow> js_active_by_service (job_remove_active service jid s))"
      by blast
    have idx: "index_of (js_active_by_service s) (live_jobs s)"
      using assms by (simp add: job_store_wf_def)
    have live: "live_jobs s' = (live_jobs s)(jid := None)"
      by (auto simp: live_jobs_def s')
    have "index_of (js_active_by_service s') (live_jobs s')"
    proof (cases "jb_service j")
      case None
      then have "live_jobs s jid = None" using j by (simp add: live_jobs_def)
      then show ?thesis unfolding live using idx None s' by (simp add: fun_upd_idem)
    next
      case (Some service)
      then have l: "live_jobs s jid = Some service" using j by (simp add: live_jobs_def)
      then obtain active where "bt_get (js_active_by_service s) service = Some active"
        using idx by (cases "bt_get (js_active_by_service s) service")
          (force simp: index_of_def bt_get_or_def)+
      then show ?thesis
        unfolding live using index_of_remove [OF idx l] s' Some
        by (simp add: job_remove_active_def Let_def)
    qed
    then show ?thesis
      using assms Pair s' by (auto simp: job_store_wf_def split: if_splits)
  qed
qed

end

section \<open>Process descriptors\<close>

lemma mset_ins_entry:
  "k \<notin> fst ` set xs \<Longrightarrow> mset (ins_entry k v xs) = add_mset (k, v) (mset xs)"
  by (induction k v xs rule: ins_entry.induct) auto

lemma mset_values_insert:
  "bt_get m k = None \<Longrightarrow> mset (bt_values (bt_insert k v m)) = add_mset v (mset (bt_values m))"
  by (simp add: bt_values_def bt_insert.rep_eq mset_ins_entry bt_get_def map_of_eq_None_iff)

lemma mset_values_remove:
  assumes "bt_get m k = Some v"
  shows "mset (bt_values m) = add_mset v (mset (bt_values (bt_remove k m)))"
proof -
  have "m = bt_insert k v (bt_remove k m)"
    using assms by (intro btmap_eqI) simp
  then show ?thesis
    using mset_values_insert [of "bt_remove k m" k v] by simp
qed

lemma mset_values_update:
  assumes "bt_get m k = Some v"
  shows "mset (bt_values (bt_insert k v' m)) = add_mset v' (mset (bt_values (bt_remove k m)))"
proof -
  have "bt_insert k v' m = bt_insert k v' (bt_remove k m)"
    by (intro btmap_eqI) simp
  then show ?thesis
    using mset_values_insert [of "bt_remove k m" k v'] by simp
qed

definition pidfd_of :: "job_record \<Rightarrow> i32 multiset" where
  "pidfd_of j = (case jb_pidfd j of Some fd \<Rightarrow> {#fd#} | None \<Rightarrow> {#})"

text \<open>The descriptors the records hold.\<close>

definition held_pidfds :: "job_store \<Rightarrow> i32 multiset" where
  "held_pidfds s = sum_mset (image_mset pidfd_of (mset (bt_values (js_records s))))"

lemma held_update:
  "bt_get (js_records s) jid = Some j \<Longrightarrow>
   held_pidfds (s\<lparr>js_records := bt_insert jid j' (js_records s)\<rparr>) + pidfd_of j
     = held_pidfds s + pidfd_of j'"
  by (simp add: held_pidfds_def mset_values_update mset_values_remove [of "js_records s" jid j])

text \<open>
  Runs of the store, with the descriptors of the processes started in it and those taken from it
  for closing. The records of new jobs are well-formed, as the constructors make them.
\<close>

inductive job_run :: "job_store \<Rightarrow> i32 multiset \<Rightarrow> i32 multiset \<Rightarrow> bool" where
  run_new: "job_run job_store_new {#} {#}"
| run_create: "job_run s given taken \<Longrightarrow> job_wf j \<Longrightarrow> job_run (snd (create_job j s)) given taken"
| run_start: "job_run s given taken
    \<Longrightarrow> start_job_with_token_summary jid process summary at s = (res, s')
    \<Longrightarrow> job_run s' (if is_ok res then add_mset (ph_pidfd process) given else given) taken"
| run_complete: "job_run s given taken \<Longrightarrow> job_run (snd (complete_job jid at code s)) given taken"
| run_fail_before_start:
    "job_run s given taken \<Longrightarrow> job_run (snd (fail_job_before_start jid at reason s)) given taken"
| run_fail_running:
    "job_run s given taken \<Longrightarrow> job_run (snd (fail_running_job jid at exit reason s)) given taken"
| run_abandon: "job_run s given taken \<Longrightarrow> job_run (snd (abandon_job jid at reason s)) given taken"
| run_take: "job_run s given taken \<Longrightarrow> take_released_pidfds s = (fds, s')
    \<Longrightarrow> job_run s' given (taken + mset fds)"

definition pidfds_balance :: "job_store \<Rightarrow> i32 multiset \<Rightarrow> i32 multiset \<Rightarrow> bool" where
  "pidfds_balance s given taken \<longleftrightarrow>
     given = taken + mset (js_released_pidfds s) + held_pidfds s"

lemma create_job_balance:
  assumes "pidfds_balance s given taken" and "job_wf j"
  shows "pidfds_balance (snd (create_job j s)) given taken"
proof (cases "ensure_can_create s j")
  case (Inl e)
  then show ?thesis using assms(1) by (simp add: create_job_def)
next
  case (Inr u)
  have "bt_get (js_records s) (jb_id j) = None" and state: "jb_state j = JobCreated"
    using Inr by (auto simp: ensure_can_create_def bt_contains_key_def split: if_splits)
  moreover have "pidfd_of j = {#}"
    using assms(2) state by (cases "jb_pidfd j") (auto simp: pidfd_of_def job_wf_def)
  ultimately show ?thesis
    using assms(1) Inr
    by (auto simp: pidfds_balance_def held_pidfds_def create_job_def Let_def job_insert_active_def
        mset_values_insert split: option.split)
qed

lemma start_job_balance:
  assumes "pidfds_balance s given taken" and "job_store_wf s"
    and "start_job_with_token_summary jid process summary at s = (res, s')"
  shows "pidfds_balance s' (if is_ok res then add_mset (ph_pidfd process) given else given) taken"
proof (cases "bt_get (js_records s) jid")
  case None
  then show ?thesis using assms by (auto simp: start_job_with_token_summary_def)
next
  case (Some j)
  let ?j1 = "j\<lparr>jb_token_summary := summary\<rparr>"
  obtain r j2 where run: "job_start process at ?j1 = (r, j2)" by (cases "job_start process at ?j1")
  have s': "s' = s\<lparr>js_records := bt_insert jid j2 (js_records s)\<rparr>"
    using assms(3) Some run by (auto simp: start_job_with_token_summary_def Let_def split: sum.splits)
  have "pidfd_of j2 = pidfd_of j + (if is_ok res then {#ph_pidfd process#} else {#})"
  proof (cases r)
    case (Inl e)
    then have "j2 = ?j1" using run start_job_transition.refused by blast
    then show ?thesis
      using assms(3) Some run Inl by (auto simp: pidfd_of_def start_job_with_token_summary_def)
  next
    case (Inr x)
    then have "jb_state j = JobCreated" "jb_pidfd j2 = Some (ph_pidfd process)"
      "jb_started_at_ns j2 \<noteq> None" "jb_pid j2 \<noteq> None"
      using run by (auto simp: job_start_def guarded_def job_ensure_state_def split: if_splits sum.splits)
    moreover from this have "jb_pidfd j = None"
      using job_store_wfD(2) [OF assms(2) Some] by (auto simp: job_wf_def)
    ultimately show ?thesis
      using assms(3) Some run Inr
      by (auto simp: pidfd_of_def start_job_with_token_summary_def Let_def job_event_started_def)
  qed
  then show ?thesis
    using assms(1) held_update [OF Some, of j2] s'
    by (auto simp: pidfds_balance_def union_assoc union_commute)
qed

context job_finish
begin

lemma finish_job_balance:
  assumes "pidfds_balance s given taken"
  shows "pidfds_balance (snd (finish_job jid run s)) given taken"
proof (cases "finish_job jid run s")
  case (Pair res s')
  show ?thesis
  proof (cases res)
    case (Inl e)
    then show ?thesis using Pair assms finish_job_refused by auto
  next
    case (Inr event)
    with Pair finish_job_accepted obtain j where "bt_get (js_records s) jid = Some j"
      "js_records s' = bt_remove jid (js_records s)"
      "js_released_pidfds s' = js_released_pidfds s @ (case jb_pidfd j of Some fd \<Rightarrow> [fd] | None \<Rightarrow> [])"
      by blast
    then show ?thesis
      using assms Pair mset_values_remove [of "js_records s" jid j]
      by (auto simp: pidfds_balance_def held_pidfds_def pidfd_of_def split: option.split)
  qed
qed

end

lemma job_run_invariant:
  "job_run s given taken \<Longrightarrow> job_store_wf s \<and> pidfds_balance s given taken"
proof (induction rule: job_run.induct)
  case run_new
  show ?case
    using job_store_new_wf
    by (simp add: pidfds_balance_def held_pidfds_def job_store_new_def bt_values_def
        bt_empty.rep_eq)
next
  case (run_create s given taken j)
  then show ?case by (simp add: create_job_wf create_job_balance)
next
  case (run_start s given taken jid process summary at res s')
  then show ?case
    using start_job_with_token_summary_wf [of s jid process summary at] start_job_balance by fastforce
next
  case (run_take s given taken fds s')
  then show ?case
    by (auto simp: take_released_pidfds_def pidfds_balance_def held_pidfds_def job_store_wf_def live_jobs_def
        intro: index_of_same)
qed (simp_all add: complete_job_def fail_job_before_start_def fail_running_job_def abandon_job_def
    complete_job_finish.finish_job_wf fail_before_start_finish.finish_job_wf
    fail_running_finish.finish_job_wf abandon_finish.finish_job_wf
    complete_job_finish.finish_job_balance fail_before_start_finish.finish_job_balance
    fail_running_finish.finish_job_balance abandon_finish.finish_job_balance)

section \<open>Properties\<close>

text \<open>
  C11: every process descriptor is closed exactly once. Along every run of the store, the
  descriptors of the processes started in it are, each as often as it was given, those taken for
  closing, those waiting to be taken, and those held by the records of live jobs.
\<close>

theorem job_pidfds_are_released_once:
  assumes "job_run s given taken"
  shows "given = taken + mset (js_released_pidfds s)
    + sum_mset (image_mset pidfd_of (mset (bt_values (js_records s))))"
  using job_run_invariant [OF assms] by (simp add: pidfds_balance_def held_pidfds_def)

definition sample_job :: job_record where
  "sample_job = new_submitted (JobId (UuidV7 (replicate 16 0)))
     \<lparr>ss_identity_user_sid = ''S-1-5-18'', ss_token_summary = requested_identity ''SYSTEM'',
      ss_image_path = ''/a'', ss_arguments = [], ss_environment = [],
      ss_working_directory = ''/'', ss_created_at_ns = 1\<rparr>"

lemma sample_job_wf: "job_wf sample_job"
  by (simp add: sample_job_def new_submitted_def job_wf_def job_is_terminal_def)

theorem job_pidfds_are_released_once_witness:
  "\<exists>s. job_run s {#7#} {#} \<and> js_released_pidfds s = [7]
     \<and> {#7#} = {#} + mset (js_released_pidfds s) + sum_mset (image_mset pidfd_of (mset (bt_values (js_records s))))"
proof -
  let ?s1 = "snd (create_job sample_job job_store_new)"
  let ?r = "start_job_with_token_summary (jb_id sample_job) \<lparr>ph_pid = 3, ph_pidfd = 7\<rparr>
    (requested_identity ''SYSTEM'') 2 ?s1"
  let ?s3 = "snd (complete_job (jb_id sample_job) 5 0 (snd ?r))"
  have "job_run ?s1 {#} {#}"
    using run_create [OF run_new sample_job_wf] .
  moreover have "is_ok (fst ?r)" by code_simp
  ultimately have "job_run (snd ?r) {#7#} {#}"
    using run_start [of ?s1 "{#}" "{#}" "jb_id sample_job" "\<lparr>ph_pid = 3, ph_pidfd = 7\<rparr>"
        "requested_identity ''SYSTEM''" 2 "fst ?r" "snd ?r"] by simp
  then have run: "job_run ?s3 {#7#} {#}" by (rule run_complete)
  have "js_released_pidfds ?s3 = [7]" by code_simp
  with run job_pidfds_are_released_once [OF run] show ?thesis by blast
qed

text \<open>
  C30: the store lists exactly the live jobs. Along every run, the jobs listed for a service are,
  without repetition, those whose record names it, no record is of a job that has ended, and a
  service never has two main jobs at once.
\<close>

theorem job_store_tracks_live_jobs:
  assumes "job_run s given taken"
  shows "distinct (job_active_for_service s service) \<and>
    set (job_active_for_service s service) =
      {jid. \<exists>j. job_store_get s jid = Some j \<and> jb_service j = Some service} \<and>
    (\<forall>jid j. job_store_get s jid = Some j
       \<longrightarrow> jb_id j = jid \<and> job_wf j \<and> \<not> job_is_terminal (jb_state j)) \<and>
    (\<forall>jid jid' j j'. job_store_get s jid = Some j \<and> job_store_get s jid' = Some j'
       \<and> jb_type j = ServiceMain \<and> jb_type j' = ServiceMain
       \<and> jb_service j = Some service \<and> jb_service j' = Some service \<longrightarrow> jid = jid')"
proof -
  have wf: "job_store_wf s" using job_run_invariant [OF assms] by simp
  have idx: "index_of (js_active_by_service s) (live_jobs s)"
    using wf by (simp add: job_store_wf_def)
  have "live_jobs s jid = Some service \<longleftrightarrow>
      (\<exists>j. job_store_get s jid = Some j \<and> jb_service j = Some service)" for jid
    by (cases "bt_get (js_records s) jid") (simp_all add: live_jobs_def job_store_get_def)
  with idx have index: "distinct (job_active_for_service s service)"
    "set (job_active_for_service s service)
      = {jid. \<exists>j. job_store_get s jid = Some j \<and> jb_service j = Some service}"
    by (simp_all add: index_of_def job_active_for_service_def)
  show ?thesis
    using index wf unfolding job_store_get_def job_store_wf_def by blast
qed

definition sample_main_job :: job_record where
  "sample_main_job = new_service_main (JobId (UuidV7 (replicate 16 1)))
     \<lparr>ms_service = simple_system_boot ''a'' ''/a'', ms_resolved_identity = ''SYSTEM'',
      ms_token_summary = requested_identity ''SYSTEM'', ms_activation_generation = 1,
      ms_cgroup_generation = 0, ms_operation_id = OperationId (UuidV7 (replicate 16 2)),
      ms_created_at_ns = 1\<rparr>"

theorem job_store_tracks_live_jobs_witness:
  "\<exists>s. job_run s {#} {#} \<and> job_store_get s (jb_id sample_main_job) = Some sample_main_job
     \<and> jb_id sample_main_job \<in> set (job_active_for_service s ''a'')"
proof -
  let ?s = "snd (create_job sample_main_job job_store_new)"
  have wf: "job_wf sample_main_job"
    by (simp add: sample_main_job_def new_service_main_def job_wf_def job_is_terminal_def Let_def)
  have run: "job_run ?s {#} {#}" using run_create [OF run_new wf] .
  have get: "job_store_get ?s (jb_id sample_main_job) = Some sample_main_job"
    "jb_service sample_main_job = Some ''a''"
    by (simp_all add: create_job_def ensure_can_create_def job_store_new_def sample_main_job_def
        new_service_main_def job_store_get_def job_active_for_service_def bt_get_or_def
        bt_contains_key_def simple_system_boot_def Let_def current_service_main_job_def
        job_insert_active_def)
  with run job_store_tracks_live_jobs [OF run, of "''a''"] show ?thesis by blast
qed

end
