(* ===== verification/Boot_Graph.thy ===== *)
theory Boot_Graph
  imports Service_Graph Ids "HOL-Library.While_Combinator"
begin

text \<open>
  The graph of a boot (\<open>src/boot/phase2/graph\<close>): which services a boot mode includes, which of
  them are blocked and why, and the order the others start in.

  The walk over the dependencies and the removal of cycles are total functions with a termination
  proof. The two fixpoint loops, of \<open>propagate_blocked\<close> and of \<open>start_order_after_validation\<close>, are
  kept as loops that may fail to end (\<open>None\<close>), and the lemmas show that they end on every service
  map. The others show that the services left startable are closed under their hard dependencies,
  that none of them is blocked or conflicts with another, and that every boot service is started
  or blocked.
\<close>

section \<open>Model\<close>

datatype boot_mode = FullBoot | SafeBoot | RecoveryBoot

datatype start_cause = StartExplicit | StartDependency

datatype blocked_reason =
    HardDependencyUnavailable string service_dependency_kind
  | HardDependencyBlocked string service_dependency_kind
  | CycleBlocked "string list"
  | ConflictingBootService string
  | ValidationBlocked string

datatype safe_mode_downgrade =
    CriticalCycle "string list"
  | CriticalBootConflict string string

record startable_service =
  sv_name :: string
  sv_cause :: start_cause
  sv_identity :: string

record blocked_service_draft =
  bs_service :: string
  bs_reason :: blocked_reason
  bs_additional_reasons :: "blocked_reason list"

record phase2_boot_graph =
  bg_ordered_startable :: "startable_service list"
  bg_blocked :: "blocked_service_draft list"

datatype phase2_boot_plan_error =
    InvalidMaxParallelStarts
  | BootDuplicateService string
  | MissingServiceDefinition string
  | BootCycle "string list"
  | OperationIdAllocation id_allocation_error
  | JobIdAllocation id_allocation_error

type_synonym blocked_map = "(string, blocked_service_draft) btmap"

section \<open>Findings\<close>

fun failed_cause_precedence :: "blocked_reason \<Rightarrow> nat" where
  "failed_cause_precedence (CycleBlocked _) = 3"
| "failed_cause_precedence (ConflictingBootService _) = 2"
| "failed_cause_precedence (ValidationBlocked _) = 2"
| "failed_cause_precedence (HardDependencyUnavailable _ _) = 1"
| "failed_cause_precedence (HardDependencyBlocked _ _) = 1"

definition block_service :: "string \<Rightarrow> blocked_reason \<Rightarrow> blocked_map \<Rightarrow> blocked_map" where
  "block_service service reason blocked =
     (case bt_get blocked service of
        None \<Rightarrow>
          bt_insert service
            \<lparr>bs_service = service, bs_reason = reason, bs_additional_reasons = []\<rparr> blocked
      | Some existing \<Rightarrow>
          if bs_reason existing = reason \<or> reason \<in> set (bs_additional_reasons existing) then blocked
          else if failed_cause_precedence reason > failed_cause_precedence (bs_reason existing) then
            bt_insert service
              (existing\<lparr>bs_reason := reason,
                 bs_additional_reasons := bs_additional_reasons existing @ [bs_reason existing]\<rparr>) blocked
          else
            bt_insert service
              (existing\<lparr>bs_additional_reasons := bs_additional_reasons existing @ [reason]\<rparr>) blocked)"

section \<open>The service map\<close>

fun service_map_from ::
  "definition_map \<Rightarrow> service_definition list \<Rightarrow> phase2_boot_plan_error + definition_map" where
  "service_map_from by_name [] = Inr by_name"
| "service_map_from by_name (d # ds) =
     (if bt_contains_key by_name (sd_name d) then Inl (BootDuplicateService (sd_name d))
      else service_map_from (bt_insert (sd_name d) d by_name) ds)"

definition service_map :: "service_definition list \<Rightarrow> phase2_boot_plan_error + definition_map" where
  "service_map services = service_map_from bt_empty services"

definition make_startable_service ::
  "string \<Rightarrow> definition_map \<Rightarrow> phase2_boot_plan_error + startable_service" where
  "make_startable_service service by_name =
     (case bt_get by_name service of
        None \<Rightarrow> Inl (MissingServiceDefinition service)
      | Some d \<Rightarrow>
          Inr \<lparr>sv_name = service,
               sv_cause = (if has_boot_trigger d then StartExplicit else StartDependency),
               sv_identity = sd_identity d\<rparr>)"

section \<open>The closure\<close>

definition dependency_eligible :: "boot_mode \<Rightarrow> service_definition \<Rightarrow> bool" where
  "dependency_eligible mode d \<longleftrightarrow>
     mode = FullBoot
     \<or> has_boot_trigger d \<and> (sd_safe_mode d \<or> sd_error_control d = Critical)"

definition boot_roots :: "service_definition list \<Rightarrow> boot_mode \<Rightarrow> string list" where
  "boot_roots services mode =
     map sd_name
       (filter has_boot_trigger
         (filter (\<lambda>d. mode = FullBoot \<or> dependency_eligible mode d)
           (filter (\<lambda>d. \<not> sd_disabled d) services)))"

text \<open>
  What the walk does for the dependencies of a definition, in order: follow one, or block the
  dependent. A dependency that Safe mode leaves out does neither.
\<close>

datatype closure_edge = FollowEdge string | BlockEdge string blocked_reason

definition hard_edge ::
  "boot_mode \<Rightarrow> definition_map \<Rightarrow> service_definition \<Rightarrow> service_dependency \<Rightarrow> closure_edge list" where
  "hard_edge mode by_name d dep =
     (case bt_get by_name (dep_target dep) of
        Some target \<Rightarrow>
          if \<not> sd_disabled target \<and> dependency_eligible mode target then [FollowEdge (sd_name target)]
          else if \<not> sd_disabled target \<and> mode \<noteq> FullBoot then []
          else [BlockEdge (sd_name d) (HardDependencyUnavailable (dep_target dep) (dep_kind dep))]
      | None \<Rightarrow> [BlockEdge (sd_name d) (HardDependencyUnavailable (dep_target dep) (dep_kind dep))])"

definition wants_edge :: "boot_mode \<Rightarrow> definition_map \<Rightarrow> string \<Rightarrow> closure_edge list" where
  "wants_edge mode by_name declared =
     (case bt_get by_name (fst (split_target declared)) of
        Some target \<Rightarrow>
          if \<not> sd_disabled target \<and> dependency_eligible mode target then [FollowEdge (sd_name target)]
          else []
      | None \<Rightarrow> [])"

definition closure_edges ::
  "boot_mode \<Rightarrow> definition_map \<Rightarrow> service_definition \<Rightarrow> closure_edge list" where
  "closure_edges mode by_name d =
     concat (map (hard_edge mode by_name d) (hard_dependencies d))
     @ concat (map (wants_edge mode by_name) (sd_wants d))"

type_synonym closure_state = "string fset \<times> blocked_map"

function (sequential)
  include_closure :: "boot_mode \<Rightarrow> definition_map \<Rightarrow> string \<Rightarrow> closure_state \<Rightarrow> closure_state" and
  follow_edges :: "boot_mode \<Rightarrow> definition_map \<Rightarrow> closure_edge list \<Rightarrow> closure_state \<Rightarrow> closure_state"
where
  "include_closure mode by_name service (included, blocked) =
     (if service |\<in>| included then (included, blocked)
      else case bt_get by_name service of
          None \<Rightarrow> (finsert service included, blocked)
        | Some d \<Rightarrow>
            follow_edges mode by_name (closure_edges mode by_name d) (finsert service included, blocked))"
| "follow_edges mode by_name [] st = st"
| "follow_edges mode by_name (FollowEdge service # es) st =
     follow_edges mode by_name es (include_closure mode by_name service st)"
| "follow_edges mode by_name (BlockEdge service reason # es) (included, blocked) =
     follow_edges mode by_name es (included, block_service service reason blocked)"
  by pat_completeness auto

termination
proof -
  have grows: "fst st |\<subseteq>| fst (include_closure mode by_name service st)"
    if "include_closure_follow_edges_dom (Inl (mode, by_name, service, st))"
    for mode by_name service st
    using that
    by (rule include_closure_follow_edges.pinduct(1)
        [where Q = "\<lambda>mode by_name es st. fst st |\<subseteq>| fst (follow_edges mode by_name es st)"])
      (fastforce simp: include_closure.psimps follow_edges.psimps split: option.split)+
  show ?thesis
  proof (relation "measures [
      \<lambda>arg. case arg of
          Inl (mode, by_name, service, st) \<Rightarrow> card (dom (bt_get by_name) - fset (fst st))
        | Inr (mode, by_name, es, st) \<Rightarrow> card (dom (bt_get by_name) - fset (fst st)),
      \<lambda>arg. case arg of Inl _ \<Rightarrow> 0 | Inr (mode, by_name, es, st) \<Rightarrow> length es]", goal_cases)
    case 1
    then show ?case by simp
  next
    case (2 mode by_name service included blocked d)
    then have "card (dom (bt_get by_name) - fset (finsert service included))
        < card (dom (bt_get by_name) - fset included)"
      by (intro psubset_card_mono) auto
    then show ?case by simp
  next
    case (3 mode by_name service es st)
    then show ?case by simp
  next
    case (4 mode by_name service es st)
    then have "fset (fst st) \<subseteq> fset (fst (include_closure mode by_name service st))"
      using grows by (simp add: less_eq_fset.rep_eq)
    then have "card (dom (bt_get by_name) - fset (fst (include_closure mode by_name service st)))
        \<le> card (dom (bt_get by_name) - fset (fst st))"
      by (intro card_mono) auto
    then show ?case by auto
  next
    case (5 mode by_name service reason es included blocked)
    then show ?case by simp
  qed
qed

fun propagate_pass ::
  "definition_map \<Rightarrow> string list \<Rightarrow> bool \<times> blocked_map \<Rightarrow> bool \<times> blocked_map" where
  "propagate_pass by_name [] st = st"
| "propagate_pass by_name (service # services) (changed, blocked) =
     propagate_pass by_name services
       (if bt_contains_key blocked service then (changed, blocked)
        else case bt_get by_name service of
            None \<Rightarrow> (changed, blocked)
          | Some d \<Rightarrow>
              (case find (\<lambda>dep. bt_contains_key blocked (dep_target dep)) (hard_dependencies d) of
                 None \<Rightarrow> (changed, blocked)
               | Some dep \<Rightarrow>
                   (True, block_service (sd_name d)
                      (HardDependencyBlocked (dep_target dep) (dep_kind dep)) blocked)))"

definition propagate_blocked ::
  "string fset \<Rightarrow> definition_map \<Rightarrow> blocked_map \<Rightarrow> blocked_map option" where
  "propagate_blocked included by_name blocked =
     map_option snd
       (while_option fst
          (\<lambda>(changed, blocked). propagate_pass by_name (sorted_list_of_fset included) (False, blocked))
          (True, blocked))"

definition collect_boot_closure ::
  "boot_mode \<Rightarrow> service_definition list \<Rightarrow> definition_map \<Rightarrow> closure_state option" where
  "collect_boot_closure mode services by_name =
     (let (included, blocked) =
        fold (include_closure mode by_name) (boot_roots services mode) ({||}, bt_empty)
      in map_option (\<lambda>blocked. (included, blocked)) (propagate_blocked included by_name blocked))"

section \<open>Conflicts\<close>

definition symmetric_conflicts :: "service_definition \<Rightarrow> definition_map \<Rightarrow> string list" where
  "symmetric_conflicts d by_name =
     remdups_adj (sort
       (sd_conflicts d
        @ map sd_name (filter (\<lambda>other. sd_name other \<noteq> sd_name d \<and> sd_name d \<in> set (sd_conflicts other))
            (bt_values by_name))))"

definition is_critical :: "service_definition \<Rightarrow> bool" where
  "is_critical d \<longleftrightarrow> sd_error_control d = Critical"

definition boot_conflict_targets ::
  "string fset \<Rightarrow> definition_map \<Rightarrow> service_definition \<Rightarrow> string list" where
  "boot_conflict_targets included by_name d =
     filter (\<lambda>target. target |\<in>| included
         \<and> (case bt_get by_name target of None \<Rightarrow> False | Some t \<Rightarrow> has_boot_trigger t))
       (symmetric_conflicts d by_name)"

definition block_unresolvable_conflicts ::
  "string fset \<Rightarrow> definition_map \<Rightarrow> blocked_map \<Rightarrow> blocked_map" where
  "block_unresolvable_conflicts included by_name blocked =
     fold (\<lambda>service blocked.
         case bt_get by_name service of
           None \<Rightarrow> blocked
         | Some d \<Rightarrow>
             if \<not> has_boot_trigger d then blocked
             else fold (\<lambda>target blocked.
                 block_service target (ConflictingBootService service)
                   (block_service service (ConflictingBootService target) blocked))
               (boot_conflict_targets included by_name d) blocked)
       (sorted_list_of_fset included) blocked"

definition critical_boot_conflicts ::
  "string fset \<Rightarrow> definition_map \<Rightarrow> (string \<times> string) list" where
  "critical_boot_conflicts included by_name =
     sorted_list_of_fset (fset_of_list
       (concat (map (\<lambda>service.
           case bt_get by_name service of
             None \<Rightarrow> []
           | Some d \<Rightarrow>
               if \<not> has_boot_trigger d \<or> \<not> is_critical d then []
               else map (\<lambda>target. if sd_name d \<le> target then (sd_name d, target) else (target, sd_name d))
                 (boot_conflict_targets included by_name d))
         (sorted_list_of_fset included))))"

section \<open>Order and validation\<close>

text \<open>
  The order of a set of services, \<open>dependency_order\<close> of the source, is \<open>dependency_start_order\<close> over
  these targets.
\<close>

definition order_targets :: "definition_map \<Rightarrow> string \<Rightarrow> string list" where
  "order_targets by_name service =
     (case bt_get by_name service of None \<Rightarrow> [] | Some d \<Rightarrow> start_order_dependency_targets d)"

definition block_cycle :: "string list \<Rightarrow> blocked_map \<Rightarrow> blocked_map" where
  "block_cycle services blocked =
     fold (\<lambda>service. block_service service (CycleBlocked services)) services blocked"

lemma cycle_leaves_fewer:
  assumes "dependency_start_order remaining deps = Inl services"
  shows "fcard (remaining |-| fset_of_list services) < fcard remaining"
proof -
  have c: "services \<noteq> []" "set services \<subseteq> fset remaining"
    using start_order_cycle [OF assms] by (simp_all add: dependency_cycle_def)
  then have "fset remaining - set services \<subset> fset remaining" by (cases services) auto
  then show ?thesis
    by (simp add: fcard.rep_eq minus_fset.rep_eq fset_of_list.rep_eq psubset_card_mono)
qed

function block_dependency_cycles ::
  "string fset \<Rightarrow> definition_map \<Rightarrow> blocked_map \<Rightarrow> blocked_map" where
  "block_dependency_cycles remaining by_name blocked =
     (if remaining = {||} then blocked
      else case dependency_start_order remaining (order_targets by_name) of
          Inr _ \<Rightarrow> blocked
        | Inl services \<Rightarrow>
            block_dependency_cycles (remaining |-| fset_of_list services) by_name
              (block_cycle services blocked))"
  by pat_completeness auto
termination
  by (relation "measure (\<lambda>(remaining, by_name, blocked). fcard remaining)")
    (simp_all add: cycle_leaves_fewer)

function critical_cycles :: "string fset \<Rightarrow> definition_map \<Rightarrow> string list list" where
  "critical_cycles remaining by_name =
     (if remaining = {||} then []
      else case dependency_start_order remaining
            (\<lambda>service. filter (\<lambda>target. target |\<in>| remaining) (order_targets by_name service)) of
          Inr _ \<Rightarrow> []
        | Inl services \<Rightarrow>
            (if \<exists>service\<in>set services.
                  case bt_get by_name service of None \<Rightarrow> False | Some d \<Rightarrow> is_critical d
             then [services] else [])
            @ critical_cycles (remaining |-| fset_of_list services) by_name)"
  by pat_completeness auto
termination
  by (relation "measure (\<lambda>(remaining, by_name). fcard remaining)") (simp_all add: cycle_leaves_fewer)

declare block_dependency_cycles.simps [simp del] critical_cycles.simps [simp del]

fun service_type_debug :: "service_type \<Rightarrow> string" where
  "service_type_debug Simple = ''Simple''"
| "service_type_debug Oneshot = ''Oneshot''"

definition block_invalid_health_checks ::
  "string fset \<Rightarrow> definition_map \<Rightarrow> blocked_map \<Rightarrow> blocked_map" where
  "block_invalid_health_checks included by_name blocked =
     fold (\<lambda>service blocked.
         case bt_get by_name service of
           None \<Rightarrow> blocked
         | Some d \<Rightarrow>
             if sd_health_check d = None then blocked
             else if sd_service_type d \<noteq> Simple then
               block_service service (ValidationBlocked
                 (''HealthCheck declared on a '' @ service_type_debug (sd_service_type d)
                  @ '' service; health checks are scheduled for Simple services only'')) blocked
             else if sat_mul (ucast (sd_health_check_retries d)) (sd_health_check_interval_secs d)
                 \<ge> sd_restart_window_secs d then
               block_service service (ValidationBlocked
                 (''HealthCheck timing violates RestartWindow: retries ''
                  @ dec_string (unat (sd_health_check_retries d)) @ '' * interval ''
                  @ dec_string (unat (sd_health_check_interval_secs d)) @ '' >= window ''
                  @ dec_string (unat (sd_restart_window_secs d)))) blocked
             else blocked)
       (sorted_list_of_fset included) blocked"

text \<open>
  \<open>{:?}\<close> of a string, on ASCII; characters beyond ASCII are printed as they are (Rust escapes the
  unprintable ones among them).
\<close>

definition debug_char :: "char \<Rightarrow> string" where
  "debug_char c =
     (if c = CHR 0x22 then [CHR 0x5C, CHR 0x22]
      else if c = CHR 0x5C then [CHR 0x5C, CHR 0x5C]
      else if c = CHR 0x0A then [CHR 0x5C, CHR ''n'']
      else if c = CHR 0x0D then [CHR 0x5C, CHR ''r'']
      else if c = CHR 0x09 then [CHR 0x5C, CHR ''t'']
      else if c = CHR 0x00 then [CHR 0x5C, CHR ''0'']
      else if (of_char c :: nat) < 32 \<or> c = CHR 0x7F then
        [CHR 0x5C] @ ''u{''
        @ (let n = of_char c :: nat;
               digit = (\<lambda>k. char_of (if k < 10 then 48 + k else 87 + k))
           in if n < 16 then [digit n] else [digit (n div 16), digit (n mod 16)]) @ ''}''
      else [c])"

definition debug_string :: "string \<Rightarrow> string" where
  "debug_string s = [CHR 0x22] @ concat (map debug_char s) @ [CHR 0x22]"

definition block_invalid_timer_schedules ::
  "(string \<Rightarrow> string option) \<Rightarrow> definition_map \<Rightarrow> blocked_map \<Rightarrow> blocked_map" where
  "block_invalid_timer_schedules tz_get by_name blocked =
     fold (\<lambda>d. fold (\<lambda>trigger blocked.
         case trigger of
           TimerTrigger schedule \<Rightarrow>
             (case parse_calendar_schedule tz_get schedule of
                Inl error \<Rightarrow>
                  block_service (sd_name d) (ValidationBlocked
                    (''Timer schedule '' @ debug_string schedule @ '' is invalid: ''
                     @ calendar_error_text error)) blocked
              | Inr _ \<Rightarrow> blocked)
         | _ \<Rightarrow> blocked) (sd_triggers d))
       (bt_values by_name) blocked"

definition startable_services :: "string fset \<Rightarrow> blocked_map \<Rightarrow> string fset" where
  "startable_services included blocked = ffilter (\<lambda>service. \<not> bt_contains_key blocked service) included"

text \<open>The loop of \<open>start_order_after_validation\<close>: \<open>None\<close> is a loop that never ends.\<close>

partial_function (option) validated_order ::
  "string fset \<Rightarrow> definition_map \<Rightarrow> blocked_map \<Rightarrow> (string list \<times> blocked_map) option" where
  "validated_order included by_name blocked =
     Option.bind (propagate_blocked included by_name blocked) (\<lambda>blocked.
       case dependency_start_order (startable_services included blocked) (order_targets by_name) of
         Inr order \<Rightarrow> Some (order, blocked)
       | Inl services \<Rightarrow> validated_order included by_name (block_cycle services blocked))"

declare validated_order.simps [code]

definition start_order_after_validation ::
  "(string \<Rightarrow> string option) \<Rightarrow> string fset \<Rightarrow> definition_map \<Rightarrow> blocked_map
   \<Rightarrow> (string list \<times> blocked_map) option" where
  "start_order_after_validation tz_get included by_name blocked =
     validated_order included by_name
       (block_dependency_cycles included by_name
         (block_invalid_health_checks included by_name
           (block_invalid_timer_schedules tz_get by_name blocked)))"

section \<open>The graph\<close>

fun collect_startable ::
  "definition_map \<Rightarrow> string list \<Rightarrow> phase2_boot_plan_error + startable_service list" where
  "collect_startable by_name [] = Inr []"
| "collect_startable by_name (service # services) =
     and_then (make_startable_service service by_name) (\<lambda>s.
       and_then (collect_startable by_name services) (\<lambda>ss. Inr (s # ss)))"

definition build_phase2_boot_graph ::
  "(string \<Rightarrow> string option) \<Rightarrow> boot_mode \<Rightarrow> service_definition list
   \<Rightarrow> (phase2_boot_plan_error + phase2_boot_graph) option" where
  "build_phase2_boot_graph tz_get mode services =
     (case service_map services of
        Inl e \<Rightarrow> Some (Inl e)
      | Inr by_name \<Rightarrow>
          Option.bind (collect_boot_closure mode services by_name) (\<lambda>(included, blocked0).
            Option.bind
              (start_order_after_validation tz_get included by_name
                (block_unresolvable_conflicts included by_name blocked0)) (\<lambda>(order, blocked).
              Some (and_then (collect_startable by_name order) (\<lambda>ordered.
                Inr \<lparr>bg_ordered_startable = ordered, bg_blocked = bt_values blocked\<rparr>)))))"

definition safe_mode_downgrade_findings ::
  "service_definition list \<Rightarrow> (phase2_boot_plan_error + safe_mode_downgrade list) option" where
  "safe_mode_downgrade_findings services =
     (case service_map services of
        Inl e \<Rightarrow> Some (Inl e)
      | Inr by_name \<Rightarrow>
          map_option (\<lambda>(included, blocked). Inr
              (map (\<lambda>(service, target). CriticalBootConflict service target)
                 (critical_boot_conflicts included by_name)
               @ map CriticalCycle (critical_cycles included by_name)))
            (collect_boot_closure FullBoot services by_name))"

section \<open>The service map and the findings\<close>

definition map_keyed :: "definition_map \<Rightarrow> bool" where
  "map_keyed by_name \<longleftrightarrow> (\<forall>k d. bt_get by_name k = Some d \<longrightarrow> sd_name d = k)"

lemma map_keyedD: "map_keyed m \<Longrightarrow> bt_get m k = Some d \<Longrightarrow> sd_name d = k"
  by (simp add: map_keyed_def)

lemma service_map_from_get:
  "service_map_from m ds = Inr m' \<Longrightarrow> map_keyed m \<Longrightarrow>
   map_keyed m' \<and> (\<forall>k d. bt_get m' k = Some d \<longleftrightarrow> bt_get m k = Some d \<or> d \<in> set ds \<and> sd_name d = k)"
proof (induction m ds rule: service_map_from.induct)
  case (2 m d ds)
  then have fresh: "bt_get m (sd_name d) = None" and rest: "service_map_from (bt_insert (sd_name d) d m) ds = Inr m'"
    by (simp_all add: bt_contains_key_def split: if_splits)
  moreover have "map_keyed (bt_insert (sd_name d) d m)" using 2(3) by (simp add: map_keyed_def)
  ultimately show ?case using 2(1) by (auto simp: bt_contains_key_def split: if_splits)
qed simp

lemma service_map_get:
  assumes "service_map services = Inr by_name"
  shows "map_keyed by_name" "bt_get by_name k = Some d \<longleftrightarrow> d \<in> set services \<and> sd_name d = k"
proof -
  have "map_keyed (bt_empty :: definition_map)" by (simp add: map_keyed_def)
  then show "map_keyed by_name" "bt_get by_name k = Some d \<longleftrightarrow> d \<in> set services \<and> sd_name d = k"
    using service_map_from_get [of bt_empty services by_name] assms by (simp_all add: service_map_def)
qed

text \<open>The names with a finding, and drafts stored under their own names.\<close>

definition blocked_names :: "blocked_map \<Rightarrow> string set" where
  "blocked_names blocked = dom (bt_get blocked)"

definition drafts_keyed :: "blocked_map \<Rightarrow> bool" where
  "drafts_keyed blocked \<longleftrightarrow> (\<forall>k b. bt_get blocked k = Some b \<longrightarrow> bs_service b = k)"

lemma blocked_block_service [simp]:
  "blocked_names (block_service service reason blocked) = insert service (blocked_names blocked)"
  by (auto simp: blocked_names_def block_service_def split: option.splits if_splits)

lemma contains_key_blocked [simp]: "bt_contains_key blocked k \<longleftrightarrow> k \<in> blocked_names blocked"
  by (auto simp: blocked_names_def bt_contains_key_def)

lemma drafts_keyed_block [simp]:
  "drafts_keyed blocked \<Longrightarrow> drafts_keyed (block_service service reason blocked)"
  by (auto simp: drafts_keyed_def block_service_def split: option.splits if_splits)

text \<open>Steps that only add findings.\<close>

definition adds_findings :: "(blocked_map \<Rightarrow> blocked_map) \<Rightarrow> bool" where
  "adds_findings f \<longleftrightarrow>
     (\<forall>blocked. blocked_names blocked \<subseteq> blocked_names (f blocked)
        \<and> (drafts_keyed blocked \<longrightarrow> drafts_keyed (f blocked)))"

lemma adds_findingsD:
  assumes "adds_findings f"
  shows "x \<in> blocked_names b \<Longrightarrow> x \<in> blocked_names (f b)" "drafts_keyed b \<Longrightarrow> drafts_keyed (f b)"
  using assms unfolding adds_findings_def by blast+

lemma adds_findings_block [simp]: "adds_findings (block_service service reason)"
  by (auto simp: adds_findings_def)

lemma adds_findings_same [simp]: "adds_findings (\<lambda>blocked. blocked)"
  by (simp add: adds_findings_def)

lemma adds_findings_comp:
  "adds_findings f \<Longrightarrow> adds_findings g \<Longrightarrow> adds_findings (\<lambda>blocked. g (f blocked))"
  unfolding adds_findings_def by blast

lemma adds_findings_fold:
  "(\<And>x. x \<in> set xs \<Longrightarrow> adds_findings (f x)) \<Longrightarrow> adds_findings (fold f xs)"
proof (induction xs)
  case (Cons x xs)
  then have "adds_findings (\<lambda>b. fold f xs (f x b))"
    using adds_findings_comp [of "f x" "fold f xs"] by simp
  then show ?case by (simp add: comp_def)
qed (simp add: adds_findings_def)

lemma block_cycle_names:
  "blocked_names (block_cycle services blocked) = blocked_names blocked \<union> set services"
proof -
  have "blocked_names (fold (\<lambda>s. block_service s (CycleBlocked c)) ss b) = blocked_names b \<union> set ss" for c ss b
    by (induction ss arbitrary: b) auto
  then show ?thesis by (simp add: block_cycle_def)
qed

lemma adds_findings_cycle: "adds_findings (block_cycle services)"
  unfolding block_cycle_def by (rule adds_findings_fold) simp

lemma adds_findings_cycles: "adds_findings (block_dependency_cycles included by_name)"
proof -
  have "blocked_names b \<subseteq> blocked_names (block_dependency_cycles included by_name b)
      \<and> (drafts_keyed b \<longrightarrow> drafts_keyed (block_dependency_cycles included by_name b))" for b
  proof (induction included by_name b rule: block_dependency_cycles.induct)
    case (1 remaining by_name b)
    show ?case
    proof (cases "remaining = {||} \<or> is_ok (dependency_start_order remaining (order_targets by_name))")
      case True
      then show ?thesis
        by (subst (1 2) block_dependency_cycles.simps) (auto split: sum.split)
    next
      case False
      then obtain c where c: "remaining \<noteq> {||}" "dependency_start_order remaining (order_targets by_name) = Inl c"
        by (cases "dependency_start_order remaining (order_targets by_name)") auto
      show ?thesis
        using 1 [OF c] c adds_findingsD [OF adds_findings_cycle]
        by (subst (1 2) block_dependency_cycles.simps) (auto simp: subset_iff)
    qed
  qed
  then show ?thesis by (simp add: adds_findings_def)
qed

text \<open>A step that is, on each input, either nothing or one finding.\<close>

lemma adds_findings_cases:
  "(\<And>b. f b = b \<or> (\<exists>s r. f b = block_service s r b)) \<Longrightarrow> adds_findings f"
  unfolding adds_findings_def by (metis blocked_block_service drafts_keyed_block subset_insertI subset_refl)

lemma adds_findings_conflicts: "adds_findings (block_unresolvable_conflicts included by_name)"
  unfolding block_unresolvable_conflicts_def
proof (rule adds_findings_fold)
  fix service
  have "adds_findings (fold (\<lambda>target blocked. block_service target (ConflictingBootService service)
      (block_service service (ConflictingBootService target) blocked)) ts)" for ts
    by (rule adds_findings_fold) (rule adds_findings_comp [OF adds_findings_block adds_findings_block])
  then show "adds_findings (\<lambda>blocked. case bt_get by_name service of
       None \<Rightarrow> blocked
     | Some d \<Rightarrow>
         if \<not> has_boot_trigger d then blocked
         else fold (\<lambda>target blocked.
             block_service target (ConflictingBootService service)
               (block_service service (ConflictingBootService target) blocked))
           (boot_conflict_targets included by_name d) blocked)"
    by (cases "bt_get by_name service"; cases "has_boot_trigger (the (bt_get by_name service))") simp_all
qed

lemma adds_findings_health: "adds_findings (block_invalid_health_checks included by_name)"
  unfolding block_invalid_health_checks_def
  by (rule adds_findings_fold, rule adds_findings_cases) (simp split: option.split, blast)

lemma adds_findings_timers: "adds_findings (block_invalid_timer_schedules tz_get by_name)"
  unfolding block_invalid_timer_schedules_def
  by (rule adds_findings_fold, rule adds_findings_fold, rule adds_findings_cases)
    (simp split: service_trigger.split sum.split, blast)

section \<open>Propagation\<close>

text \<open>No startable service has a blocked hard dependency.\<close>

definition hard_closed :: "string set \<Rightarrow> definition_map \<Rightarrow> blocked_map \<Rightarrow> bool" where
  "hard_closed included by_name blocked \<longleftrightarrow>
     (\<forall>service d dep. service \<in> included \<and> service \<notin> blocked_names blocked
        \<and> bt_get by_name service = Some d \<and> dep \<in> set (hard_dependencies d)
        \<longrightarrow> dep_target dep \<notin> blocked_names blocked)"

lemma hard_closed_insert:
  "hard_closed (insert service S) by_name blocked \<longleftrightarrow>
   hard_closed {service} by_name blocked \<and> hard_closed S by_name blocked"
  unfolding hard_closed_def by blast

lemma propagate_pass_effect:
  assumes "map_keyed by_name" and "propagate_pass by_name services (changed, blocked) = (changed', blocked')"
  shows "blocked_names blocked \<subseteq> blocked_names blocked'
    \<and> blocked_names blocked' \<subseteq> blocked_names blocked \<union> set services
    \<and> (drafts_keyed blocked \<longrightarrow> drafts_keyed blocked')
    \<and> (if changed' then changed \<or> blocked_names blocked \<noteq> blocked_names blocked'
       else \<not> changed \<and> blocked' = blocked \<and> hard_closed (set services) by_name blocked)"
  using assms(2)
proof (induction services arbitrary: changed blocked)
  case Nil
  then show ?case by (simp add: hard_closed_def)
next
  case (Cons service services)
  let ?found = "\<lambda>d. find (\<lambda>dep. bt_contains_key blocked (dep_target dep)) (hard_dependencies d)"
  show ?case
  proof (cases "\<exists>d dep. service \<notin> blocked_names blocked \<and> bt_get by_name service = Some d \<and> ?found d = Some dep")
    case True
    then obtain d dep where d: "service \<notin> blocked_names blocked" "bt_get by_name service = Some d" "?found d = Some dep"
      by blast
    have name: "sd_name d = service" by (rule map_keyedD [OF assms(1) d(2)])
    let ?b = "block_service (sd_name d) (HardDependencyBlocked (dep_target dep) (dep_kind dep)) blocked"
    have "propagate_pass by_name services (True, ?b) = (changed', blocked')"
      using Cons.prems d by simp
    from Cons.IH [OF this] show ?thesis using d(1) name by (auto split: if_splits)
  next
    case False
    then have step: "propagate_pass by_name services (changed, blocked) = (changed', blocked')"
      using Cons.prems by (auto split: option.splits if_splits)
    have "hard_closed {service} by_name blocked"
      using False unfolding hard_closed_def by (auto simp: find_None_iff)
    then show ?thesis
      using Cons.IH [OF step] hard_closed_insert [of service "set services"] by (auto split: if_splits)
  qed
qed

lemma propagate_blocked_ends:
  assumes keyed: "map_keyed by_name"
  shows "\<exists>blocked'. propagate_blocked included by_name blocked = Some blocked'
    \<and> blocked_names blocked \<subseteq> blocked_names blocked'
    \<and> blocked_names blocked' \<subseteq> blocked_names blocked \<union> fset included
    \<and> (drafts_keyed blocked \<longrightarrow> drafts_keyed blocked')
    \<and> hard_closed (fset included) by_name blocked'"
proof -
  let ?pass = "\<lambda>(changed, blocked). propagate_pass by_name (sorted_list_of_fset included) (False, blocked)"
  define I where "I st \<longleftrightarrow> blocked_names blocked \<subseteq> blocked_names (snd st)
    \<and> blocked_names (snd st) \<subseteq> blocked_names blocked \<union> fset included
    \<and> (drafts_keyed blocked \<longrightarrow> drafts_keyed (snd st))
    \<and> (\<not> fst st \<longrightarrow> hard_closed (fset included) by_name (snd st))" for st
  define left where "left st = 2 * card (fset included - blocked_names (snd st)) + of_bool (fst st)" for st
  have step: "I (?pass st) \<and> left (?pass st) < left st" if "I st" "fst st" for st
  proof -
    obtain c' b' where run: "?pass st = (c', b')" by (cases "?pass st")
    note effect = propagate_pass_effect [OF keyed, of "sorted_list_of_fset included" False "snd st" c' b']
    have e: "blocked_names (snd st) \<subseteq> blocked_names b'"
      "blocked_names b' \<subseteq> blocked_names (snd st) \<union> fset included" "drafts_keyed (snd st) \<longrightarrow> drafts_keyed b'"
      "if c' then blocked_names (snd st) \<noteq> blocked_names b' else b' = snd st \<and> hard_closed (fset included) by_name (snd st)"
      using effect run by (auto simp: case_prod_unfold split: if_splits)
    have "A \<subseteq> B \<Longrightarrow> B \<subseteq> A \<union> C \<Longrightarrow> A \<noteq> B \<Longrightarrow> C - B \<subset> C - A" for A B C :: "string set" by blast
    then have "c' \<Longrightarrow> fset included - blocked_names b' \<subset> fset included - blocked_names (snd st)"
      using e(1,2,4) by simp
    then have "c' \<Longrightarrow> card (fset included - blocked_names b') < card (fset included - blocked_names (snd st))"
      by (intro psubset_card_mono) auto
    then have "left (c', b') < left st" using e(4) that(2) by (cases c') (auto simp: left_def)
    moreover have "I (c', b')" using that(1) e by (auto simp: I_def split: if_splits)
    ultimately show ?thesis by (simp only: run)
  qed
  have start: "I (True, blocked)" by (simp add: I_def)
  obtain st where st: "while_option fst ?pass (True, blocked) = Some st"
    using measure_while_option_Some [of I fst ?pass left "(True, blocked)"] step start by blast
  have "I st" using while_option_rule [of I fst ?pass, OF _ st] step start by blast
  moreover have "\<not> fst st" using while_option_stop [OF st] .
  ultimately show ?thesis
    using st by (auto simp: propagate_blocked_def I_def)
qed

section \<open>The start order is found\<close>

lemma validated_order_ends:
  assumes keyed: "map_keyed by_name"
  shows "\<exists>order blocked'. validated_order included by_name blocked = Some (order, blocked')
    \<and> blocked_names blocked \<subseteq> blocked_names blocked'
    \<and> (drafts_keyed blocked \<longrightarrow> drafts_keyed blocked')
    \<and> hard_closed (fset included) by_name blocked'
    \<and> set order = fset included - blocked_names blocked' \<and> distinct order
    \<and> dependency_ordered (startable_services included blocked') (order_targets by_name) order"
proof (induction "card (fset included - blocked_names blocked)" arbitrary: blocked rule: less_induct)
  case less
  obtain b where b: "propagate_blocked included by_name blocked = Some b"
    "blocked_names blocked \<subseteq> blocked_names b" "drafts_keyed blocked \<longrightarrow> drafts_keyed b"
    "hard_closed (fset included) by_name b"
    using propagate_blocked_ends [OF keyed, of included blocked] by blast
  let ?S = "startable_services included b"
  have S: "fset ?S = fset included - blocked_names b" by (auto simp: startable_services_def)
  note unfold = validated_order.simps [of included by_name blocked]
  show ?case
  proof (cases "dependency_start_order ?S (order_targets by_name)")
    case (Inr order)
    then show ?thesis
      unfolding unfold using b S start_order_sound [OF Inr] by auto
  next
    case (Inl c)
    have c: "c \<noteq> []" "set c \<subseteq> fset ?S" using start_order_cycle [OF Inl] by (simp_all add: dependency_cycle_def)
    let ?b = "block_cycle c b"
    have names: "blocked_names ?b = blocked_names b \<union> set c" by (rule block_cycle_names)
    have "fset included - blocked_names ?b \<subset> fset included - blocked_names blocked"
      using c S b(2) unfolding names by (cases c) auto
    then have "card (fset included - blocked_names ?b) < card (fset included - blocked_names blocked)"
      by (intro psubset_card_mono) auto
    from less [OF this] obtain order b' where rec: "validated_order included by_name ?b = Some (order, b')"
      "blocked_names ?b \<subseteq> blocked_names b'" "drafts_keyed ?b \<longrightarrow> drafts_keyed b'"
      and good: "hard_closed (fset included) by_name b'"
        "set order = fset included - blocked_names b'" "distinct order"
        "dependency_ordered (startable_services included b') (order_targets by_name) order"
      by blast
    have "validated_order included by_name blocked = Some (order, b')"
      unfolding unfold using b(1) Inl rec(1) by simp
    moreover have "blocked_names blocked \<subseteq> blocked_names b'" using b(2) rec(2) names by blast
    moreover have "drafts_keyed blocked \<longrightarrow> drafts_keyed b'"
      using b(3) rec(3) adds_findingsD(2) [OF adds_findings_cycle] by blast
    ultimately show ?thesis using good by blast
  qed
qed

section \<open>The closure is complete\<close>

definition edges_met :: "boot_mode \<Rightarrow> definition_map \<Rightarrow> service_definition \<Rightarrow> closure_state \<Rightarrow> bool" where
  "edges_met mode by_name d st \<longleftrightarrow>
     (\<forall>e \<in> set (closure_edges mode by_name d).
        case e of FollowEdge t \<Rightarrow> t |\<in>| fst st | BlockEdge x reason \<Rightarrow> x \<in> blocked_names (snd st))"

definition closure_le :: "closure_state \<Rightarrow> closure_state \<Rightarrow> bool" where
  "closure_le st st' \<longleftrightarrow>
     fst st |\<subseteq>| fst st' \<and> blocked_names (snd st) \<subseteq> blocked_names (snd st')
     \<and> (drafts_keyed (snd st) \<longrightarrow> drafts_keyed (snd st'))"

lemma closure_le_refl [simp]: "closure_le st st"
  by (simp add: closure_le_def)

lemma closure_le_trans: "closure_le a b \<Longrightarrow> closure_le b c \<Longrightarrow> closure_le a c"
  by (auto simp: closure_le_def)

lemma edges_met_mono: "edges_met mode by_name d st \<Longrightarrow> closure_le st st' \<Longrightarrow> edges_met mode by_name d st'"
  unfolding edges_met_def closure_le_def
  by (fastforce split: closure_edge.splits)

text \<open>A service that may be followed to.\<close>

definition admissible :: "boot_mode \<Rightarrow> definition_map \<Rightarrow> string \<Rightarrow> bool" where
  "admissible mode by_name service \<longleftrightarrow>
     (\<exists>d. bt_get by_name service = Some d \<and> \<not> sd_disabled d \<and> dependency_eligible mode d)"

lemma edge_admissible:
  assumes "map_keyed by_name" and "FollowEdge t \<in> set (closure_edges mode by_name d)"
  shows "admissible mode by_name t"
proof -
  from assms(2) consider dep where "FollowEdge t \<in> set (hard_edge mode by_name d dep)"
    | declared where "FollowEdge t \<in> set (wants_edge mode by_name declared)"
    by (auto simp: closure_edges_def)
  then obtain k target where "bt_get by_name k = Some target" "\<not> sd_disabled target"
    "dependency_eligible mode target" "t = sd_name target"
    by cases (force simp: hard_edge_def wants_edge_def split: option.splits if_splits)+
  then show ?thesis using map_keyedD [OF assms(1), of k target] by (auto simp: admissible_def)
qed

text \<open>What a walk adds is admissible, and its dependencies are dealt with at the end of the walk.\<close>

definition walk_complete ::
  "boot_mode \<Rightarrow> definition_map \<Rightarrow> closure_state \<Rightarrow> closure_state \<Rightarrow> bool" where
  "walk_complete mode by_name st st' \<longleftrightarrow>
     closure_le st st'
     \<and> (\<forall>s d. s |\<in>| fst st' \<and> s |\<notin>| fst st \<and> bt_get by_name s = Some d \<longrightarrow> edges_met mode by_name d st')"

lemma walk_complete_trans:
  assumes "walk_complete mode by_name a b" "walk_complete mode by_name b c"
  shows "walk_complete mode by_name a c"
proof -
  have le: "closure_le a b" "closure_le b c" using assms by (simp_all add: walk_complete_def)
  have "edges_met mode by_name d c" if "s |\<in>| fst c" "s |\<notin>| fst a" "bt_get by_name s = Some d" for s d
  proof (cases "s |\<in>| fst b")
    case True
    then have "edges_met mode by_name d b" using assms(1) that by (auto simp: walk_complete_def)
    then show ?thesis using edges_met_mono le(2) by blast
  next
    case False
    then show ?thesis using assms(2) that by (auto simp: walk_complete_def)
  qed
  then show ?thesis using closure_le_trans [OF le] unfolding walk_complete_def by blast
qed

lemma include_closure_complete:
  "walk_complete mode by_name st (include_closure mode by_name service st)
   \<and> service |\<in>| fst (include_closure mode by_name service st)
   \<and> (map_keyed by_name \<and> admissible mode by_name service \<longrightarrow>
        (\<forall>s. s |\<in>| fst (include_closure mode by_name service st) \<and> s |\<notin>| fst st \<longrightarrow> admissible mode by_name s))"
  "walk_complete mode by_name st (follow_edges mode by_name es st)
   \<and> (\<forall>e \<in> set es. case e of
          FollowEdge t \<Rightarrow> t |\<in>| fst (follow_edges mode by_name es st)
        | BlockEdge x reason \<Rightarrow> x \<in> blocked_names (snd (follow_edges mode by_name es st)))
   \<and> (map_keyed by_name \<and> (\<forall>t. FollowEdge t \<in> set es \<longrightarrow> admissible mode by_name t) \<longrightarrow>
        (\<forall>s. s |\<in>| fst (follow_edges mode by_name es st) \<and> s |\<notin>| fst st \<longrightarrow> admissible mode by_name s))"
proof (induction mode by_name service st and mode by_name es st
    rule: include_closure_follow_edges.induct)
  case (1 mode by_name service included blocked)
  show ?case
  proof (cases "service |\<in>| included")
    case True
    then show ?thesis by (auto simp: walk_complete_def)
  next
    case False
    show ?thesis
    proof (cases "bt_get by_name service")
      case None
      then show ?thesis using False by (auto simp: walk_complete_def closure_le_def)
    next
      case (Some d)
      let ?st = "(finsert service included, blocked)"
      let ?final = "follow_edges mode by_name (closure_edges mode by_name d) ?st"
      have eq: "include_closure mode by_name service (included, blocked) = ?final" using False Some by simp
      note IH = 1 [OF False Some]
      have le: "closure_le ?st ?final" using IH by (simp add: walk_complete_def)
      have "edges_met mode by_name d ?final" using IH by (simp add: edges_met_def)
      moreover have "edges_met mode by_name d' ?final"
        if "s |\<in>| fst ?final" "s \<noteq> service" "s |\<notin>| included" "bt_get by_name s = Some d'" for s d'
        using IH that unfolding walk_complete_def by (metis finsert_iff fst_conv)
      ultimately have "\<forall>s d'. s |\<in>| fst ?final \<and> s |\<notin>| included \<and> bt_get by_name s = Some d' \<longrightarrow>
          edges_met mode by_name d' ?final"
        using Some by (metis option.inject)
      moreover have "closure_le (included, blocked) ?final"
        using le by (auto simp: closure_le_def)
      ultimately have "walk_complete mode by_name (included, blocked) ?final"
        by (simp add: walk_complete_def)
      moreover have "service |\<in>| fst ?final" using le by (auto simp: closure_le_def)
      moreover have "map_keyed by_name \<and> admissible mode by_name service \<longrightarrow>
          (\<forall>s. s |\<in>| fst ?final \<and> s |\<notin>| fst (included, blocked) \<longrightarrow> admissible mode by_name s)"
        using IH edge_admissible by auto
      ultimately show ?thesis unfolding eq by blast
    qed
  qed
next
  case (2 mode by_name st)
  then show ?case by (auto simp: walk_complete_def)
next
  case (3 mode by_name service es st)
  let ?mid = "include_closure mode by_name service st"
  have le: "closure_le ?mid (follow_edges mode by_name es ?mid)"
    using 3(2) by (simp add: walk_complete_def)
  have walk: "walk_complete mode by_name st (follow_edges mode by_name es ?mid)"
    using walk_complete_trans 3 by blast
  have "service |\<in>| fst (follow_edges mode by_name es ?mid)" using 3(1) le by (auto simp: closure_le_def)
  then have "\<forall>e \<in> set (FollowEdge service # es). case e of
        FollowEdge t \<Rightarrow> t |\<in>| fst (follow_edges mode by_name es ?mid)
      | BlockEdge x reason \<Rightarrow> x \<in> blocked_names (snd (follow_edges mode by_name es ?mid))"
    using 3(2) by simp
  moreover have "admissible mode by_name s"
    if "map_keyed by_name" "\<forall>t. FollowEdge t \<in> set (FollowEdge service # es) \<longrightarrow> admissible mode by_name t"
      "s |\<in>| fst (follow_edges mode by_name es ?mid)" "s |\<notin>| fst st" for s
    using 3 that by (cases "s |\<in>| fst ?mid") (meson list.set_intros)+
  ultimately show ?case using walk unfolding follow_edges.simps by blast
next
  case (4 mode by_name service reason es included blocked)
  let ?mid = "(included, block_service service reason blocked)"
  have "walk_complete mode by_name (included, blocked) ?mid" by (auto simp: walk_complete_def closure_le_def)
  then have walk: "walk_complete mode by_name (included, blocked) (follow_edges mode by_name es ?mid)"
    using walk_complete_trans 4 by blast
  have "closure_le ?mid (follow_edges mode by_name es ?mid)" using 4 by (simp add: walk_complete_def)
  then have "service \<in> blocked_names (snd (follow_edges mode by_name es ?mid))" by (auto simp: closure_le_def)
  then show ?case using walk 4 unfolding follow_edges.simps by simp
qed

text \<open>The closure a boot collects.\<close>

lemma include_roots_complete:
  fixes st :: closure_state
  assumes keyed: "map_keyed by_name" and roots: "\<forall>r \<in> set roots. admissible mode by_name r"
  defines "st' \<equiv> fold (include_closure mode by_name) roots st"
  shows "walk_complete mode by_name st st'" "set roots \<subseteq> fset (fst st')"
    "\<forall>s. s |\<in>| fst st' \<and> s |\<notin>| fst st \<longrightarrow> admissible mode by_name s"
proof -
  have "walk_complete mode by_name st (fold (include_closure mode by_name) roots st)
    \<and> set roots \<subseteq> fset (fst (fold (include_closure mode by_name) roots st))
    \<and> (\<forall>s. s |\<in>| fst (fold (include_closure mode by_name) roots st) \<and> s |\<notin>| fst st \<longrightarrow> admissible mode by_name s)"
    using roots
  proof (induction roots arbitrary: st)
    case Nil
    then show ?case by (auto simp: walk_complete_def)
  next
    case (Cons r roots)
    let ?mid = "include_closure mode by_name r st"
    let ?final = "fold (include_closure mode by_name) roots ?mid"
    have mid: "walk_complete mode by_name st ?mid" "r |\<in>| fst ?mid"
      "\<forall>s. s |\<in>| fst ?mid \<and> s |\<notin>| fst st \<longrightarrow> admissible mode by_name s"
      using include_closure_complete(1) [of mode by_name st r] keyed Cons.prems by auto
    have rest: "walk_complete mode by_name ?mid ?final" "set roots \<subseteq> fset (fst ?final)"
      "\<forall>s. s |\<in>| fst ?final \<and> s |\<notin>| fst ?mid \<longrightarrow> admissible mode by_name s"
      using Cons.IH [of ?mid] Cons.prems by simp_all
    have "r |\<in>| fst ?final" using mid(2) rest(1) by (auto simp: walk_complete_def closure_le_def)
    then show ?case
      using walk_complete_trans [OF mid(1) rest(1)] mid(3) rest(2,3) by auto
  qed
  then show "walk_complete mode by_name st st'" "set roots \<subseteq> fset (fst st')"
    "\<forall>s. s |\<in>| fst st' \<and> s |\<notin>| fst st \<longrightarrow> admissible mode by_name s"
    by (simp_all add: st'_def)
qed

lemma boot_roots_admissible:
  assumes "service_map services = Inr by_name" and "r \<in> set (boot_roots services mode)"
  shows "admissible mode by_name r"
  using assms(2) service_map_get(2) [OF assms(1)]
  by (auto simp: boot_roots_def admissible_def dependency_eligible_def)

lemma collect_boot_closure_complete:
  assumes services: "service_map services = Inr by_name"
  shows "\<exists>included blocked. collect_boot_closure mode services by_name = Some (included, blocked)
    \<and> drafts_keyed blocked \<and> set (boot_roots services mode) \<subseteq> fset included
    \<and> (\<forall>s. s |\<in>| included \<longrightarrow> admissible mode by_name s)
    \<and> (\<forall>s d. s |\<in>| included \<and> bt_get by_name s = Some d \<longrightarrow> edges_met mode by_name d (included, blocked))"
proof -
  have keyed: "map_keyed by_name" by (rule service_map_get(1) [OF services])
  obtain included blocked where walk:
    "fold (include_closure mode by_name) (boot_roots services mode) ({||}, bt_empty) = (included, blocked)"
    by fastforce
  have "\<forall>r \<in> set (boot_roots services mode). admissible mode by_name r"
    using boot_roots_admissible [OF services] by blast
  note complete = include_roots_complete [OF keyed this, of "({||}, bt_empty)", unfolded walk]
  obtain blocked' where pb: "propagate_blocked included by_name blocked = Some blocked'"
    "blocked_names blocked \<subseteq> blocked_names blocked'" "drafts_keyed blocked \<longrightarrow> drafts_keyed blocked'"
    using propagate_blocked_ends [OF keyed, of included blocked] by blast
  have "drafts_keyed bt_empty" by (simp add: drafts_keyed_def)
  then have drafts: "drafts_keyed blocked'"
    using complete(1) pb(3) by (auto simp: walk_complete_def closure_le_def)
  have le: "closure_le (included, blocked) (included, blocked')"
    using pb by (simp add: closure_le_def)
  have "edges_met mode by_name d (included, blocked')" if "s |\<in>| included" "bt_get by_name s = Some d" for s d
    using complete(1) that edges_met_mono [OF _ le] by (auto simp: walk_complete_def)
  moreover have "collect_boot_closure mode services by_name = Some (included, blocked')"
    using pb(1) by (simp add: collect_boot_closure_def walk)
  ultimately show ?thesis using complete(2,3) drafts by auto
qed

lemma fold_finding:
  assumes "x \<in> set xs" and adds: "\<And>y. adds_findings (f y)" and "\<And>b. n \<in> blocked_names (f x b)"
  shows "n \<in> blocked_names (fold f xs b)"
proof -
  obtain ys zs where xs: "xs = ys @ x # zs" using assms(1) by (auto simp: in_set_conv_decomp)
  have "n \<in> blocked_names (f x (fold f ys b))" by (rule assms(3))
  then show ?thesis
    using adds_findingsD(1) [OF adds_findings_fold [of zs f]] adds by (simp add: xs)
qed

lemma conflicting_is_blocked:
  assumes "service |\<in>| included" "bt_get by_name service = Some d" "has_boot_trigger d"
    and "target \<in> set (boot_conflict_targets included by_name d)"
  shows "service \<in> blocked_names (block_unresolvable_conflicts included by_name blocked)"
proof -
  let ?pair = "\<lambda>service target b. block_service target (ConflictingBootService service)
      (block_service service (ConflictingBootService target) b)"
  let ?step = "\<lambda>service b. case bt_get by_name service of
       None \<Rightarrow> b
     | Some d \<Rightarrow> if \<not> has_boot_trigger d then b
         else fold (?pair service) (boot_conflict_targets included by_name d) b"
  have pairs: "adds_findings (fold (?pair s) ts)" for s ts
    by (rule adds_findings_fold) (rule adds_findings_comp [OF adds_findings_block adds_findings_block])
  have "adds_findings (?step s)" for s
    using pairs by (cases "bt_get by_name s"; cases "has_boot_trigger (the (bt_get by_name s))") simp_all
  moreover have "service \<in> blocked_names (?step service b)" for b
  proof -
    have "service \<in> blocked_names (fold (?pair service) (boot_conflict_targets included by_name d) b)"
      by (rule fold_finding [OF assms(4)])
        (simp_all add: adds_findings_comp [OF adds_findings_block adds_findings_block])
    then show ?thesis using assms by simp
  qed
  ultimately show ?thesis
    unfolding block_unresolvable_conflicts_def
    using assms(1) by (intro fold_finding [of service]) (auto simp: sorted_list_of_fset.rep_eq)
qed

lemma collect_startable_names:
  "(\<forall>s \<in> set order. bt_get by_name s \<noteq> None) \<Longrightarrow>
   \<exists>ordered. collect_startable by_name order = Inr ordered \<and> map sv_name ordered = order"
  by (induction order) (auto simp: make_startable_service_def)

section \<open>The graph that is built\<close>

text \<open>Everything the build establishes about the included services, the blocked ones and the order.\<close>

definition graph_built ::
  "boot_mode \<Rightarrow> service_definition list \<Rightarrow> definition_map \<Rightarrow> string fset \<Rightarrow> blocked_map \<Rightarrow> string list \<Rightarrow> bool"
where
  "graph_built mode services by_name included blocked order \<longleftrightarrow>
     set order = fset included - blocked_names blocked \<and> distinct order
     \<and> dependency_ordered (startable_services included blocked) (order_targets by_name) order
     \<and> hard_closed (fset included) by_name blocked
     \<and> set (boot_roots services mode) \<subseteq> fset included
     \<and> (\<forall>s. s |\<in>| included \<longrightarrow> admissible mode by_name s)
     \<and> (\<forall>s d. s |\<in>| included \<and> bt_get by_name s = Some d \<longrightarrow> edges_met mode by_name d (included, blocked))
     \<and> (\<forall>s d t. s |\<in>| included \<and> bt_get by_name s = Some d \<and> has_boot_trigger d
          \<and> t \<in> set (boot_conflict_targets included by_name d) \<longrightarrow> s \<in> blocked_names blocked)"

lemma build_phase2_boot_graph_ends:
  assumes services: "service_map services = Inr by_name"
  shows "\<exists>included blocked order g. build_phase2_boot_graph tz_get mode services = Some (Inr g)
    \<and> graph_built mode services by_name included blocked order
    \<and> map sv_name (bg_ordered_startable g) = order \<and> bs_service ` set (bg_blocked g) = blocked_names blocked"
proof -
  have keyed: "map_keyed by_name" by (rule service_map_get(1) [OF services])
  obtain included blocked0 where c: "collect_boot_closure mode services by_name = Some (included, blocked0)"
    "drafts_keyed blocked0" "set (boot_roots services mode) \<subseteq> fset included"
    "\<forall>s. s |\<in>| included \<longrightarrow> admissible mode by_name s"
    "\<forall>s d. s |\<in>| included \<and> bt_get by_name s = Some d \<longrightarrow> edges_met mode by_name d (included, blocked0)"
    using collect_boot_closure_complete [OF services, of mode] by blast
  define blocked1 where "blocked1 = block_unresolvable_conflicts included by_name blocked0"
  define blocked2 where "blocked2 = block_dependency_cycles included by_name
    (block_invalid_health_checks included by_name (block_invalid_timer_schedules tz_get by_name blocked1))"
  note validation = adds_findings_comp [OF adds_findings_timers
      adds_findings_comp [OF adds_findings_health adds_findings_cycles]]
  have adds: "blocked_names blocked0 \<subseteq> blocked_names blocked1" "drafts_keyed blocked1"
    "blocked_names blocked1 \<subseteq> blocked_names blocked2" "drafts_keyed blocked2"
  proof -
    show "blocked_names blocked0 \<subseteq> blocked_names blocked1" and keyed1: "drafts_keyed blocked1"
      unfolding blocked1_def using adds_findingsD [OF adds_findings_conflicts] c(2) by blast+
    show "blocked_names blocked1 \<subseteq> blocked_names blocked2" "drafts_keyed blocked2"
      unfolding blocked2_def
      using adds_findingsD(1) [OF validation, of _ blocked1] adds_findingsD(2) [OF validation keyed1] by blast+
  qed
  obtain order blocked where v: "validated_order included by_name blocked2 = Some (order, blocked)"
    "blocked_names blocked2 \<subseteq> blocked_names blocked" "drafts_keyed blocked2 \<longrightarrow> drafts_keyed blocked"
    "hard_closed (fset included) by_name blocked" "set order = fset included - blocked_names blocked"
    "distinct order" "dependency_ordered (startable_services included blocked) (order_targets by_name) order"
    using validated_order_ends [OF keyed, of included blocked2] by blast
  have "\<forall>s \<in> set order. bt_get by_name s \<noteq> None" using c(4) v(5) by (auto simp: admissible_def)
  then obtain ordered where ord: "collect_startable by_name order = Inr ordered" "map sv_name ordered = order"
    using collect_startable_names by blast
  let ?g = "\<lparr>bg_ordered_startable = ordered, bg_blocked = bt_values blocked\<rparr>"
  have build: "build_phase2_boot_graph tz_get mode services = Some (Inr ?g)"
    using services c(1) v(1) ord(1)
    by (simp add: build_phase2_boot_graph_def start_order_after_validation_def blocked2_def blocked1_def)
  have le: "closure_le (included, blocked0) (included, blocked)"
    using adds v by (auto simp: closure_le_def)
  have "edges_met mode by_name d (included, blocked)" if "s |\<in>| included" "bt_get by_name s = Some d" for s d
    using c(5) that edges_met_mono [OF _ le] by blast
  moreover have "s \<in> blocked_names blocked" if "s |\<in>| included" "bt_get by_name s = Some d" "has_boot_trigger d"
      "t \<in> set (boot_conflict_targets included by_name d)" for s d t
    using conflicting_is_blocked [OF that, of blocked0] adds(3) v(2) by (auto simp: blocked1_def)
  ultimately have "graph_built mode services by_name included blocked order"
    using c(3,4) v(4-7) unfolding graph_built_def by blast
  moreover have "bs_service ` set (bt_values blocked) = blocked_names blocked"
  proof -
    have "drafts_keyed blocked" using adds(4) v(3) by simp
    then show ?thesis
      by (force simp: set_bt_values blocked_names_def ran_def drafts_keyed_def)
  qed
  ultimately show ?thesis using build ord(2) by auto
qed

text \<open>What that means for the definitions.\<close>

lemma graph_built_roots:
  assumes services: "service_map services = Inr by_name"
    and built: "graph_built mode services by_name included blocked order"
    and d: "d \<in> set services" "has_boot_trigger d" "\<not> sd_disabled d" "dependency_eligible mode d"
  shows "sd_name d \<in> set order \<union> blocked_names blocked"
proof -
  have "sd_name d \<in> set (boot_roots services mode)" using d by (simp add: boot_roots_def)
  then show ?thesis using built by (auto simp: graph_built_def)
qed

lemma concat_map_member: "x \<in> set xs \<Longrightarrow> y \<in> set (f x) \<Longrightarrow> y \<in> set (concat (map f xs))"
  by auto

lemma graph_built_dependencies:
  assumes services: "service_map services = Inr by_name"
    and built: "graph_built mode services by_name included blocked order"
    and d: "d \<in> set services" "sd_name d \<in> set order"
  shows "\<not> sd_disabled d"
    and "dep \<in> set (hard_dependencies d) \<Longrightarrow>
      precedes order (dep_target dep) (sd_name d)
      \<or> mode \<noteq> FullBoot
        \<and> (\<exists>t \<in> set services. sd_name t = dep_target dep \<and> \<not> sd_disabled t \<and> \<not> dependency_eligible mode t)"
proof -
  have get: "bt_get by_name (sd_name d) = Some d" using service_map_get(2) [OF services] d(1) by blast
  have inc: "sd_name d |\<in>| included" and free: "sd_name d \<notin> blocked_names blocked"
    using built d(2) by (auto simp: graph_built_def)
  then show "\<not> sd_disabled d" using built get by (fastforce simp: graph_built_def admissible_def)
  assume dep: "dep \<in> set (hard_dependencies d)"
  have "edges_met mode by_name d (included, blocked)" using built inc get by (auto simp: graph_built_def)
  then have met: "e \<in> set (hard_edge mode by_name d dep) \<Longrightarrow>
      case e of FollowEdge t \<Rightarrow> t |\<in>| included | BlockEdge x reason \<Rightarrow> x \<in> blocked_names blocked" for e
    using dep unfolding edges_met_def closure_edges_def fst_conv snd_conv by (metis (mono_tags) UnCI set_append concat_map_member)
  have unblocked: "\<not> (\<exists>reason. BlockEdge (sd_name d) reason \<in> set (hard_edge mode by_name d dep))"
    using met free by fastforce
  obtain t where t: "bt_get by_name (dep_target dep) = Some t"
    using unblocked by (cases "bt_get by_name (dep_target dep)") (auto simp: hard_edge_def)
  then have t': "t \<in> set services" "sd_name t = dep_target dep" using service_map_get(2) [OF services] by blast+
  show "precedes order (dep_target dep) (sd_name d)
      \<or> mode \<noteq> FullBoot
        \<and> (\<exists>t \<in> set services. sd_name t = dep_target dep \<and> \<not> sd_disabled t \<and> \<not> dependency_eligible mode t)"
  proof (cases "\<not> sd_disabled t \<and> dependency_eligible mode t")
    case True
    then have "dep_target dep |\<in>| included" using met [of "FollowEdge (sd_name t)"] t t' by (simp add: hard_edge_def)
    moreover have "dep_target dep \<notin> blocked_names blocked"
      using built inc free get dep by (auto simp: graph_built_def hard_closed_def)
    ultimately have startable: "dep_target dep |\<in>| startable_services included blocked"
      by (simp add: startable_services_def)
    obtain i where i: "i < length order" "order ! i = sd_name d" using d(2) by (auto simp: in_set_conv_nth)
    have "dep_target dep \<in> set (order_targets by_name (sd_name d))"
      using dep get by (auto simp: order_targets_def start_order_dependency_targets_def hard_dependencies_def)
    then have "dep_target dep \<in> set (take i order)"
      using built i startable by (auto simp: graph_built_def dependency_ordered_def)
    then show ?thesis using precedes_take [OF i(1)] i(2) by simp
  next
    case False
    then show ?thesis using unblocked t t' by (auto simp: hard_edge_def split: if_splits)
  qed
qed

lemma graph_built_conflicts:
  assumes services: "service_map services = Inr by_name"
    and built: "graph_built mode services by_name included blocked order"
    and a: "a \<in> set services" "sd_name a \<in> set order" "has_boot_trigger a"
    and b: "b \<in> set services" "sd_name b \<in> set order" "has_boot_trigger b"
  shows "sd_name b \<notin> set (sd_conflicts a)"
proof
  assume conflict: "sd_name b \<in> set (sd_conflicts a)"
  have get: "bt_get by_name (sd_name a) = Some a" "bt_get by_name (sd_name b) = Some b"
    using service_map_get(2) [OF services] a(1) b(1) by blast+
  have inc: "sd_name a |\<in>| included" "sd_name b |\<in>| included" "sd_name a \<notin> blocked_names blocked"
    using built a(2) b(2) by (auto simp: graph_built_def)
  have "sd_name b \<in> set (boot_conflict_targets included by_name a)"
    using conflict inc get b(3) by (simp add: boot_conflict_targets_def symmetric_conflicts_def)
  then show False using built inc get a(3) unfolding graph_built_def by blast
qed

lemma build_phase2_boot_graph_returns: "\<exists>r. build_phase2_boot_graph tz_get mode services = Some r"
proof (cases "service_map services")
  case (Inl e)
  then show ?thesis by (simp add: build_phase2_boot_graph_def)
next
  case (Inr by_name)
  then show ?thesis using build_phase2_boot_graph_ends [OF Inr, of tz_get mode] by blast
qed

lemma safe_mode_downgrade_returns: "\<exists>r. safe_mode_downgrade_findings services = Some r"
proof (cases "service_map services")
  case (Inl e)
  then show ?thesis by (simp add: safe_mode_downgrade_findings_def)
next
  case (Inr by_name)
  then show ?thesis
    using collect_boot_closure_complete [OF Inr, of FullBoot]
    by (auto simp: safe_mode_downgrade_findings_def)
qed

section \<open>Where the graph does not do what is meant\<close>

text \<open>
  Safe mode drops a dependency on a service it leaves out. An invalid timer schedule of that
  service blocks the dependent all the same, because timer schedules are checked for every
  service, not only for the included ones.
\<close>

definition safe_dependent :: service_definition where
  "safe_dependent = (simple_system_boot ''a'' ''/a'')
     \<lparr>sd_error_control := Critical, sd_requires := [''b'']\<rparr>"

definition excluded_dependency :: "service_trigger list \<Rightarrow> service_definition" where
  "excluded_dependency triggers = (simple_system_boot ''b'' ''/b'')
     \<lparr>sd_safe_mode := False, sd_error_control := NormalControl, sd_triggers := triggers\<rparr>"

lemma excluded_timer_blocks_dependent:
  "map_option (map_sum id (\<lambda>g. (map sv_name (bg_ordered_startable g), map bs_service (bg_blocked g))))
     (build_phase2_boot_graph (\<lambda>_. None) SafeBoot
       [safe_dependent, excluded_dependency [BootTrigger]]) = Some (Inr ([''a''], []))"
  "map_option (map_sum id (\<lambda>g. (map sv_name (bg_ordered_startable g), map bs_service (bg_blocked g))))
     (build_phase2_boot_graph (\<lambda>_. None) SafeBoot
       [safe_dependent, excluded_dependency [BootTrigger, TimerTrigger '''']])
     = Some (Inr ([], [''a'', ''b'']))"
  by code_simp+

text \<open>
  A critical service in a cycle that shares a service with a cycle found earlier is not reported:
  the earlier cycle is taken out of the graph with the shared service.
\<close>

definition cycle_member :: "string \<Rightarrow> error_control \<Rightarrow> string list \<Rightarrow> service_definition" where
  "cycle_member name control targets =
     (simple_system_boot name ''/x'')\<lparr>sd_error_control := control, sd_requires := targets\<rparr>"

lemma critical_cycle_is_missed:
  "safe_mode_downgrade_findings
     [cycle_member ''a'' NormalControl [''b''], cycle_member ''b'' NormalControl [''a'', ''c''],
      cycle_member ''c'' Critical [''b'']] = Some (Inr [])"
  "safe_mode_downgrade_findings
     [cycle_member ''b'' NormalControl [''c''], cycle_member ''c'' Critical [''b'']]
     = Some (Inr [CriticalCycle [''b'', ''c'']])"
  by code_simp+

end
