(* ===== verification/Operation.thy ===== *)
theory Operation
  imports Ids Service_Definition
begin

text \<open>
  Operations (\<open>src/operation/model.rs\<close>, \<open>builder.rs\<close>, \<open>lifecycle.rs\<close>, \<open>conflict.rs\<close>,
  \<open>store/event.rs\<close>): the record of one request on a service,
  its transitions, the conflict table for a request that meets a live operation, and the events.
  Record fields carry the prefix \<open>op_\<close>, event fields \<open>oe_\<close>.

  The locale \<open>operation_end\<close> is the contract of the transitions into a terminal state, with the
  event that reports it. The lemmas show the type invariant of records, \<open>operation_wf\<close>, and what
  the conflict table decides.
\<close>

section \<open>Records\<close>

datatype operation_type = OpStart | OpStop | OpRestart | OpReload | OpReset

datatype operation_source =
    AdminSource | BootSource | ShutdownSource | DependencyPropagationSource | RestartPolicySource
  | TimerSource | BindsToRecoverySource | BindsToPropagationSource | ConflictResolutionSource
  | OnFailureSource | TtyReleaseSource

datatype operation_state =
    OpPending | OpRunning | OpCompleted | OpFailed | OpMerged | OpCancelled | OpAborted

definition op_is_terminal :: "operation_state \<Rightarrow> bool" where
  "op_is_terminal s \<longleftrightarrow> s \<in> {OpCompleted, OpFailed, OpMerged, OpCancelled, OpAborted}"

record operation_record =
  op_id :: operation_id
  op_type :: operation_type
  op_service :: string
  op_state :: operation_state
  op_created_at_ns :: u64
  op_lifetime_from_ns :: u64
  op_started_at_ns :: "u64 option"
  op_completed_at_ns :: "u64 option"
  op_source :: operation_source
  op_caller :: "token_summary option"
  op_result :: "string option"
  op_merged_into :: "operation_id option"
  op_service_security :: "service_security_descriptor option"

datatype operation_transition_action = ActStart | ActComplete | ActFail | ActMerge | ActCancel | ActAbort

datatype operation_transition_error =
    OpInvalidTransition operation_id operation_state operation_transition_action
  | CompletionBeforeCreation operation_id u64 u64
  | StartBeforeCreation operation_id u64 u64

definition operation_new ::
  "operation_id \<Rightarrow> operation_type \<Rightarrow> string \<Rightarrow> operation_source \<Rightarrow> token_summary option \<Rightarrow> u64
   \<Rightarrow> operation_record" where
  "operation_new oid kind service source caller created_at_ns = \<lparr>
     op_id = oid, op_type = kind, op_service = service, op_state = OpPending,
     op_created_at_ns = created_at_ns, op_lifetime_from_ns = created_at_ns,
     op_started_at_ns = None, op_completed_at_ns = None, op_source = source, op_caller = caller,
     op_result = None, op_merged_into = None, op_service_security = None\<rparr>"

section \<open>Transitions\<close>

definition op_ensure_state ::
  "operation_record \<Rightarrow> operation_state \<Rightarrow> operation_transition_action
   \<Rightarrow> operation_transition_error + unit" where
  "op_ensure_state r expected action =
     (if op_state r = expected then Inr ()
      else Inl (OpInvalidTransition (op_id r) (op_state r) action))"

definition ensure_completed_at :: "operation_record \<Rightarrow> u64 \<Rightarrow> operation_transition_error + unit" where
  "ensure_completed_at r completed_at_ns =
     (if completed_at_ns < op_created_at_ns r
      then Inl (CompletionBeforeCreation (op_id r) (op_created_at_ns r) completed_at_ns)
      else Inr ())"

type_synonym operation_step =
  "operation_record \<Rightarrow> (operation_transition_error, unit, operation_record) outcome"

text \<open>The guards of a transition, then its update; a refused one leaves the record.\<close>

definition op_guarded ::
  "(operation_transition_error + unit) \<Rightarrow> operation_record \<Rightarrow> operation_step" where
  "op_guarded check r' r = (case check of Inl e \<Rightarrow> (Inl e, r) | Inr _ \<Rightarrow> (Inr (), r'))"

definition op_restart_lifetime_clock :: "u64 \<Rightarrow> operation_step" where
  "op_restart_lifetime_clock at_ns r =
     op_guarded (op_ensure_state r OpPending ActStart)
       (r\<lparr>op_lifetime_from_ns := max at_ns (op_created_at_ns r)\<rparr>) r"

definition op_start :: "u64 \<Rightarrow> operation_step" where
  "op_start started_at_ns r =
     op_guarded
       (and_then (op_ensure_state r OpPending ActStart) (\<lambda>_.
          if started_at_ns < op_created_at_ns r
          then Inl (StartBeforeCreation (op_id r) (op_created_at_ns r) started_at_ns) else Inr ()))
       (r\<lparr>op_state := OpRunning, op_started_at_ns := Some started_at_ns\<rparr>) r"

definition op_finish ::
  "operation_state \<Rightarrow> operation_transition_action \<Rightarrow> u64 \<Rightarrow> string \<Rightarrow> operation_step" where
  "op_finish state action completed_at_ns res r =
     op_guarded
       (and_then
          (if op_state r \<noteq> OpPending \<and> op_state r \<noteq> OpRunning
           then Inl (OpInvalidTransition (op_id r) (op_state r) action) else Inr ())
          (\<lambda>_. ensure_completed_at r completed_at_ns))
       (r\<lparr>op_state := state, op_completed_at_ns := Some completed_at_ns, op_result := Some res\<rparr>) r"

definition op_complete :: "u64 \<Rightarrow> string \<Rightarrow> operation_step" where
  "op_complete completed_at_ns res = op_finish OpCompleted ActComplete completed_at_ns res"

definition op_fail :: "u64 \<Rightarrow> string \<Rightarrow> operation_step" where
  "op_fail completed_at_ns failure_reason = op_finish OpFailed ActFail completed_at_ns failure_reason"

definition op_merge_into :: "operation_id \<Rightarrow> u64 \<Rightarrow> operation_step" where
  "op_merge_into merged_into completed_at_ns r =
     op_guarded
       (and_then (op_ensure_state r OpPending ActMerge) (\<lambda>_. ensure_completed_at r completed_at_ns))
       (r\<lparr>op_state := OpMerged, op_completed_at_ns := Some completed_at_ns,
          op_merged_into := Some merged_into\<rparr>) r"

definition op_cancel :: "u64 \<Rightarrow> string \<Rightarrow> operation_step" where
  "op_cancel completed_at_ns reason r =
     op_guarded
       (and_then (op_ensure_state r OpPending ActCancel) (\<lambda>_. ensure_completed_at r completed_at_ns))
       (r\<lparr>op_state := OpCancelled, op_completed_at_ns := Some completed_at_ns,
          op_result := Some reason\<rparr>) r"

definition op_abort :: "u64 \<Rightarrow> string \<Rightarrow> operation_step" where
  "op_abort completed_at_ns reason r =
     op_guarded
       (and_then (op_ensure_state r OpRunning ActAbort) (\<lambda>_. ensure_completed_at r completed_at_ns))
       (r\<lparr>op_state := OpAborted, op_completed_at_ns := Some completed_at_ns,
          op_result := Some reason\<rparr>) r"

definition op_duration_ns :: "operation_record \<Rightarrow> u64 option" where
  "op_duration_ns r =
     map_option (\<lambda>completed_at_ns. completed_at_ns - op_created_at_ns r) (op_completed_at_ns r)"

section \<open>Conflicts\<close>

datatype operation_conflict_rejection =
    ResetWhileOperationInProgress
  | UnsupportedActiveConflict operation_type operation_state operation_type

datatype operation_conflict_decision =
    CreateNew
  | MergeIntoExisting operation_id
  | CancelExistingThenCreate operation_id
  | AbortExistingThenCreate operation_id
  | CancelExistingThenQueue operation_id
  | QueueNew
  | RejectConflict operation_conflict_rejection

definition resolve_operation_conflict ::
  "operation_record option \<Rightarrow> operation_type \<Rightarrow> operation_conflict_decision" where
  "resolve_operation_conflict existing requested_type =
     (case existing of
        None \<Rightarrow> CreateNew
      | Some r \<Rightarrow>
          if op_is_terminal (op_state r) then CreateNew
          else if requested_type = OpReset then RejectConflict ResetWhileOperationInProgress
          else
            (case (op_type r, op_state r, requested_type) of
               (OpStart, _, OpStart) \<Rightarrow> MergeIntoExisting (op_id r)
             | (OpStop, _, OpStop) \<Rightarrow> MergeIntoExisting (op_id r)
             | (OpReload, _, OpReload) \<Rightarrow> MergeIntoExisting (op_id r)
             | (OpRestart, _, OpStart) \<Rightarrow> MergeIntoExisting (op_id r)
             | (OpStart, OpPending, OpStop) \<Rightarrow> CancelExistingThenCreate (op_id r)
             | (OpRestart, OpPending, OpStop) \<Rightarrow> CancelExistingThenCreate (op_id r)
             | (OpReload, OpPending, OpStop) \<Rightarrow> CancelExistingThenCreate (op_id r)
             | (OpReload, OpPending, OpRestart) \<Rightarrow> CancelExistingThenCreate (op_id r)
             | (OpStart, OpRunning, OpStop) \<Rightarrow> AbortExistingThenCreate (op_id r)
             | (OpRestart, OpRunning, OpStop) \<Rightarrow> AbortExistingThenCreate (op_id r)
             | (OpReload, OpRunning, OpStop) \<Rightarrow> AbortExistingThenCreate (op_id r)
             | (OpReload, OpRunning, OpRestart) \<Rightarrow> AbortExistingThenCreate (op_id r)
             | (OpStop, _, OpStart) \<Rightarrow> QueueNew
             | (OpStop, _, OpRestart) \<Rightarrow> QueueNew
             | (OpRestart, _, OpRestart) \<Rightarrow> QueueNew
             | (OpStart, OpRunning, OpRestart) \<Rightarrow> QueueNew
             | (OpStart, OpPending, OpRestart) \<Rightarrow> CancelExistingThenQueue (op_id r)
             | _ \<Rightarrow> RejectConflict
                 (UnsupportedActiveConflict (op_type r) (op_state r) requested_type)))"

section \<open>Events\<close>

datatype operation_store_error =
    DuplicateOperationId operation_id
  | UnknownOperation operation_id
  | InvalidActiveIndex string operation_id
  | InvalidOpEventRecord operation_id operation_state string
  | ConflictRejected operation_conflict_rejection
  | OpTransitionFailed operation_transition_error

datatype operation_event_detail =
    RequestedDetail
  | StartedDetail
  | CompletedDetail u64 string
  | FailedDetail u64 string
  | MergedDetail operation_id
  | CancelledDetail string
  | AbortedDetail u64 string

record operation_event =
  oe_operation_id :: operation_id
  oe_operation_type :: operation_type
  oe_service :: string
  oe_source :: operation_source
  oe_caller :: "token_summary option"
  oe_state :: operation_state
  oe_detail :: operation_event_detail

definition op_event_new :: "operation_record \<Rightarrow> operation_event_detail \<Rightarrow> operation_event" where
  "op_event_new r detail = \<lparr>
     oe_operation_id = op_id r, oe_operation_type = op_type r, oe_service = op_service r,
     oe_source = op_source r, oe_caller = op_caller r, oe_state = op_state r, oe_detail = detail\<rparr>"

definition op_invalid_record :: "operation_record \<Rightarrow> string \<Rightarrow> operation_store_error" where
  "op_invalid_record r reason = InvalidOpEventRecord (op_id r) (op_state r) reason"

definition event_duration :: "operation_record \<Rightarrow> string \<Rightarrow> operation_store_error + u64" where
  "event_duration r reason = ok_or (op_duration_ns r) (op_invalid_record r reason)"

definition event_result :: "operation_record \<Rightarrow> string \<Rightarrow> operation_store_error + string" where
  "event_result r reason = ok_or (op_result r) (op_invalid_record r reason)"

definition event_requested :: "operation_record \<Rightarrow> operation_event" where
  "event_requested r = op_event_new r RequestedDetail"

definition event_started :: "operation_record \<Rightarrow> operation_event" where
  "event_started r = op_event_new r StartedDetail"

definition event_completed :: "operation_record \<Rightarrow> operation_store_error + operation_event" where
  "event_completed r =
     and_then (event_duration r ''completed operation has duration'') (\<lambda>duration_ns.
     and_then (event_result r ''completed operation has result'') (\<lambda>res.
       Inr (op_event_new r (CompletedDetail duration_ns res))))"

definition event_failed :: "operation_record \<Rightarrow> operation_store_error + operation_event" where
  "event_failed r =
     and_then (event_duration r ''failed operation has duration'') (\<lambda>duration_ns.
     and_then (event_result r ''failed operation has failure reason'') (\<lambda>failure_reason.
       Inr (op_event_new r (FailedDetail duration_ns failure_reason))))"

definition event_merged :: "operation_record \<Rightarrow> operation_store_error + operation_event" where
  "event_merged r =
     and_then (ok_or (op_merged_into r) (op_invalid_record r ''merged operation records target''))
       (\<lambda>merged_into. Inr (op_event_new r (MergedDetail merged_into)))"

definition event_cancelled :: "operation_record \<Rightarrow> operation_store_error + operation_event" where
  "event_cancelled r =
     and_then (event_result r ''cancelled operation has reason'') (\<lambda>reason.
       Inr (op_event_new r (CancelledDetail reason)))"

definition event_aborted :: "operation_record \<Rightarrow> operation_store_error + operation_event" where
  "event_aborted r =
     and_then (event_duration r ''aborted operation has duration'') (\<lambda>duration_ns.
     and_then (event_result r ''aborted operation has reason'') (\<lambda>reason.
       Inr (op_event_new r (AbortedDetail duration_ns reason))))"

section \<open>Well-formed records\<close>

definition operation_wf :: "operation_record \<Rightarrow> bool" where
  "operation_wf r \<longleftrightarrow>
     (\<forall>s. op_started_at_ns r = Some s \<longrightarrow> op_created_at_ns r \<le> s)
     \<and> (\<forall>c. op_completed_at_ns r = Some c \<longrightarrow> op_created_at_ns r \<le> c)
     \<and> op_created_at_ns r \<le> op_lifetime_from_ns r
     \<and> (op_completed_at_ns r \<noteq> None \<longleftrightarrow> op_is_terminal (op_state r))
     \<and> (op_state r \<in> {OpRunning, OpAborted} \<longrightarrow> op_started_at_ns r \<noteq> None)
     \<and> (op_state r = OpPending \<longrightarrow> op_started_at_ns r = None)
     \<and> (op_merged_into r \<noteq> None \<longleftrightarrow> op_state r = OpMerged)
     \<and> (op_result r \<noteq> None \<longleftrightarrow> op_state r \<in> {OpCompleted, OpFailed, OpCancelled, OpAborted})"

text \<open>What identifies an operation, and no transition changes.\<close>

definition operation_identity ::
  "operation_record \<Rightarrow> operation_id \<times> operation_type \<times> string \<times> operation_source \<times> u64" where
  "operation_identity r = (op_id r, op_type r, op_service r, op_source r, op_created_at_ns r)"

locale operation_transition =
  fixes run :: operation_step
  assumes refused: "run r = (Inl e, r') \<Longrightarrow> r' = r"
    and accepted: "run r = (Inr x, r') \<Longrightarrow>
      operation_identity r' = operation_identity r \<and> \<not> op_is_terminal (op_state r)
      \<and> (operation_wf r \<longrightarrow> operation_wf r')"

locale operation_end = operation_transition +
  fixes report :: "operation_record \<Rightarrow> operation_store_error + operation_event"
  assumes ends: "run r = (Inr x, r') \<Longrightarrow> op_is_terminal (op_state r')"
    and reports: "run r = (Inr x, r') \<Longrightarrow> \<exists>detail. report r' = Inr (op_event_new r' detail)"

lemmas operation_simps =
  op_guarded_def op_ensure_state_def ensure_completed_at_def operation_identity_def
  operation_wf_def op_is_terminal_def op_finish_def

lemmas event_simps =
  event_completed_def event_failed_def event_cancelled_def event_aborted_def event_duration_def
  event_result_def op_duration_ns_def event_merged_def

interpretation start_operation_transition: operation_transition "op_start at" for at
  by unfold_locales (auto simp: op_start_def operation_simps not_less split: sum.splits if_splits)

interpretation clock_operation_transition: operation_transition "op_restart_lifetime_clock at" for at
  by unfold_locales (auto simp: op_restart_lifetime_clock_def operation_simps split: sum.splits if_splits)

interpretation complete_operation_end: operation_end "op_complete at res" event_completed for at res
  by unfold_locales
    (auto simp: op_complete_def operation_simps event_simps not_less split: sum.splits if_splits)

interpretation fail_operation_end: operation_end "op_fail at res" event_failed for at res
  by unfold_locales
    (auto simp: op_fail_def operation_simps event_simps not_less split: sum.splits if_splits)

interpretation cancel_operation_end: operation_end "op_cancel at res" event_cancelled for at res
  by unfold_locales
    (auto simp: op_cancel_def operation_simps event_simps not_less split: sum.splits if_splits)

interpretation abort_operation_end: operation_end "op_abort at res" event_aborted for at res
  by unfold_locales
    (auto simp: op_abort_def operation_simps event_simps not_less split: sum.splits if_splits)

interpretation merge_operation_end: operation_end "op_merge_into oid at" event_merged for oid at
  by unfold_locales
    (auto simp: op_merge_into_def operation_simps event_simps not_less split: sum.splits if_splits)

lemma operation_new_wf: "operation_wf (operation_new oid kind service source caller at)"
  by (simp add: operation_new_def operation_wf_def op_is_terminal_def)

end
