(* ===== verification/Operation_Store.thy ===== *)
theory Operation_Store
  imports Operation Active_Index Service_Table
begin

text \<open>
  The operation store (\<open>src/operation/store\<close>): the records, the live operations of each service
  in order, and which queued operation waits behind which. Fields carry the prefix \<open>os_\<close>.

  The locale \<open>operation_end\<close> of \<open>Operation\<close> carries the lemmas on ends. They show the invariant of
  the store, what a request answers on every branch, and that the queue of a service never stalls:
  the operation at its head waits for nothing that is still live.
\<close>

section \<open>The store and its index\<close>

record operation_store =
  os_records :: "(operation_id, operation_record) btmap"
  os_active_by_service :: "(string, operation_id list) btmap"
  os_queued_behind :: "(operation_id, operation_id) btmap"

datatype insert_position = FrontPosition | BackPosition

definition operation_store_new :: operation_store where
  "operation_store_new =
     \<lparr>os_records = bt_empty, os_active_by_service = bt_empty, os_queued_behind = bt_empty\<rparr>"

definition operation_get :: "operation_store \<Rightarrow> operation_id \<Rightarrow> operation_record option" where
  "operation_get s oid = bt_get (os_records s) oid"

definition adopt_record :: "service_table \<Rightarrow> operation_record \<Rightarrow> operation_record" where
  "adopt_record services r =
     (if op_service_security r \<noteq> None then r
      else case table_definition services (op_service r) of
          Some d \<Rightarrow> r\<lparr>op_service_security := Some (sd_service_security d)\<rparr>
        | None \<Rightarrow> r)"

definition adopt_service_security :: "service_table \<Rightarrow> operation_store \<Rightarrow> operation_store" where
  "adopt_service_security services s =
     s\<lparr>os_records := bt_map_values (adopt_record services) (os_records s)\<rparr>"

definition op_active_for_service :: "operation_store \<Rightarrow> string \<Rightarrow> operation_id list" where
  "op_active_for_service s service = bt_get_or [] (os_active_by_service s) service"

definition current_for_service :: "operation_store \<Rightarrow> string \<Rightarrow> operation_record option" where
  "current_for_service s service =
     find_map (bt_get (os_records s)) (bt_get_or [] (os_active_by_service s) service)"

definition active_records :: "operation_store \<Rightarrow> operation_record list" where
  "active_records s =
     List.map_filter (bt_get (os_records s)) (concat (bt_values (os_active_by_service s)))"

definition ensure_unused_id :: "operation_store \<Rightarrow> operation_id \<Rightarrow> operation_store_error + unit" where
  "ensure_unused_id s oid =
     (if bt_contains_key (os_records s) oid then Inl (DuplicateOperationId oid) else Inr ())"

definition op_insert_active ::
  "string \<Rightarrow> operation_id \<Rightarrow> insert_position \<Rightarrow> operation_store \<Rightarrow> operation_store" where
  "op_insert_active service oid pos s =
     (let active = bt_get_or [] (os_active_by_service s) service
      in s\<lparr>os_active_by_service := bt_insert service
           (case pos of FrontPosition \<Rightarrow> oid # active | BackPosition \<Rightarrow> active @ [oid])
           (os_active_by_service s)\<rparr>)"

definition op_remove_active :: "string \<Rightarrow> operation_id \<Rightarrow> operation_store \<Rightarrow> operation_store" where
  "op_remove_active service oid s0 =
     (let s = s0\<lparr>os_queued_behind := bt_remove oid (os_queued_behind s0)\<rparr>
      in case bt_get (os_active_by_service s) service of
          None \<Rightarrow> s
        | Some active \<Rightarrow>
            let active' = filter (\<lambda>active_id. active_id \<noteq> oid) active
            in s\<lparr>os_active_by_service :=
                 (if active' = [] then bt_remove service (os_active_by_service s)
                  else bt_insert service active' (os_active_by_service s))\<rparr>)"

section \<open>The queue\<close>

definition queued_behind :: "operation_store \<Rightarrow> operation_id \<Rightarrow> operation_id option" where
  "queued_behind s oid = bt_get (os_queued_behind s) oid"

definition is_queued_behind_live :: "operation_store \<Rightarrow> operation_id \<Rightarrow> bool" where
  "is_queued_behind_live s oid =
     (case queued_behind s oid of
        None \<Rightarrow> False
      | Some behind \<Rightarrow>
          (case bt_get (os_records s) behind of
             None \<Rightarrow> False
           | Some r \<Rightarrow> \<not> op_is_terminal (op_state r)))"

definition queue_entry_ready :: "operation_store \<Rightarrow> operation_id \<times> operation_id \<Rightarrow> bool" where
  "queue_entry_ready s e =
     ((case bt_get (os_records s) (snd e) of
         None \<Rightarrow> True
       | Some r \<Rightarrow> op_is_terminal (op_state r))
      \<and> (case bt_get (os_records s) (fst e) of
           None \<Rightarrow> False
         | Some r \<Rightarrow>
             op_state r = OpPending
             \<and> (case current_for_service s (op_service r) of
                  None \<Rightarrow> False
                | Some head \<Rightarrow> op_id head = op_id r)))"

definition ready_queued_operations :: "operation_store \<Rightarrow> operation_record list" where
  "ready_queued_operations s =
     List.map_filter (\<lambda>e. bt_get (os_records s) (fst e))
       (filter (queue_entry_ready s) (bt_entries (os_queued_behind s)))"

definition clear_queued_behind :: "operation_id \<Rightarrow> operation_store \<Rightarrow> operation_store" where
  "clear_queued_behind oid s = s\<lparr>os_queued_behind := bt_remove oid (os_queued_behind s)\<rparr>"

definition requeue_behind_head :: "operation_id \<Rightarrow> operation_store \<Rightarrow> operation_store" where
  "requeue_behind_head oid s =
     (case bt_get (os_records s) oid of
        None \<Rightarrow> s
      | Some r \<Rightarrow>
          (case find (\<lambda>active. active \<noteq> oid) (op_active_for_service s (op_service r)) of
             None \<Rightarrow> s
           | Some head \<Rightarrow> s\<lparr>os_queued_behind := bt_insert oid head (os_queued_behind s)\<rparr>))"

section \<open>Transitions\<close>

definition with_operation ::
  "operation_id \<Rightarrow> operation_step \<Rightarrow> (operation_record \<Rightarrow> operation_store_error + 'a)
   \<Rightarrow> operation_store \<Rightarrow> (operation_store_error, 'a, operation_store) outcome" where
  "with_operation oid step report s =
     (case bt_get (os_records s) oid of
        None \<Rightarrow> (Inl (UnknownOperation oid), s)
      | Some r \<Rightarrow>
          (case step r of
             (Inl e, r') \<Rightarrow>
               (Inl (OpTransitionFailed e), s\<lparr>os_records := bt_insert oid r' (os_records s)\<rparr>)
           | (Inr _, r') \<Rightarrow> (report r', s\<lparr>os_records := bt_insert oid r' (os_records s)\<rparr>)))"

definition restart_lifetime_clock ::
  "operation_id \<Rightarrow> u64 \<Rightarrow> operation_store \<Rightarrow> (operation_store_error, unit, operation_store) outcome"
where
  "restart_lifetime_clock oid at_ns =
     with_operation oid (op_restart_lifetime_clock at_ns) (\<lambda>_. Inr ())"

definition start_operation ::
  "operation_id \<Rightarrow> u64 \<Rightarrow> operation_store
   \<Rightarrow> (operation_store_error, operation_event, operation_store) outcome" where
  "start_operation oid started_at_ns =
     with_operation oid (op_start started_at_ns) (\<lambda>r. Inr (event_started r))"

text \<open>An end: the transition, its event, and the operation out of the index.\<close>

definition end_operation ::
  "operation_id \<Rightarrow> operation_step \<Rightarrow> (operation_record \<Rightarrow> operation_store_error + operation_event)
   \<Rightarrow> operation_store \<Rightarrow> (operation_store_error, operation_event, operation_store) outcome" where
  "end_operation oid step report s =
     (case with_operation oid step report s of
        (Inl e, s') \<Rightarrow> (Inl e, s')
      | (Inr event, s') \<Rightarrow> (Inr event, op_remove_active (oe_service event) oid s'))"

definition complete_operation ::
  "operation_id \<Rightarrow> u64 \<Rightarrow> string \<Rightarrow> operation_store
   \<Rightarrow> (operation_store_error, operation_event, operation_store) outcome" where
  "complete_operation oid completed_at_ns res =
     end_operation oid (op_complete completed_at_ns res) event_completed"

definition fail_operation ::
  "operation_id \<Rightarrow> u64 \<Rightarrow> string \<Rightarrow> operation_store
   \<Rightarrow> (operation_store_error, operation_event, operation_store) outcome" where
  "fail_operation oid completed_at_ns failure_reason =
     end_operation oid (op_fail completed_at_ns failure_reason) event_failed"

definition cancel_operation ::
  "operation_id \<Rightarrow> u64 \<Rightarrow> string \<Rightarrow> operation_store
   \<Rightarrow> (operation_store_error, operation_event, operation_store) outcome" where
  "cancel_operation oid completed_at_ns reason =
     end_operation oid (op_cancel completed_at_ns reason) event_cancelled"

definition abort_operation ::
  "operation_id \<Rightarrow> u64 \<Rightarrow> string \<Rightarrow> operation_store
   \<Rightarrow> (operation_store_error, operation_event, operation_store) outcome" where
  "abort_operation oid completed_at_ns reason =
     end_operation oid (op_abort completed_at_ns reason) event_aborted"

section \<open>Retention\<close>

definition DEFAULT_TERMINAL_OPERATION_RETENTION_NS :: u64 where
  "DEFAULT_TERMINAL_OPERATION_RETENTION_NS = 60000000000"

definition terminal_completed_at :: "operation_record \<Rightarrow> u64 option" where
  "terminal_completed_at r = (if op_is_terminal (op_state r) then op_completed_at_ns r else None)"

definition purge_terminal_completed_at_or_before ::
  "u64 \<Rightarrow> operation_store \<Rightarrow> operation_id list \<times> operation_store" where
  "purge_terminal_completed_at_or_before cutoff_ns s =
     (let purged = List.map_filter
        (\<lambda>e. case terminal_completed_at (snd e) of
               Some completed_at_ns \<Rightarrow> if completed_at_ns \<le> cutoff_ns then Some (fst e) else None
             | None \<Rightarrow> None) (bt_entries (os_records s))
      in (purged, s\<lparr>os_records := fold bt_remove purged (os_records s)\<rparr>))"

definition purge_terminal_retained_until ::
  "u64 \<Rightarrow> u64 \<Rightarrow> operation_store \<Rightarrow> operation_id list \<times> operation_store" where
  "purge_terminal_retained_until now_ns retention_ns s =
     (case checked_sub now_ns retention_ns of
        None \<Rightarrow> ([], s)
      | Some cutoff_ns \<Rightarrow> purge_terminal_completed_at_or_before cutoff_ns s)"

definition next_terminal_retention_deadline_ns :: "u64 \<Rightarrow> operation_store \<Rightarrow> u64 option" where
  "next_terminal_retention_deadline_ns retention_ns s =
     min_by_key (\<lambda>due. due)
       (List.map_filter (\<lambda>r. map_option (\<lambda>at. sat_add at retention_ns) (terminal_completed_at r))
          (bt_values (os_records s)))"

section \<open>Requests\<close>

record operation_request =
  rq_id :: operation_id
  rq_type :: operation_type
  rq_service :: string
  rq_source :: operation_source
  rq_caller :: "token_summary option"
  rq_created_at_ns :: u64

record operation_request_outcome =
  ou_returned_operation_id :: operation_id
  ou_stored_operation_id :: operation_id
  ou_decision :: operation_conflict_decision
  ou_events :: "operation_event list"

datatype existing_termination = CancelTermination string | AbortTermination string

definition record_from_request :: "operation_request \<Rightarrow> operation_record" where
  "record_from_request q =
     operation_new (rq_id q) (rq_type q) (rq_service q) (rq_source q) (rq_caller q)
       (rq_created_at_ns q)"

definition insert_requested ::
  "operation_request \<Rightarrow> operation_conflict_decision \<Rightarrow> insert_position \<Rightarrow> operation_store
   \<Rightarrow> (operation_store_error, operation_request_outcome, operation_store) outcome" where
  "insert_requested q decision pos s =
     (let r = record_from_request q;
          s1 = s\<lparr>os_records := bt_insert (op_id r) r (os_records s)\<rparr>
      in (Inr \<lparr>ou_returned_operation_id = op_id r, ou_stored_operation_id = op_id r,
               ou_decision = decision, ou_events = [event_requested r]\<rparr>,
          op_insert_active (op_service r) (op_id r) pos s1))"

definition merge_request ::
  "operation_request \<Rightarrow> operation_conflict_decision \<Rightarrow> operation_id \<Rightarrow> operation_store
   \<Rightarrow> (operation_store_error, operation_request_outcome, operation_store) outcome" where
  "merge_request q decision existing_id s =
     (let r = record_from_request q
      in case op_merge_into existing_id (op_created_at_ns r) r of
          (Inl e, _) \<Rightarrow> (Inl (OpTransitionFailed e), s)
        | (Inr _, r') \<Rightarrow>
            (case event_merged r' of
               Inl e \<Rightarrow> (Inl e, s)
             | Inr merged \<Rightarrow>
                 (Inr \<lparr>ou_returned_operation_id = existing_id, ou_stored_operation_id = op_id r',
                       ou_decision = decision, ou_events = [event_requested r, merged]\<rparr>,
                  s\<lparr>os_records := bt_insert (op_id r') r' (os_records s)\<rparr>)))"

definition terminate_existing ::
  "operation_id \<Rightarrow> u64 \<Rightarrow> existing_termination \<Rightarrow> operation_store
   \<Rightarrow> (operation_store_error, operation_event, operation_store) outcome" where
  "terminate_existing oid completed_at_ns how =
     (case how of
        CancelTermination reason \<Rightarrow>
          end_operation oid (op_cancel completed_at_ns reason) event_cancelled
      | AbortTermination reason \<Rightarrow>
          end_operation oid (op_abort completed_at_ns reason) event_aborted)"

definition replace_existing ::
  "operation_request \<Rightarrow> operation_conflict_decision \<Rightarrow> operation_id \<Rightarrow> existing_termination
   \<Rightarrow> insert_position \<Rightarrow> operation_store
   \<Rightarrow> (operation_store_error, operation_request_outcome, operation_store) outcome" where
  "replace_existing q decision existing_id how pos s =
     (case terminate_existing existing_id (rq_created_at_ns q) how s of
        (Inl e, s1) \<Rightarrow> (Inl e, s1)
      | (Inr terminated, s1) \<Rightarrow>
          (case insert_requested q decision pos s1 of
             (Inl e, s2) \<Rightarrow> (Inl e, s2)
           | (Inr out, s2) \<Rightarrow> (Inr (out\<lparr>ou_events := terminated # ou_events out\<rparr>), s2)))"

text \<open>The search for a live operation the request merges into.\<close>

fun find_merge ::
  "(operation_id, operation_record) btmap \<Rightarrow> string \<Rightarrow> operation_type \<Rightarrow> operation_id list
   \<Rightarrow> operation_store_error + operation_conflict_decision option" where
  "find_merge records service kind [] = Inr None"
| "find_merge records service kind (oid # ids) =
     (case bt_get records oid of
        None \<Rightarrow> Inl (InvalidActiveIndex service oid)
      | Some existing \<Rightarrow>
          (case resolve_operation_conflict (Some existing) kind of
             MergeIntoExisting x \<Rightarrow> Inr (Some (MergeIntoExisting x))
           | _ \<Rightarrow> find_merge records service kind ids))"

definition resolve_request ::
  "operation_store \<Rightarrow> operation_request \<Rightarrow> operation_store_error + operation_conflict_decision" where
  "resolve_request s q =
     (let active_ids = op_active_for_service s (rq_service q)
      in and_then (find_merge (os_records s) (rq_service q) (rq_type q) active_ids) (\<lambda>found.
           case found of
             Some decision \<Rightarrow> Inr decision
           | None \<Rightarrow>
               Inr (resolve_operation_conflict
                 (case active_ids of [] \<Rightarrow> None | oid # _ \<Rightarrow> bt_get (os_records s) oid) (rq_type q))))"

definition queue_behind :: "operation_id \<Rightarrow> operation_id option \<Rightarrow> operation_store \<Rightarrow> operation_store" where
  "queue_behind oid head s =
     (case head of
        None \<Rightarrow> s
      | Some h \<Rightarrow> s\<lparr>os_queued_behind := bt_insert oid h (os_queued_behind s)\<rparr>)"

definition request_operation ::
  "operation_request \<Rightarrow> operation_store
   \<Rightarrow> (operation_store_error, operation_request_outcome, operation_store) outcome" where
  "request_operation q s =
     (case and_then (ensure_unused_id s (rq_id q)) (\<lambda>_. resolve_request s q) of
        Inl e \<Rightarrow> (Inl e, s)
      | Inr decision \<Rightarrow>
          (case decision of
             CreateNew \<Rightarrow> insert_requested q decision BackPosition s
           | QueueNew \<Rightarrow>
               let head = map_option op_id (current_for_service s (rq_service q))
               in (case insert_requested q decision BackPosition s of
                     (Inl e, s1) \<Rightarrow> (Inl e, s1)
                   | (Inr out, s1) \<Rightarrow>
                       (Inr out, queue_behind (ou_stored_operation_id out) head s1))
           | MergeIntoExisting existing_id \<Rightarrow> merge_request q decision existing_id s
           | CancelExistingThenCreate existing_id \<Rightarrow>
               replace_existing q decision existing_id
                 (CancelTermination ''superseded_by_later_operation'') FrontPosition s
           | AbortExistingThenCreate existing_id \<Rightarrow>
               replace_existing q decision existing_id
                 (AbortTermination ''superseded_by_later_operation'') FrontPosition s
           | CancelExistingThenQueue existing_id \<Rightarrow>
               (case replace_existing q decision existing_id
                       (CancelTermination ''superseded_by_restart'') BackPosition s of
                  (Inl e, s1) \<Rightarrow> (Inl e, s1)
                | (Inr out, s1) \<Rightarrow>
                    let queued = ou_stored_operation_id out;
                        service = (case bt_get (os_records s1) queued of
                                     Some r \<Rightarrow> op_service r | None \<Rightarrow> rq_service q);
                        head = (case current_for_service s1 service of
                                  Some h \<Rightarrow> if op_id h \<noteq> queued then Some (op_id h) else None
                                | None \<Rightarrow> None)
                    in (Inr out, queue_behind queued head s1))
           | RejectConflict rejection \<Rightarrow> (Inl (ConflictRejected rejection), s)))"

definition observe_shutdown_stop ::
  "operation_id \<Rightarrow> string \<Rightarrow> u64 \<Rightarrow> operation_store
   \<Rightarrow> (operation_store_error, operation_request_outcome, operation_store) outcome" where
  "observe_shutdown_stop oid service created_at_ns s =
     (case ensure_unused_id s oid of
        Inl e \<Rightarrow> (Inl e, s)
      | Inr _ \<Rightarrow>
          insert_requested
            \<lparr>rq_id = oid, rq_type = OpStop, rq_service = service, rq_source = ShutdownSource,
             rq_caller = None, rq_created_at_ns = created_at_ns\<rparr> CreateNew BackPosition s)"

definition merge_request_into ::
  "operation_request \<Rightarrow> operation_id \<Rightarrow> operation_store
   \<Rightarrow> (operation_store_error, operation_request_outcome, operation_store) outcome" where
  "merge_request_into q existing_id s =
     (case ensure_unused_id s (rq_id q) of
        Inl e \<Rightarrow> (Inl e, s)
      | Inr _ \<Rightarrow>
          (case bt_get (os_records s) existing_id of
             None \<Rightarrow> (Inl (UnknownOperation existing_id), s)
           | Some existing \<Rightarrow>
               if op_is_terminal (op_state existing) then
                 (Inl (InvalidOpEventRecord existing_id (op_state existing)
                    ''a request can only merge into an operation that is still live''), s)
               else merge_request q (MergeIntoExisting existing_id) existing_id s))"

section \<open>The invariant\<close>

definition live_operations :: "operation_store \<Rightarrow> operation_id \<Rightarrow> string option" where
  "live_operations s oid =
     (case bt_get (os_records s) oid of
        None \<Rightarrow> None
      | Some r \<Rightarrow> if op_is_terminal (op_state r) then None else Some (op_service r))"

text \<open>
  A queued operation is live, and the operation it waits for, while that one is live, is of the
  same service and stands before it in the list of the service.
\<close>

definition queue_ordered :: "operation_store \<Rightarrow> bool" where
  "queue_ordered s \<longleftrightarrow>
     (\<forall>oid behind. queued_behind s oid = Some behind \<longrightarrow>
        live_operations s oid \<noteq> None
        \<and> (\<forall>service. live_operations s behind = Some service \<longrightarrow>
             live_operations s oid = Some service
             \<and> precedes (op_active_for_service s service) behind oid))"

definition records_wf :: "(operation_id, operation_record) btmap \<Rightarrow> bool" where
  "records_wf records \<longleftrightarrow>
     (\<forall>oid r. bt_get records oid = Some r \<longrightarrow> op_id r = oid \<and> operation_wf r)"

definition operation_store_wf :: "operation_store \<Rightarrow> bool" where
  "operation_store_wf s \<longleftrightarrow>
     records_wf (os_records s)
     \<and> index_of (os_active_by_service s) (live_operations s)
     \<and> queue_ordered s"

lemma records_wfD: "records_wf m \<Longrightarrow> bt_get m oid = Some r \<Longrightarrow> op_id r = oid \<and> operation_wf r"
  by (simp add: records_wf_def)

lemma records_wf_insert:
  "records_wf m \<Longrightarrow> op_id r = oid \<Longrightarrow> operation_wf r \<Longrightarrow> records_wf (bt_insert oid r m)"
  by (simp add: records_wf_def)

lemma operation_store_wfD:
  assumes "operation_store_wf s"
  shows "records_wf (os_records s)" "index_of (os_active_by_service s) (live_operations s)"
    "queue_ordered s"
  using assms by (simp_all add: operation_store_wf_def)

lemma active_list:
  assumes "operation_store_wf s"
  shows "distinct (op_active_for_service s service)"
    and "set (op_active_for_service s service) = {oid. live_operations s oid = Some service}"
  using operation_store_wfD(2) [OF assms] by (simp_all add: index_of_def op_active_for_service_def)

lemma live_operationD:
  "live_operations s oid = Some service \<Longrightarrow>
   \<exists>r. bt_get (os_records s) oid = Some r \<and> \<not> op_is_terminal (op_state r) \<and> op_service r = service"
  by (auto simp: live_operations_def split: option.splits if_splits)

section \<open>The invariant is kept\<close>

text \<open>A change of the records under which the same operations are live.\<close>

lemma operation_store_wf_records:
  assumes "operation_store_wf s" and "records_wf records"
    and live: "\<And>oid. live_operations (s\<lparr>os_records := records\<rparr>) oid = live_operations s oid"
  shows "operation_store_wf (s\<lparr>os_records := records\<rparr>)"
proof -
  have "live_operations (s\<lparr>os_records := records\<rparr>) = live_operations s" using live by (rule ext)
  then show ?thesis
    using assms(2) operation_store_wfD [OF assms(1)]
    by (simp add: operation_store_wf_def queue_ordered_def queued_behind_def op_active_for_service_def)
qed

text \<open>A new pending operation, at either end of the list of its service.\<close>

lemma operation_store_wf_insert:
  fixes pos :: insert_position
  assumes wf: "operation_store_wf s" and fresh: "bt_get (os_records s) oid = None"
    and unqueued: "\<And>x. queued_behind s x \<noteq> Some oid"
    and r: "op_id r = oid" "operation_wf r" "\<not> op_is_terminal (op_state r)" "op_service r = service"
  defines "s' \<equiv> op_insert_active service oid pos (s\<lparr>os_records := bt_insert oid r (os_records s)\<rparr>)"
  shows "operation_store_wf s'"
    and "live_operations s' = (live_operations s)(oid := Some service)"
    and "op_active_for_service s' service =
      (case pos of FrontPosition \<Rightarrow> oid # op_active_for_service s service
                 | BackPosition \<Rightarrow> op_active_for_service s service @ [oid])"
proof -
  have records: "os_records s' = bt_insert oid r (os_records s)"
    and queue: "queued_behind s' = queued_behind s"
    by (simp_all add: s'_def op_insert_active_def Let_def queued_behind_def fun_eq_iff)
  show live: "live_operations s' = (live_operations s)(oid := Some service)"
    using r by (auto simp: live_operations_def records)
  have dead: "live_operations s oid = None" by (simp add: live_operations_def fresh)
  show active: "op_active_for_service s' service =
      (case pos of FrontPosition \<Rightarrow> oid # op_active_for_service s service
                 | BackPosition \<Rightarrow> op_active_for_service s service @ [oid])"
    by (simp add: s'_def op_insert_active_def Let_def op_active_for_service_def split: insert_position.split)
  have other: "op_active_for_service s' x = op_active_for_service s x" if "x \<noteq> service" for x
    using that by (simp add: s'_def op_insert_active_def Let_def op_active_for_service_def)
  have idx: "index_of (os_active_by_service s') (live_operations s')"
  proof -
    have "os_active_by_service s' =
        bt_insert service (op_active_for_service s' service) (os_active_by_service s)"
      by (simp add: s'_def op_insert_active_def Let_def op_active_for_service_def)
    moreover have "distinct (op_active_for_service s' service)"
      "set (op_active_for_service s' service) =
        insert oid (set (op_active_for_service s service))"
      using active_list [OF wf, of service] dead
      by (simp_all add: active split: insert_position.split)
    ultimately show ?thesis
      unfolding live
      using index_of_insert [OF operation_store_wfD(2) [OF wf] dead, of "op_active_for_service s' service" service]
      by (simp add: op_active_for_service_def [of s])
  qed
  have kept: "precedes (op_active_for_service s' x) a b" if "precedes (op_active_for_service s x) a b"
    for x a b
    using that by (cases "x = service")
      (simp_all add: active other precedes_append split: insert_position.split)
  have "queue_ordered s'"
    unfolding queue_ordered_def queue live
    using operation_store_wfD(3) [OF wf] unqueued kept dead by (auto simp: queue_ordered_def)
  then show "operation_store_wf s'"
    using operation_store_wfD(1) [OF wf] r idx
    by (simp add: operation_store_wf_def records records_wf_insert)
qed

text \<open>An end takes the operation out of the list and the queue.\<close>

lemma operation_store_wf_remove:
  assumes wf: "operation_store_wf s" and live_oid: "live_operations s oid = Some service"
    and r: "op_id r = oid" "operation_wf r" "op_is_terminal (op_state r)"
  defines "s' \<equiv> op_remove_active service oid (s\<lparr>os_records := bt_insert oid r (os_records s)\<rparr>)"
  shows "operation_store_wf s'"
    and "live_operations s' = (live_operations s)(oid := None)"
    and "op_active_for_service s' x = filter (\<lambda>i. i \<noteq> oid) (op_active_for_service s x)"
    and "os_records s' = bt_insert oid r (os_records s)"
    and "os_queued_behind s' = bt_remove oid (os_queued_behind s)"
proof -
  obtain active where active: "bt_get (os_active_by_service s) service = Some active"
    using active_list(2) [OF wf, of service] live_oid
    by (cases "bt_get (os_active_by_service s) service") (auto simp: op_active_for_service_def bt_get_or_def)
  show records: "os_records s' = bt_insert oid r (os_records s)"
    and queue: "os_queued_behind s' = bt_remove oid (os_queued_behind s)"
    using active by (simp_all add: s'_def op_remove_active_def Let_def)
  show live: "live_operations s' = (live_operations s)(oid := None)"
    using r by (auto simp: live_operations_def records)
  have idx: "index_of (os_active_by_service s') (live_operations s')"
  proof -
    have "os_active_by_service s' =
        (if filter (\<lambda>j. j \<noteq> oid) active = [] then bt_remove service (os_active_by_service s)
         else bt_insert service (filter (\<lambda>j. j \<noteq> oid) active) (os_active_by_service s))"
      using active by (simp add: s'_def op_remove_active_def Let_def)
    then show ?thesis
      unfolding live using index_of_remove [OF operation_store_wfD(2) [OF wf] live_oid active] by simp
  qed
  have lists: "op_active_for_service s' y = filter (\<lambda>i. i \<noteq> oid) (op_active_for_service s y)" for y
  proof (cases "y = service")
    case True
    then show ?thesis
      using active by (simp add: s'_def op_remove_active_def Let_def op_active_for_service_def bt_get_or_def)
  next
    case False
    then have "oid \<notin> set (op_active_for_service s y)" using active_list(2) [OF wf] live_oid by simp
    then have "filter (\<lambda>i. i \<noteq> oid) (op_active_for_service s y) = op_active_for_service s y"
      by (auto intro: filter_True)
    then show ?thesis
      using False active by (simp add: s'_def op_remove_active_def Let_def op_active_for_service_def)
  qed
  then show "op_active_for_service s' x = filter (\<lambda>i. i \<noteq> oid) (op_active_for_service s x)" .
  have "queue_ordered s'"
    unfolding queue_ordered_def queued_behind_def queue live lists
    using operation_store_wfD(3) [OF wf]
    by (auto simp: queue_ordered_def queued_behind_def split: if_splits intro!: precedes_filter)
  then show "operation_store_wf s'"
    using operation_store_wfD(1) [OF wf] r idx
    by (simp add: operation_store_wf_def records records_wf_insert)
qed

lemma operation_store_wf_queue:
  assumes "operation_store_wf s" and "live_operations s oid = Some service"
    and "precedes (op_active_for_service s service) h oid"
  shows "operation_store_wf (s\<lparr>os_queued_behind := bt_insert oid h (os_queued_behind s)\<rparr>)"
proof -
  let ?s = "s\<lparr>os_queued_behind := bt_insert oid h (os_queued_behind s)\<rparr>"
  have same: "live_operations ?s = live_operations s" "op_active_for_service ?s = op_active_for_service s"
    by (simp_all add: live_operations_def op_active_for_service_def fun_eq_iff)
  have "live_operations s h = Some service"
    using precedes_set [OF assms(3)] active_list(2) [OF assms(1)] by simp
  then show ?thesis
    using assms operation_store_wfD [OF assms(1)]
    by (auto simp: operation_store_wf_def queue_ordered_def same queued_behind_def split: if_splits)
qed

lemma clear_queued_behind_wf:
  "operation_store_wf s \<Longrightarrow> operation_store_wf (clear_queued_behind oid s)"
proof -
  have "live_operations (clear_queued_behind oid s) = live_operations s"
    by (simp add: live_operations_def clear_queued_behind_def fun_eq_iff)
  moreover assume "operation_store_wf s"
  ultimately show ?thesis
    by (simp add: operation_store_wf_def queue_ordered_def queued_behind_def op_active_for_service_def)
      (simp add: clear_queued_behind_def)
qed

text \<open>Transitions.\<close>

lemma operation_identityD:
  assumes "operation_identity r' = operation_identity r"
  shows "op_id r' = op_id r" "op_type r' = op_type r" "op_service r' = op_service r"
    "op_created_at_ns r' = op_created_at_ns r"
  using assms by (simp_all add: operation_identity_def)

context operation_transition
begin

lemma with_operation_refused:
  assumes "\<And>r'. \<exists>x. report r' = Inr x" and "with_operation oid run report s = (Inl e, s')"
  shows "s' = s"
proof (cases "bt_get (os_records s) oid")
  case None
  then show ?thesis using assms(2) by (simp add: with_operation_def)
next
  case (Some r)
  obtain res r' where run: "run r = (res, r')" by (cases "run r")
  show ?thesis
  proof (cases res)
    case (Inl f)
    then have "r' = r" using run refused by blast
    then show ?thesis using assms(2) Some run Inl by (simp add: with_operation_def bt_insert_same)
  next
    case (Inr x)
    then show ?thesis
      using assms(1) [of r'] assms(2) Some run by (auto simp: with_operation_def)
  qed
qed

lemma with_operation_wf:
  assumes wf: "operation_store_wf s"
    and lively: "\<And>r x r'. run r = (Inr x, r') \<Longrightarrow> \<not> op_is_terminal (op_state r')"
  shows "operation_store_wf (snd (with_operation oid run report s))"
    and "live_operations (snd (with_operation oid run report s)) = live_operations s"
proof -
  have both: "operation_store_wf (snd (with_operation oid run report s))
    \<and> live_operations (snd (with_operation oid run report s)) = live_operations s"
  proof (cases "bt_get (os_records s) oid")
    case None
    then show ?thesis using wf by (simp add: with_operation_def)
  next
    case (Some r)
    obtain res r' where run: "run r = (res, r')" by (cases "run r")
    let ?s = "s\<lparr>os_records := bt_insert oid r' (os_records s)\<rparr>"
    have s': "snd (with_operation oid run report s) = ?s"
      using Some run by (simp add: with_operation_def split: sum.split)
    have r: "op_id r = oid" "operation_wf r"
      using records_wfD [OF operation_store_wfD(1) [OF wf] Some] by simp_all
    have r': "op_id r' = oid \<and> operation_wf r' \<and> op_service r' = op_service r
      \<and> op_is_terminal (op_state r') = op_is_terminal (op_state r)"
    proof (cases res)
      case (Inl e)
      then show ?thesis using run refused r by blast
    next
      case (Inr x)
      then show ?thesis
        using run accepted [of r x r'] lively [of r x r'] r by (auto simp: operation_identity_def)
    qed
    then have live: "live_operations ?s i = live_operations s i" for i
      using Some by (simp add: live_operations_def)
    show ?thesis
      unfolding s' using live r'
        operation_store_wf_records [OF wf records_wf_insert [OF operation_store_wfD(1) [OF wf]] live]
      by auto
  qed
  then show "operation_store_wf (snd (with_operation oid run report s))"
    and "live_operations (snd (with_operation oid run report s)) = live_operations s"
    by simp_all
qed

end

lemma restart_lifetime_clock_wf:
  "operation_store_wf s \<Longrightarrow> operation_store_wf (snd (restart_lifetime_clock oid at s))"
  unfolding restart_lifetime_clock_def
  by (rule clock_operation_transition.with_operation_wf(1))
    (auto simp: op_restart_lifetime_clock_def operation_simps split: if_splits)

lemma start_operation_wf:
  "operation_store_wf s \<Longrightarrow> operation_store_wf (snd (start_operation oid at s))"
  unfolding start_operation_def
  by (rule start_operation_transition.with_operation_wf(1))
    (auto simp: op_start_def operation_simps split: if_splits)

text \<open>Ends.\<close>

context operation_end
begin

lemma end_operation_refused:
  assumes "end_operation oid run report s = (Inl e, s')"
  shows "s' = s"
proof (cases "bt_get (os_records s) oid")
  case None
  then show ?thesis using assms by (simp add: end_operation_def with_operation_def)
next
  case (Some r)
  obtain res r' where run: "run r = (res, r')" by (cases "run r")
  show ?thesis
  proof (cases res)
    case (Inl f)
    then have "r' = r" using run refused by blast
    then show ?thesis
      using assms Some run Inl by (simp add: end_operation_def with_operation_def bt_insert_same)
  next
    case (Inr x)
    then show ?thesis
      using reports [of r x r'] assms Some run by (auto simp: end_operation_def with_operation_def)
  qed
qed

lemma end_operation_accepted:
  assumes wf: "operation_store_wf s" and "end_operation oid run report s = (Inr event, s')"
  obtains r r' where "bt_get (os_records s) oid = Some r" "run r = (Inr (), r')"
    "live_operations s oid = Some (op_service r)" "operation_store_wf s'"
    "live_operations s' = (live_operations s)(oid := None)"
    "\<And>x. op_active_for_service s' x = filter (\<lambda>i. i \<noteq> oid) (op_active_for_service s x)"
    "os_records s' = bt_insert oid r' (os_records s)"
    "os_queued_behind s' = bt_remove oid (os_queued_behind s)"
proof -
  from assms(2) obtain r where r: "bt_get (os_records s) oid = Some r"
    by (auto simp: end_operation_def with_operation_def split: option.splits)
  obtain res r' where "run r = (res, r')" by (cases "run r")
  with assms(2) r have run: "run r = (Inr (), r')"
    by (cases res) (auto simp: end_operation_def with_operation_def)
  from reports [OF run] obtain detail where ev: "report r' = Inr (op_event_new r' detail)" by blast
  note acc = accepted [OF run]
  have oid: "op_id r = oid" "operation_wf r"
    using records_wfD [OF operation_store_wfD(1) [OF wf] r] by simp_all
  have live: "live_operations s oid = Some (op_service r)"
    using acc r by (simp add: live_operations_def)
  have s': "s' = op_remove_active (op_service r) oid (s\<lparr>os_records := bt_insert oid r' (os_records s)\<rparr>)"
    using assms(2) r run ev operation_identityD [of r' r] acc
    by (simp add: end_operation_def with_operation_def op_event_new_def)
  have r': "op_id r' = oid" "operation_wf r'" "op_is_terminal (op_state r')"
    using oid acc operation_identityD [of r' r] ends [OF run] by auto
  note removed = operation_store_wf_remove [OF wf live r', folded s']
  show thesis using that r run live removed by blast
qed

lemma end_operation_effect:
  assumes "operation_store_wf s" and "end_operation oid run report s = (Inr event, s')"
  shows "operation_store_wf s' \<and> live_operations s' = (live_operations s)(oid := None)
    \<and> (\<exists>r'. os_records s' = bt_insert oid r' (os_records s)) \<and> live_operations s oid \<noteq> None
    \<and> op_active_for_service s' x = filter (\<lambda>i. i \<noteq> oid) (op_active_for_service s x)
    \<and> os_queued_behind s' = bt_remove oid (os_queued_behind s)"
  using end_operation_accepted [OF assms] by (metis option.distinct(1))

lemma end_operation_wf:
  assumes "operation_store_wf s"
  shows "operation_store_wf (snd (end_operation oid run report s))"
proof (cases "end_operation oid run report s")
  case (Pair res s')
  then show ?thesis
    using assms end_operation_refused [of oid s _ s'] end_operation_accepted [OF assms, of oid _ s']
    by (cases res) auto
qed

end

lemma purge_records: "bt_get (fold bt_remove ks m) k = (if k \<in> set ks then None else bt_get m k)"
  by (induction ks arbitrary: m) auto

lemma purge_wf:
  assumes "operation_store_wf s"
  shows "operation_store_wf (snd (purge_terminal_completed_at_or_before cutoff s))"
proof -
  define purged where "purged = fst (purge_terminal_completed_at_or_before cutoff s)"
  have s': "snd (purge_terminal_completed_at_or_before cutoff s)
      = s\<lparr>os_records := fold bt_remove purged (os_records s)\<rparr>"
    by (simp add: purged_def purge_terminal_completed_at_or_before_def Let_def)
  have terminal: "op_is_terminal (op_state r)"
    if "oid \<in> set purged" "bt_get (os_records s) oid = Some r" for oid r
    using that
    by (auto simp: purged_def purge_terminal_completed_at_or_before_def Let_def map_filter_def
        terminal_completed_at_def bt_get_entries_iff [symmetric] split: option.splits if_splits)
  have "records_wf (fold bt_remove purged (os_records s))"
    using operation_store_wfD(1) [OF assms] by (simp add: records_wf_def purge_records)
  moreover have "live_operations (s\<lparr>os_records := fold bt_remove purged (os_records s)\<rparr>) i
      = live_operations s i" for i
    using terminal [of i] by (auto simp: live_operations_def purge_records split: option.split)
  ultimately show ?thesis unfolding s' by (rule operation_store_wf_records [OF assms])
qed

lemma adopt_service_security_wf:
  assumes "operation_store_wf s"
  shows "operation_store_wf (adopt_service_security services s)"
proof -
  let ?records = "bt_map_values (adopt_record services) (os_records s)"
  have same: "op_id (adopt_record services r) = op_id r \<and> op_state (adopt_record services r) = op_state r
    \<and> op_service (adopt_record services r) = op_service r
    \<and> operation_wf (adopt_record services r) = operation_wf r" for r
    by (auto simp: adopt_record_def operation_wf_def split: option.split)
  have "records_wf ?records"
    using operation_store_wfD(1) [OF assms] by (auto simp: records_wf_def same)
  moreover have "live_operations (s\<lparr>os_records := ?records\<rparr>) i = live_operations s i" for i
    by (cases "bt_get (os_records s) i") (simp_all add: live_operations_def same)
  ultimately show ?thesis
    unfolding adopt_service_security_def by (rule operation_store_wf_records [OF assms])
qed

section \<open>What a request does\<close>

text \<open>What the store looks like when the conflict table takes a decision.\<close>

definition decision_holds :: "operation_store \<Rightarrow> operation_request \<Rightarrow> operation_conflict_decision \<Rightarrow> bool" where
  "decision_holds s q decision \<longleftrightarrow>
     (case decision of
        CreateNew \<Rightarrow> op_active_for_service s (rq_service q) = []
      | QueueNew \<Rightarrow> op_active_for_service s (rq_service q) \<noteq> []
      | MergeIntoExisting x \<Rightarrow>
          \<exists>r. bt_get (os_records s) x = Some r \<and> live_operations s x = Some (rq_service q)
            \<and> (op_type r = rq_type q \<or> op_type r = OpRestart \<and> rq_type q = OpStart)
      | CancelExistingThenCreate x \<Rightarrow> \<exists>rest. op_active_for_service s (rq_service q) = x # rest
      | AbortExistingThenCreate x \<Rightarrow> \<exists>rest. op_active_for_service s (rq_service q) = x # rest
      | CancelExistingThenQueue x \<Rightarrow> \<exists>rest. op_active_for_service s (rq_service q) = x # rest
      | RejectConflict rejection \<Rightarrow> op_active_for_service s (rq_service q) \<noteq> [])"

lemma resolve_conflict_merge:
  "resolve_operation_conflict (Some r) kind = MergeIntoExisting x \<Longrightarrow>
   x = op_id r \<and> (op_type r = kind \<or> op_type r = OpRestart \<and> kind = OpStart)"
  by (auto simp: resolve_operation_conflict_def split: if_splits operation_type.splits operation_state.splits)

lemma resolve_conflict_live:
  assumes "\<not> op_is_terminal (op_state r)"
  shows "resolve_operation_conflict (Some r) kind \<noteq> CreateNew"
    and "resolve_operation_conflict (Some r) kind \<in> {CancelExistingThenCreate x, AbortExistingThenCreate x,
      CancelExistingThenQueue x} \<Longrightarrow> x = op_id r"
  using assms
  by (auto simp: resolve_operation_conflict_def split: if_splits operation_type.splits operation_state.splits)

lemma find_merge_sound:
  assumes "records_wf records" and "\<forall>oid \<in> set ids. \<exists>r. bt_get records oid = Some r"
  shows "\<exists>found. find_merge records service kind ids = Inr found
    \<and> (\<forall>decision. found = Some decision \<longrightarrow>
         (\<exists>x r. decision = MergeIntoExisting x \<and> x \<in> set ids \<and> bt_get records x = Some r
            \<and> (op_type r = kind \<or> op_type r = OpRestart \<and> kind = OpStart)))"
  using assms(2)
proof (induction ids)
  case (Cons oid ids)
  then obtain r where r: "bt_get records oid = Some r" by auto
  show ?case
  proof (cases "\<exists>x. resolve_operation_conflict (Some r) kind = MergeIntoExisting x")
    case True
    then obtain x where x: "resolve_operation_conflict (Some r) kind = MergeIntoExisting x" by blast
    with resolve_conflict_merge [OF x] records_wfD [OF assms(1) r] r show ?thesis by auto
  next
    case False
    then have "find_merge records service kind (oid # ids) = find_merge records service kind ids"
      using r by (auto split: operation_conflict_decision.split)
    then show ?thesis using Cons by auto
  qed
qed simp

lemma resolve_request_decision:
  assumes wf: "operation_store_wf s"
  shows "\<exists>decision. resolve_request s q = Inr decision \<and> decision_holds s q decision"
proof -
  let ?active = "op_active_for_service s (rq_service q)"
  have live: "oid \<in> set ?active \<longleftrightarrow> live_operations s oid = Some (rq_service q)" for oid
    using active_list(2) [OF wf] by simp
  have known: "\<forall>oid \<in> set ?active. \<exists>r. bt_get (os_records s) oid = Some r"
    using live live_operationD by blast
  obtain found where found: "find_merge (os_records s) (rq_service q) (rq_type q) ?active = Inr found"
    and merge: "\<And>decision. found = Some decision \<Longrightarrow>
      \<exists>x r. decision = MergeIntoExisting x \<and> x \<in> set ?active \<and> bt_get (os_records s) x = Some r
        \<and> (op_type r = rq_type q \<or> op_type r = OpRestart \<and> rq_type q = OpStart)"
    using find_merge_sound [OF operation_store_wfD(1) [OF wf] known] by blast
  show ?thesis
  proof (cases found)
    case (Some decision)
    with merge [OF Some] found live show ?thesis
      by (auto simp: resolve_request_def decision_holds_def)
  next
    case None
    show ?thesis
    proof (cases ?active)
      case Nil
      then show ?thesis
        by (simp add: resolve_request_def decision_holds_def resolve_operation_conflict_def)
    next
      case (Cons h rest)
      then obtain r where r: "bt_get (os_records s) h = Some r" "\<not> op_is_terminal (op_state r)"
        "op_service r = rq_service q"
        using live [of h] live_operationD [of s h] by auto
      have h: "op_id r = h" using records_wfD [OF operation_store_wfD(1) [OF wf] r(1)] by simp
      have "resolve_request s q = Inr (resolve_operation_conflict (Some r) (rq_type q))"
        using found None Cons r by (simp add: resolve_request_def)
      moreover have "decision_holds s q (resolve_operation_conflict (Some r) (rq_type q))"
        using resolve_conflict_live [OF r(2), of "rq_type q"] resolve_conflict_merge [of r "rq_type q"]
          Cons r h live [of h]
        by (cases "resolve_operation_conflict (Some r) (rq_type q)") (auto simp: decision_holds_def)
      ultimately show ?thesis by blast
    qed
  qed
qed

lemma resolve_conflict_reset:
  "\<not> op_is_terminal (op_state r) \<Longrightarrow>
   resolve_operation_conflict (Some r) OpReset = RejectConflict ResetWhileOperationInProgress"
  by (simp add: resolve_operation_conflict_def)

lemma reset_is_not_queued:
  assumes wf: "operation_store_wf s" and reset: "rq_type q = OpReset"
    and decision: "resolve_request s q = Inr decision" and active: "op_active_for_service s (rq_service q) \<noteq> []"
  shows "\<exists>rejection. decision = RejectConflict rejection"
proof -
  let ?active = "op_active_for_service s (rq_service q)"
  have known: "\<exists>r. bt_get (os_records s) oid = Some r \<and> \<not> op_is_terminal (op_state r)" if "oid \<in> set ?active" for oid
    using that active_list(2) [OF wf] live_operationD by blast
  have "find_merge (os_records s) (rq_service q) OpReset ids = Inr None" if "set ids \<subseteq> set ?active" for ids
    using that
  proof (induction ids)
    case (Cons oid ids)
    then obtain r where "bt_get (os_records s) oid = Some r" "\<not> op_is_terminal (op_state r)"
      using known [of oid] by auto
    then show ?case using Cons by (simp add: resolve_conflict_reset)
  qed simp
  then have none: "find_merge (os_records s) (rq_service q) (rq_type q) ?active = Inr None"
    using reset by simp
  obtain h rest where list: "?active = h # rest" using active by (cases ?active) auto
  then obtain r where "bt_get (os_records s) h = Some r" "\<not> op_is_terminal (op_state r)"
    using known [of h] by auto
  then have "resolve_request s q = Inr (RejectConflict ResetWhileOperationInProgress)"
    unfolding resolve_request_def Let_def none by (simp add: list reset resolve_conflict_reset)
  then show ?thesis using decision by simp
qed

lemma record_from_request_simps [simp]:
  "op_id (record_from_request q) = rq_id q" "op_service (record_from_request q) = rq_service q"
  "op_type (record_from_request q) = rq_type q" "op_state (record_from_request q) = OpPending"
  "operation_wf (record_from_request q)"
  using operation_new_wf by (simp_all add: record_from_request_def, simp_all add: operation_new_def)

lemma current_is_head:
  assumes "operation_store_wf s" and "op_active_for_service s service = h # rest"
  shows "\<exists>r. current_for_service s service = Some r \<and> op_id r = h"
proof -
  have "live_operations s h = Some service" using active_list(2) [OF assms(1), of service] assms(2) by auto
  then obtain r where r: "bt_get (os_records s) h = Some r" using live_operationD by blast
  then have "current_for_service s service = Some r"
    using assms(2) by (simp add: current_for_service_def op_active_for_service_def)
  then show ?thesis using records_wfD [OF operation_store_wfD(1) [OF assms(1)] r] by simp
qed

text \<open>
  The contract of an admitted request: the operation it returns is live for the service, of the
  requested type or the restart a start merges into; its own record is stored; and no other live
  operation is touched, except the one the decision names as cancelled or aborted.
\<close>

definition ended_by :: "operation_conflict_decision \<Rightarrow> operation_id option" where
  "ended_by decision =
     (case decision of
        CancelExistingThenCreate x \<Rightarrow> Some x
      | AbortExistingThenCreate x \<Rightarrow> Some x
      | CancelExistingThenQueue x \<Rightarrow> Some x
      | _ \<Rightarrow> None)"

definition request_admitted ::
  "operation_request \<Rightarrow> operation_request_outcome \<Rightarrow> operation_store \<Rightarrow> operation_store \<Rightarrow> bool" where
  "request_admitted q out s s' \<longleftrightarrow>
     (\<exists>r. bt_get (os_records s') (ou_returned_operation_id out) = Some r
        \<and> \<not> op_is_terminal (op_state r) \<and> op_service r = rq_service q
        \<and> (op_type r = rq_type q \<or> op_type r = OpRestart \<and> rq_type q = OpStart))
     \<and> ou_stored_operation_id out = rq_id q \<and> bt_contains_key (os_records s') (rq_id q)
     \<and> (\<forall>oid. oid \<noteq> rq_id q \<and> Some oid \<noteq> ended_by (ou_decision out) \<longrightarrow>
          bt_get (os_records s') oid = bt_get (os_records s) oid)
     \<and> (\<forall>x. ended_by (ou_decision out) = Some x \<longrightarrow>
          live_operations s x = Some (rq_service q) \<and> live_operations s' x = None)"

lemma insert_requested_spec:
  assumes wf: "operation_store_wf s" and fresh: "bt_get (os_records s) (rq_id q) = None"
    and unqueued: "\<And>x. queued_behind s x \<noteq> Some (rq_id q)"
    and ins: "insert_requested q decision pos s = (res, s')"
  shows "res = Inr \<lparr>ou_returned_operation_id = rq_id q, ou_stored_operation_id = rq_id q,
      ou_decision = decision, ou_events = [event_requested (record_from_request q)]\<rparr>"
    and "operation_store_wf s'"
    and "os_records s' = bt_insert (rq_id q) (record_from_request q) (os_records s)"
    and "live_operations s' = (live_operations s)(rq_id q := Some (rq_service q))"
    and "op_active_for_service s' (rq_service q) =
      (case pos of FrontPosition \<Rightarrow> rq_id q # op_active_for_service s (rq_service q)
                 | BackPosition \<Rightarrow> op_active_for_service s (rq_service q) @ [rq_id q])"
proof -
  have s': "s' = op_insert_active (rq_service q) (rq_id q) pos
      (s\<lparr>os_records := bt_insert (rq_id q) (record_from_request q) (os_records s)\<rparr>)"
    and "res = Inr \<lparr>ou_returned_operation_id = rq_id q, ou_stored_operation_id = rq_id q,
      ou_decision = decision, ou_events = [event_requested (record_from_request q)]\<rparr>"
    using ins by (simp_all add: insert_requested_def Let_def)
  then show "res = Inr \<lparr>ou_returned_operation_id = rq_id q, ou_stored_operation_id = rq_id q,
      ou_decision = decision, ou_events = [event_requested (record_from_request q)]\<rparr>" by simp
  show "os_records s' = bt_insert (rq_id q) (record_from_request q) (os_records s)"
    by (simp add: s' op_insert_active_def Let_def)
  have "\<not> op_is_terminal OpPending" by (simp add: op_is_terminal_def)
  then show "operation_store_wf s'"
    and "live_operations s' = (live_operations s)(rq_id q := Some (rq_service q))"
    and "op_active_for_service s' (rq_service q) =
      (case pos of FrontPosition \<Rightarrow> rq_id q # op_active_for_service s (rq_service q)
                 | BackPosition \<Rightarrow> op_active_for_service s (rq_service q) @ [rq_id q])"
    unfolding s' using operation_store_wf_insert [OF wf fresh unqueued, of "record_from_request q"]
    by simp_all
qed

lemma merge_request_wf:
  assumes wf: "operation_store_wf s" and fresh: "bt_get (os_records s) (rq_id q) = None"
  shows "operation_store_wf (snd (merge_request q decision x s))"
proof -
  let ?r0 = "record_from_request q"
  obtain r' where m: "op_merge_into x (op_created_at_ns ?r0) ?r0 = (Inr (), r')"
    by (auto simp: op_merge_into_def operation_simps)
  have r': "op_id r' = rq_id q" "operation_wf r'" "op_is_terminal (op_state r')"
    using merge_operation_end.accepted [OF m] operation_identityD [of r' ?r0]
      merge_operation_end.ends [OF m] by simp_all
  obtain detail where "event_merged r' = Inr (op_event_new r' detail)"
    using merge_operation_end.reports [OF m] by blast
  then have s': "snd (merge_request q decision x s) =
      s\<lparr>os_records := bt_insert (rq_id q) r' (os_records s)\<rparr>"
    using m r' by (simp add: merge_request_def Let_def)
  have "live_operations (s\<lparr>os_records := bt_insert (rq_id q) r' (os_records s)\<rparr>) i
      = live_operations s i" for i
    using r' fresh by (simp add: live_operations_def)
  then show ?thesis
    unfolding s'
    using operation_store_wf_records [OF wf records_wf_insert [OF operation_store_wfD(1) [OF wf] r'(1,2)]]
    by simp
qed

lemma merge_request_spec:
  assumes wf: "operation_store_wf s" and fresh: "bt_get (os_records s) (rq_id q) = None"
    and existing: "bt_get (os_records s) x = Some r" "\<not> op_is_terminal (op_state r)"
      "op_service r = rq_service q" "op_type r = rq_type q \<or> op_type r = OpRestart \<and> rq_type q = OpStart"
    and decision: "ended_by decision = None" and merge: "merge_request q decision x s = (res, s')"
  shows "\<exists>out. res = Inr out \<and> ou_decision out = decision \<and> request_admitted q out s s'"
    and "operation_store_wf s'"
proof -
  let ?r0 = "record_from_request q"
  obtain r' where m: "op_merge_into x (op_created_at_ns ?r0) ?r0 = (Inr (), r')"
    by (auto simp: op_merge_into_def operation_simps)
  note acc = merge_operation_end.accepted [OF m]
  have r': "op_id r' = rq_id q" "operation_wf r'" "op_is_terminal (op_state r')"
    using acc operation_identityD [of r' ?r0] merge_operation_end.ends [OF m] by simp_all
  obtain detail where "event_merged r' = Inr (op_event_new r' detail)"
    using merge_operation_end.reports [OF m] by blast
  then have run: "s' = s\<lparr>os_records := bt_insert (rq_id q) r' (os_records s)\<rparr>"
    "res = Inr \<lparr>ou_returned_operation_id = x, ou_stored_operation_id = rq_id q,
       ou_decision = decision, ou_events = [event_requested ?r0, op_event_new r' detail]\<rparr>"
    using merge m r' by (simp_all add: merge_request_def Let_def)
  have "x \<noteq> rq_id q" using existing fresh by auto
  then show "\<exists>out. res = Inr out \<and> ou_decision out = decision \<and> request_admitted q out s s'"
    using existing decision by (simp add: run request_admitted_def bt_contains_key_def)
  show "operation_store_wf s'" using merge_request_wf [OF wf fresh, of decision x] merge by simp
qed

lemma terminate_existing_refused:
  "terminate_existing x at how s = (Inl e, s') \<Longrightarrow> s' = s"
  using cancel_operation_end.end_operation_refused abort_operation_end.end_operation_refused
  by (cases how) (auto simp: terminate_existing_def)

lemma terminate_existing_effect:
  assumes "operation_store_wf s" and "terminate_existing x at how s = (Inr event, s')"
  shows "operation_store_wf s' \<and> live_operations s' = (live_operations s)(x := None)
    \<and> (\<exists>r'. os_records s' = bt_insert x r' (os_records s)) \<and> live_operations s x \<noteq> None
    \<and> op_active_for_service s' y = filter (\<lambda>i. i \<noteq> x) (op_active_for_service s y)
    \<and> os_queued_behind s' = bt_remove x (os_queued_behind s)"
proof (cases how)
  case (CancelTermination reason)
  then show ?thesis
    using cancel_operation_end.end_operation_effect [OF assms(1)] assms(2)
    by (simp add: terminate_existing_def)
next
  case (AbortTermination reason)
  then show ?thesis
    using abort_operation_end.end_operation_effect [OF assms(1)] assms(2)
    by (simp add: terminate_existing_def)
qed

lemma replace_existing_refused:
  assumes "replace_existing q decision x how pos s = (Inl e, s')"
  shows "s' = s"
proof -
  obtain t s1 where t: "terminate_existing x (rq_created_at_ns q) how s = (t, s1)"
    by (cases "terminate_existing x (rq_created_at_ns q) how s")
  have "\<exists>out s2. insert_requested q decision pos s1 = (Inr out, s2)"
    by (simp add: insert_requested_def Let_def)
  then show ?thesis
    using assms t terminate_existing_refused [of x "rq_created_at_ns q" how s _ s1]
    by (cases t) (auto simp: replace_existing_def)
qed

lemma replace_existing_accepted:
  assumes wf: "operation_store_wf s" and fresh: "bt_get (os_records s) (rq_id q) = None"
    and unqueued: "\<And>y. queued_behind s y \<noteq> Some (rq_id q)"
    and named: "ended_by decision = Some x" and live: "live_operations s x = Some (rq_service q)"
    and run: "replace_existing q decision x how pos s = (Inr out, s')"
  shows "operation_store_wf s'" "request_admitted q out s s'"
    "ou_stored_operation_id out = rq_id q" "ou_decision out = decision"
    "live_operations s' = (live_operations s)(x := None, rq_id q := Some (rq_service q))"
    "bt_get (os_records s') (rq_id q) = Some (record_from_request q)"
    "op_active_for_service s' (rq_service q) =
      (let rest = filter (\<lambda>i. i \<noteq> x) (op_active_for_service s (rq_service q))
       in case pos of FrontPosition \<Rightarrow> rq_id q # rest | BackPosition \<Rightarrow> rest @ [rq_id q])"
proof -
  obtain ev s1 where t: "terminate_existing x (rq_created_at_ns q) how s = (Inr ev, s1)"
    using run by (auto simp: replace_existing_def split: prod.splits sum.splits)
  note t1 = terminate_existing_effect [OF wf t, of "rq_service q"]
  from t1 obtain r' where r': "os_records s1 = bt_insert x r' (os_records s)" by blast
  have x: "x \<noteq> rq_id q" using live fresh by (auto simp: live_operations_def)
  have fresh1: "bt_get (os_records s1) (rq_id q) = None" using r' x fresh by simp
  have unqueued1: "queued_behind s1 y \<noteq> Some (rq_id q)" for y
    using unqueued [of y] t1 by (simp add: queued_behind_def)
  obtain t2 s2 where ins: "insert_requested q decision pos s1 = (t2, s2)"
    by (cases "insert_requested q decision pos s1")
  note ok = insert_requested_spec [OF conjunct1 [OF t1] fresh1 unqueued1 ins]
  have s': "s' = s2" and out: "ou_returned_operation_id out = rq_id q"
    "ou_stored_operation_id out = rq_id q" "ou_decision out = decision"
    using run t ins ok(1) by (auto simp: replace_existing_def)
  then show "operation_store_wf s'" "ou_stored_operation_id out = rq_id q" "ou_decision out = decision"
    using ok(2) by simp_all
  show records: "bt_get (os_records s') (rq_id q) = Some (record_from_request q)"
    by (simp add: s' ok(3))
  show live': "live_operations s' = (live_operations s)(x := None, rq_id q := Some (rq_service q))"
    using ok(4) t1 s' by simp
  show "op_active_for_service s' (rq_service q) =
      (let rest = filter (\<lambda>i. i \<noteq> x) (op_active_for_service s (rq_service q))
       in case pos of FrontPosition \<Rightarrow> rq_id q # rest | BackPosition \<Rightarrow> rest @ [rq_id q])"
    using ok(5) s' t1 by (simp add: Let_def split: insert_position.split)
  have "\<not> op_is_terminal OpPending" by (simp add: op_is_terminal_def)
  then show "request_admitted q out s s'"
    using x live named out
    by (simp add: request_admitted_def records live' bt_contains_key_def ok(3) [folded s'] r')
qed

lemma queue_behind_wf:
  assumes "operation_store_wf s" and "live_operations s oid = Some service"
    and "\<And>h. head = Some h \<Longrightarrow> precedes (op_active_for_service s service) h oid"
  shows "operation_store_wf (queue_behind oid head s)"
  using assms operation_store_wf_queue [OF assms(1,2)]
  by (cases head) (simp_all add: queue_behind_def)

lemma queue_behind_simps [simp]:
  "os_records (queue_behind oid head s) = os_records s"
  "live_operations (queue_behind oid head s) = live_operations s"
  "request_admitted q out s0 (queue_behind oid head s) = request_admitted q out s0 s"
proof -
  show records: "os_records (queue_behind oid head s) = os_records s"
    by (simp add: queue_behind_def split: option.split)
  show live: "live_operations (queue_behind oid head s) = live_operations s"
    by (simp add: live_operations_def fun_eq_iff records)
  show "request_admitted q out s0 (queue_behind oid head s) = request_admitted q out s0 s"
    by (simp add: request_admitted_def records live)
qed

text \<open>The three ways to admit: a new operation, one queued at the back, a replacement.\<close>

lemma insert_requested_admitted:
  assumes "operation_store_wf s" "bt_get (os_records s) (rq_id q) = None"
    "\<And>x. queued_behind s x \<noteq> Some (rq_id q)"
    "insert_requested q decision pos s = (Inr out, s')" "ended_by decision = None"
  shows "request_admitted q out s s'" "operation_store_wf s'"
    "ou_stored_operation_id out = rq_id q"
proof -
  note ins = insert_requested_spec [OF assms(1-4)]
  have "\<not> op_is_terminal OpPending" by (simp add: op_is_terminal_def)
  then show "request_admitted q out s s'" "operation_store_wf s'" "ou_stored_operation_id out = rq_id q"
    using ins(1,2) assms(5) by (simp_all add: request_admitted_def ins(3) bt_contains_key_def)
qed

lemma queue_new_admitted:
  assumes wf: "operation_store_wf s" and fresh: "bt_get (os_records s) (rq_id q) = None"
    and unqueued: "\<And>x. queued_behind s x \<noteq> Some (rq_id q)"
    and active: "op_active_for_service s (rq_service q) \<noteq> []"
    and ins: "insert_requested q QueueNew BackPosition s = (Inr out, s')"
  defines "s2 \<equiv> queue_behind (ou_stored_operation_id out)
    (map_option op_id (current_for_service s (rq_service q))) s'"
  shows "request_admitted q out s s2" "operation_store_wf s2"
proof -
  have admitted: "request_admitted q out s s'" "operation_store_wf s'" "ou_stored_operation_id out = rq_id q"
    using insert_requested_admitted [OF wf fresh unqueued ins] by (simp_all add: ended_by_def)
  then show "request_admitted q out s s2" by (simp add: s2_def)
  note spec = insert_requested_spec [OF wf fresh unqueued ins]
  obtain h rest where list: "op_active_for_service s (rq_service q) = h # rest"
    using active by (cases "op_active_for_service s (rq_service q)") auto
  then obtain r where head: "current_for_service s (rq_service q) = Some r" "op_id r = h"
    using current_is_head [OF wf] by blast
  have "precedes (op_active_for_service s' (rq_service q)) h (rq_id q)"
    using precedes_last [of h "h # rest" "rq_id q"] by (simp add: spec(5) list)
  then show "operation_store_wf s2"
    unfolding s2_def admitted(3) using admitted(2) head spec(4)
    by (intro queue_behind_wf [where service = "rq_service q"]) simp_all
qed

lemma requeue_new_admitted:
  assumes wf: "operation_store_wf s" and fresh: "bt_get (os_records s) (rq_id q) = None"
    and unqueued: "\<And>y. queued_behind s y \<noteq> Some (rq_id q)"
    and live: "live_operations s x = Some (rq_service q)"
    and run: "replace_existing q (CancelExistingThenQueue x) x how BackPosition s = (Inr out, s')"
    and h: "\<And>i. head = Some i \<Longrightarrow>
      \<exists>r. current_for_service s' (rq_service q) = Some r \<and> op_id r = i \<and> i \<noteq> rq_id q"
  shows "operation_store_wf (queue_behind (rq_id q) head s')"
proof -
  note spec = replace_existing_accepted [OF wf fresh unqueued _ live run]
  have named: "ended_by (CancelExistingThenQueue x) = Some x" by (simp add: ended_by_def)
  have live': "live_operations s' (rq_id q) = Some (rq_service q)" using spec(5) [OF named] by simp
  obtain rest where list: "op_active_for_service s' (rq_service q) = rest @ [rq_id q]"
    using spec(7) [OF named] by (simp add: Let_def)
  have "precedes (op_active_for_service s' (rq_service q)) i (rq_id q)" if "head = Some i" for i
  proof -
    obtain j js where js: "op_active_for_service s' (rq_service q) = j # js"
      using list by (metis append_is_Nil_conv neq_Nil_conv)
    then have "i = j" "i \<noteq> rq_id q" using current_is_head [OF spec(1) [OF named]] h [OF that] by fastforce+
    then have "i \<in> set rest" using js list by (cases rest) auto
    then show ?thesis using precedes_last list by metis
  qed
  then show ?thesis using spec(1) [OF named] live' by (rule queue_behind_wf [rotated 2]) 
qed

lemma request_operation_refused:
  assumes wf: "operation_store_wf s" and run: "request_operation q s = (Inl e, s')"
  shows "s' = s"
proof (cases "and_then (ensure_unused_id s (rq_id q)) (\<lambda>_. resolve_request s q)")
  case (Inl f)
  then show ?thesis using run by (simp add: request_operation_def)
next
  case (Inr decision)
  have ins: "\<exists>out s2. insert_requested q decision pos s = (Inr out, s2)" for pos
    by (simp add: insert_requested_def Let_def)
  have "bt_get (os_records s) (rq_id q) = None" and "resolve_request s q = Inr decision"
    using Inr by (auto simp: ensure_unused_id_def bt_contains_key_def split: if_splits)
  then have fresh: "bt_get (os_records s) (rq_id q) = None" and "decision_holds s q decision"
    using resolve_request_decision [OF wf, of q] by auto
  then have merge: "\<exists>out s2. merge_request q decision x s = (Inr out, s2)"
    if "decision = MergeIntoExisting x" for x
    using that merge_request_spec(1) [OF wf fresh, of x _ decision] live_operationD [of s x "rq_service q"]
    by (cases "merge_request q decision x s") (fastforce simp: decision_holds_def ended_by_def)
  show ?thesis
    using run Inr ins [of BackPosition] merge replace_existing_refused
    by (cases decision) (auto simp: request_operation_def Let_def split: prod.splits sum.splits)
qed

lemma request_operation_accepted:
  assumes wf: "operation_store_wf s" and unqueued: "\<And>x. queued_behind s x \<noteq> Some (rq_id q)"
    and run: "request_operation q s = (Inr out, s')"
  shows "operation_store_wf s' \<and> request_admitted q out s s'"
proof -
  obtain decision where fresh: "bt_get (os_records s) (rq_id q) = None"
    and decision: "resolve_request s q = Inr decision"
    using run
    by (auto simp: request_operation_def ensure_unused_id_def bt_contains_key_def and_then_def
        split: if_splits sum.splits)
  have holds: "decision_holds s q decision" using resolve_request_decision [OF wf, of q] decision by auto
  have step: "and_then (ensure_unused_id s (rq_id q)) (\<lambda>_. resolve_request s q) = Inr decision"
    using fresh decision by (simp add: ensure_unused_id_def bt_contains_key_def)
  have live: "live_operations s x = Some (rq_service q)" if "op_active_for_service s (rq_service q) = x # rest"
    for x rest using active_list(2) [OF wf, of "rq_service q"] that by auto
  note insert = insert_requested_admitted [OF wf fresh unqueued]
  note replace = replace_existing_accepted [OF wf fresh unqueued _ live]
  have replaced: "operation_store_wf s' \<and> request_admitted q out s s'"
    if "ended_by decision = Some x" "op_active_for_service s (rq_service q) = x # rest"
      "replace_existing q decision x how pos s = (Inr out, s')" for x rest how pos
    using replace(1,2) [OF that] by simp
  show ?thesis
  proof (cases decision)
    case CreateNew
    then show ?thesis
      using run step insert(1,2) [of CreateNew BackPosition]
      by (simp add: request_operation_def ended_by_def)
  next
    case QueueNew
    obtain res s1 where ins: "insert_requested q QueueNew BackPosition s = (res, s1)"
      by (cases "insert_requested q QueueNew BackPosition s")
    then show ?thesis
      using run step QueueNew holds queue_new_admitted [OF wf fresh unqueued, of out s1]
      by (cases res) (auto simp: request_operation_def Let_def decision_holds_def)
  next
    case (MergeIntoExisting x)
    with holds obtain r where "bt_get (os_records s) x = Some r" "live_operations s x = Some (rq_service q)"
      "op_type r = rq_type q \<or> op_type r = OpRestart \<and> rq_type q = OpStart"
      by (auto simp: decision_holds_def)
    then show ?thesis
      using run step MergeIntoExisting merge_request_spec [OF wf fresh, of x r decision "Inr out" s']
        live_operationD [of s x]
      by (auto simp: request_operation_def ended_by_def)
  next
    case (CancelExistingThenCreate x)
    then show ?thesis
      using run step holds replaced [of x]
      by (auto simp: request_operation_def decision_holds_def ended_by_def)
  next
    case (AbortExistingThenCreate x)
    then show ?thesis
      using run step holds replaced [of x]
      by (auto simp: request_operation_def decision_holds_def ended_by_def)
  next
    case (CancelExistingThenQueue x)
    define how where "how = CancelTermination ''superseded_by_restart''"
    obtain s1 where rep: "replace_existing q decision x how BackPosition s = (Inr out, s1)"
      using run step CancelExistingThenQueue
      by (auto simp: request_operation_def how_def Let_def split: prod.splits sum.splits)
    obtain rest where rest: "op_active_for_service s (rq_service q) = x # rest"
      using holds CancelExistingThenQueue by (auto simp: decision_holds_def)
    have named: "ended_by decision = Some x" using CancelExistingThenQueue by (simp add: ended_by_def)
    note spec = replace [OF named rest rep]
    define head where "head = (case current_for_service s1 (rq_service q) of
      Some h \<Rightarrow> if op_id h \<noteq> rq_id q then Some (op_id h) else None | None \<Rightarrow> None)"
    have s': "s' = queue_behind (rq_id q) head s1"
      using run step CancelExistingThenQueue rep spec
      by (simp add: request_operation_def how_def Let_def head_def)
    have "operation_store_wf s'"
      unfolding s'
      by (rule requeue_new_admitted [OF wf fresh unqueued live [OF rest] rep [unfolded CancelExistingThenQueue]])
        (auto simp: head_def split: option.splits if_splits)
    then show ?thesis using spec(2) by (simp add: s')
  next
    case (RejectConflict rejection)
    then show ?thesis using run step by (simp add: request_operation_def)
  qed
qed

section \<open>Runs of the store\<close>

text \<open>
  A run of the store and the identifiers given to it, which are never given twice. Every operation
  of the store is a step, one with a guard: \<open>requeue_behind_head\<close> is a step for a live operation that
  is not at the head of its service's list, or is alone there. For a head with other operations
  behind it, which is what \<open>src/supervisor/control/promote.rs\<close> calls it for, it breaks the order of
  the queue (\<open>requeued_head_waits\<close>); runs with such a call are not runs of this relation.
\<close>

inductive operation_run :: "operation_store \<Rightarrow> operation_id set \<Rightarrow> bool" where
  run_new: "operation_run operation_store_new {}"
| run_request: "operation_run s issued \<Longrightarrow> rq_id q \<notin> issued \<Longrightarrow>
    operation_run (snd (request_operation q s)) (insert (rq_id q) issued)"
| run_merge: "operation_run s issued \<Longrightarrow> rq_id q \<notin> issued \<Longrightarrow>
    operation_run (snd (merge_request_into q existing s)) (insert (rq_id q) issued)"
| run_shutdown_stop: "operation_run s issued \<Longrightarrow> oid \<notin> issued \<Longrightarrow>
    operation_run (snd (observe_shutdown_stop oid service at s)) (insert oid issued)"
| run_clock: "operation_run s issued \<Longrightarrow> operation_run (snd (restart_lifetime_clock oid at s)) issued"
| run_start: "operation_run s issued \<Longrightarrow> operation_run (snd (start_operation oid at s)) issued"
| run_complete: "operation_run s issued \<Longrightarrow> operation_run (snd (complete_operation oid at res s)) issued"
| run_fail: "operation_run s issued \<Longrightarrow> operation_run (snd (fail_operation oid at res s)) issued"
| run_cancel: "operation_run s issued \<Longrightarrow> operation_run (snd (cancel_operation oid at res s)) issued"
| run_abort: "operation_run s issued \<Longrightarrow> operation_run (snd (abort_operation oid at res s)) issued"
| run_clear: "operation_run s issued \<Longrightarrow> operation_run (clear_queued_behind oid s) issued"
| run_requeue: "operation_run s issued \<Longrightarrow> oid \<in> set (op_active_for_service s service) \<Longrightarrow>
    oid \<noteq> hd (op_active_for_service s service) \<or> tl (op_active_for_service s service) = [] \<Longrightarrow>
    operation_run (requeue_behind_head oid s) issued"
| run_purge: "operation_run s issued \<Longrightarrow>
    operation_run (snd (purge_terminal_completed_at_or_before cutoff s)) issued"
| run_adopt: "operation_run s issued \<Longrightarrow> operation_run (adopt_service_security services s) issued"

text \<open>Only issued identifiers are in the records and in the queue.\<close>

definition only_issued :: "operation_store \<Rightarrow> operation_id set \<Rightarrow> bool" where
  "only_issued s issued \<longleftrightarrow>
     (\<forall>oid r. bt_get (os_records s) oid = Some r \<longrightarrow> oid \<in> issued)
     \<and> (\<forall>oid behind. queued_behind s oid = Some behind \<longrightarrow> behind \<in> issued)"

lemma only_issuedI:
  assumes "only_issued s issued"
    and "\<And>oid r. bt_get (os_records s') oid = Some r \<Longrightarrow> bt_get (os_records s) oid \<noteq> None"
    and "\<And>oid behind. queued_behind s' oid = Some behind \<Longrightarrow> queued_behind s oid = Some behind"
  shows "only_issued s' issued"
  using assms unfolding only_issued_def by fast

lemma with_operation_issued:
  "only_issued s issued \<Longrightarrow> only_issued (snd (with_operation oid run report s)) issued"
  by (rule only_issuedI, assumption)
    (auto simp: with_operation_def queued_behind_def split: option.splits prod.splits sum.splits if_splits)

lemma op_remove_active_issued:
  "only_issued s issued \<Longrightarrow> only_issued (op_remove_active service oid s) issued"
  by (rule only_issuedI, assumption)
    (auto simp: op_remove_active_def Let_def queued_behind_def split: option.splits if_splits)

lemma end_operation_issued:
  assumes "only_issued s issued"
  shows "only_issued (snd (end_operation oid run report s)) issued"
proof (cases "with_operation oid run report s")
  case (Pair res s')
  then show ?thesis
    using with_operation_issued [OF assms, of oid run report]
    by (cases res) (simp_all add: end_operation_def op_remove_active_issued)
qed

lemma terminate_existing_issued:
  "only_issued s issued \<Longrightarrow> only_issued (snd (terminate_existing oid at how s)) issued"
  by (simp add: terminate_existing_def end_operation_issued split: existing_termination.split)

lemma insert_requested_issued:
  "only_issued s issued \<Longrightarrow>
   only_issued (snd (insert_requested q decision pos s)) (insert (rq_id q) issued)"
  by (auto simp: only_issued_def insert_requested_def Let_def op_insert_active_def queued_behind_def
      split: if_splits)

lemma merge_request_issued:
  assumes "only_issued s issued"
  shows "only_issued (snd (merge_request q decision x s)) (insert (rq_id q) issued)"
proof -
  let ?r = "record_from_request q"
  obtain res r' where m: "op_merge_into x (op_created_at_ns ?r) ?r = (res, r')"
    by (cases "op_merge_into x (op_created_at_ns ?r) ?r")
  then have "op_id r' = rq_id q"
    by (auto simp: op_merge_into_def op_guarded_def split: sum.splits)
  then show ?thesis
    using assms m by (auto simp: only_issued_def merge_request_def Let_def queued_behind_def
        split: sum.splits if_splits)
qed

lemma replace_existing_issued:
  assumes "only_issued s issued"
  shows "only_issued (snd (replace_existing q decision x how pos s)) (insert (rq_id q) issued)"
proof (cases "terminate_existing x (rq_created_at_ns q) how s")
  case (Pair res s1)
  have s1: "only_issued s1 issued"
    using terminate_existing_issued [OF assms, of x "rq_created_at_ns q" how] Pair by simp
  then have "only_issued s1 (insert (rq_id q) issued)" by (auto simp: only_issued_def)
  then show ?thesis
    using Pair insert_requested_issued [OF s1, of q decision pos]
    by (cases res) (auto simp: replace_existing_def split: prod.split sum.split)
qed

lemma queue_behind_issued:
  assumes "only_issued s issued" and "\<And>h. head = Some h \<Longrightarrow> h \<in> issued"
  shows "only_issued (queue_behind oid head s) issued"
  using assms by (auto simp: only_issued_def queue_behind_def queued_behind_def
      split: option.split if_splits)

lemma current_issued:
  assumes "only_issued s issued" and "records_wf (os_records s)" and "current_for_service s service = Some r"
  shows "op_id r \<in> issued"
proof -
  have "find_map (bt_get (os_records s)) ids = Some r \<Longrightarrow> \<exists>oid. bt_get (os_records s) oid = Some r" for ids
    by (induction ids) (auto split: option.splits)
  then obtain oid where oid: "bt_get (os_records s) oid = Some r"
    using assms(3) unfolding current_for_service_def by blast
  then show ?thesis using assms(1) records_wfD [OF assms(2) oid] by (auto simp: only_issued_def)
qed

lemma request_operation_issued:
  assumes wf: "operation_store_wf s" and issued: "only_issued s issued" and fresh: "rq_id q \<notin> issued"
  shows "only_issued (snd (request_operation q s)) (insert (rq_id q) issued)"
proof (cases "request_operation q s")
  case (Pair res s')
  have weaker: "only_issued s (insert (rq_id q) issued)" using issued by (auto simp: only_issued_def)
  show ?thesis
  proof (cases res)
    case (Inl e)
    then show ?thesis using Pair weaker request_operation_refused [OF wf] by auto
  next
    case (Inr out)
    let ?issued = "insert (rq_id q) issued"
    have "queued_behind s x \<noteq> Some (rq_id q)" for x using issued fresh by (auto simp: only_issued_def)
    then have wf': "operation_store_wf s'" using Pair Inr request_operation_accepted [OF wf] by blast
    have ins: "insert_requested q d pos s = (r, s1) \<Longrightarrow> only_issued s1 ?issued" for d pos r s1
      using insert_requested_issued [OF issued, of q d pos] by simp
    have mrg: "merge_request q d x s = (r, s1) \<Longrightarrow> only_issued s1 ?issued" for d x r s1
      using merge_request_issued [OF issued, of q d x] by simp
    have rep: "replace_existing q d x how pos s = (r, s1) \<Longrightarrow> only_issued s1 ?issued" for d x how pos r s1
      using replace_existing_issued [OF issued, of q d x how pos] by simp
    have head: "current_for_service s service = Some r \<Longrightarrow> op_id r \<notin> issued \<Longrightarrow> op_id r = rq_id q" for service r
      using current_issued [OF weaker operation_store_wfD(1) [OF wf]] by blast
    have head': "current_for_service s1 service = Some r \<Longrightarrow> only_issued s1 ?issued \<Longrightarrow>
        s' = queue_behind oid h s1 \<Longrightarrow> op_id r \<notin> issued \<Longrightarrow> op_id r = rq_id q" for s1 service r oid h
      using current_issued [of s1 ?issued] operation_store_wfD(1) [OF wf'] by auto
    show ?thesis
      using Pair Inr ins mrg rep
      by (auto simp: request_operation_def Let_def intro!: queue_behind_issued intro: head head' rep
          split: sum.splits prod.splits operation_conflict_decision.splits option.splits if_splits)
  qed
qed

lemma clear_queued_behind_issued:
  "only_issued s issued \<Longrightarrow> only_issued (clear_queued_behind oid s) issued"
  by (rule only_issuedI, assumption) (auto simp: clear_queued_behind_def queued_behind_def split: if_splits)

lemma purge_issued:
  "only_issued s issued \<Longrightarrow> only_issued (snd (purge_terminal_completed_at_or_before cutoff s)) issued"
  by (rule only_issuedI, assumption)
    (auto simp: purge_terminal_completed_at_or_before_def Let_def purge_records queued_behind_def
      split: if_splits)

lemma adopt_service_security_issued:
  "only_issued s issued \<Longrightarrow> only_issued (adopt_service_security services s) issued"
  by (rule only_issuedI, assumption) (auto simp: adopt_service_security_def queued_behind_def)

lemma requeue_behind_head_queue:
  assumes "operation_store_wf s" and "oid \<in> set (op_active_for_service s service)"
    and "oid \<noteq> hd (op_active_for_service s service) \<or> tl (op_active_for_service s service) = []"
  shows "\<exists>head. requeue_behind_head oid s = queue_behind oid head s
    \<and> live_operations s oid = Some service
    \<and> (\<forall>h. head = Some h \<longrightarrow> precedes (op_active_for_service s service) h oid)"
proof -
  have live: "live_operations s oid = Some service" using active_list(2) [OF assms(1)] assms(2) by simp
  then obtain r where r: "bt_get (os_records s) oid = Some r" "op_service r = service"
    using live_operationD by metis
  obtain h rest where list: "op_active_for_service s service = h # rest"
    using assms(2) by (cases "op_active_for_service s service") auto
  show ?thesis
  proof (cases "h = oid")
    case True
    then have "requeue_behind_head oid s = queue_behind oid None s"
      using assms(3) list r by (simp add: requeue_behind_head_def queue_behind_def)
    then show ?thesis using live by auto
  next
    case False
    then have "requeue_behind_head oid s = queue_behind oid (Some h) s"
      using list r by (simp add: requeue_behind_head_def queue_behind_def)
    moreover have "precedes (op_active_for_service s service) h oid"
      using False assms(2) list by auto
    ultimately show ?thesis using live by auto
  qed
qed

lemma requeue_behind_head_invariant:
  assumes "operation_store_wf s" and "only_issued s issued"
    and "oid \<in> set (op_active_for_service s service)"
    and "oid \<noteq> hd (op_active_for_service s service) \<or> tl (op_active_for_service s service) = []"
  shows "operation_store_wf (requeue_behind_head oid s) \<and> only_issued (requeue_behind_head oid s) issued"
proof -
  obtain head where head: "requeue_behind_head oid s = queue_behind oid head s"
    "live_operations s oid = Some service"
    "\<And>h. head = Some h \<Longrightarrow> precedes (op_active_for_service s service) h oid"
    using requeue_behind_head_queue [OF assms(1,3,4)] by blast
  have "h \<in> issued" if "head = Some h" for h
  proof -
    have "h \<in> set (op_active_for_service s service)" using head(3) [OF that] precedes_set by fast
    then have "live_operations s h = Some service" using active_list(2) [OF assms(1)] by simp
    then show ?thesis using assms(2) live_operationD unfolding only_issued_def by metis
  qed
  then have "only_issued (queue_behind oid head s) issued"
    using assms(2) by (cases head) (auto simp: only_issued_def queue_behind_def queued_behind_def)
  then show ?thesis using queue_behind_wf [OF assms(1) head(2,3)] head(1) by simp
qed

lemma operation_run_invariant:
  assumes "operation_run s issued"
  shows "operation_store_wf s \<and> only_issued s issued"
  using assms
proof induction
  case run_new
  have "live_operations operation_store_new = (\<lambda>_. None)"
    by (simp add: live_operations_def operation_store_new_def fun_eq_iff)
  then show ?case
    using index_of_empty
    by (simp add: operation_store_wf_def only_issued_def records_wf_def queue_ordered_def
        operation_store_new_def queued_behind_def)
next
  case (run_request s issued q)
  have "queued_behind s x \<noteq> Some (rq_id q)" for x using run_request by (auto simp: only_issued_def)
  then show ?case
    using run_request request_operation_refused [of s q] request_operation_accepted [of s q]
      request_operation_issued [of s issued q]
    by (cases "request_operation q s"; cases "fst (request_operation q s)") auto
next
  case (run_merge s issued q x)
  have weaker: "only_issued s (insert (rq_id q) issued)" using run_merge by (auto simp: only_issued_def)
  have "operation_store_wf (snd (merge_request q d x s))"
    if "bt_get (os_records s) (rq_id q) = None" for d
    using merge_request_wf run_merge that by blast
  then show ?case
    using run_merge weaker merge_request_issued [of s issued q _ x]
    by (auto simp: merge_request_into_def ensure_unused_id_def bt_contains_key_def
        split: sum.split option.split)
next
  case (run_shutdown_stop s issued oid service at)
  have weaker: "only_issued s (insert oid issued)" using run_shutdown_stop by (auto simp: only_issued_def)
  define q where "q = \<lparr>rq_id = oid, rq_type = OpStop, rq_service = service, rq_source = ShutdownSource,
    rq_caller = None, rq_created_at_ns = at\<rparr>"
  have q: "rq_id q = oid" by (simp add: q_def)
  have unqueued: "queued_behind s x \<noteq> Some (rq_id q)" for x
    using run_shutdown_stop q by (auto simp: only_issued_def)
  have "operation_store_wf (snd (insert_requested q CreateNew BackPosition s))"
    if "bt_get (os_records s) oid = None"
    using insert_requested_spec(2) [OF _ _ unqueued] run_shutdown_stop that q
    by (metis prod.collapse)
  then show ?case
    using run_shutdown_stop weaker insert_requested_issued [of s issued q CreateNew BackPosition] q
    by (auto simp: observe_shutdown_stop_def ensure_unused_id_def bt_contains_key_def q_def
        split: sum.split option.split)
next
  case (run_requeue s issued oid service)
  then show ?case using requeue_behind_head_invariant by blast
qed (simp_all add: restart_lifetime_clock_wf start_operation_wf clear_queued_behind_wf purge_wf
    adopt_service_security_wf complete_operation_def fail_operation_def cancel_operation_def
    abort_operation_def complete_operation_end.end_operation_wf fail_operation_end.end_operation_wf
    cancel_operation_end.end_operation_wf abort_operation_end.end_operation_wf end_operation_issued
    clear_queued_behind_issued purge_issued adopt_service_security_issued,
    simp_all add: restart_lifetime_clock_def start_operation_def with_operation_issued)

section \<open>Properties\<close>

lemma head_is_not_waiting:
  assumes wf: "operation_store_wf s" and list: "op_active_for_service s service = h # rest"
  shows "\<not> is_queued_behind_live s h"
proof
  assume "is_queued_behind_live s h"
  then obtain behind r where q: "queued_behind s h = Some behind"
    and r: "bt_get (os_records s) behind = Some r" "\<not> op_is_terminal (op_state r)"
    by (auto simp: is_queued_behind_live_def split: option.splits)
  have "live_operations s behind = Some (op_service r)" using r by (simp add: live_operations_def)
  then have "live_operations s h = Some (op_service r)"
    and p: "precedes (op_active_for_service s (op_service r)) behind h"
    using operation_store_wfD(3) [OF wf] q by (auto simp: queue_ordered_def)
  moreover have "live_operations s h = Some service"
    using active_list(2) [OF wf, of service] list by auto
  ultimately have "op_service r = service" by simp
  then show False using p list active_list(1) [OF wf, of service] precedes_head by metis
qed

lemma queued_head_is_ready:
  assumes wf: "operation_store_wf s" and list: "op_active_for_service s service = h # rest"
    and q: "queued_behind s h = Some behind" and r: "bt_get (os_records s) h = Some r" "op_state r = OpPending"
  shows "r \<in> set (ready_queued_operations s)"
proof -
  have svc: "op_service r = service"
    using active_list(2) [OF wf, of service] list r
    by (auto simp: live_operations_def op_is_terminal_def split: option.splits if_splits)
  obtain c where c: "current_for_service s service = Some c" "op_id c = h"
    using current_is_head [OF wf list] by blast
  have "op_id r = h" using records_wfD [OF operation_store_wfD(1) [OF wf] r(1)] by simp
  moreover have "case bt_get (os_records s) behind of None \<Rightarrow> True | Some x \<Rightarrow> op_is_terminal (op_state x)"
    using head_is_not_waiting [OF wf list] q by (simp add: is_queued_behind_live_def split: option.splits)
  ultimately have "queue_entry_ready s (h, behind)"
    using r c svc by (simp add: queue_entry_ready_def)
  moreover have "(h, behind) \<in> set (bt_entries (os_queued_behind s))"
    using q by (simp add: queued_behind_def bt_get_entries_iff)
  ultimately show ?thesis
    using r by (auto simp: ready_queued_operations_def map_filter_def intro!: rev_image_eqI)
qed

text \<open>A sample run: a start, a restart queued behind it, and the end of the start.\<close>

definition sample_id :: "nat \<Rightarrow> operation_id" where
  "sample_id n = OperationId (UuidV7 (replicate 15 0 @ [of_nat n]))"

definition sample_request :: "nat \<Rightarrow> operation_type \<Rightarrow> operation_request" where
  "sample_request n kind = \<lparr>rq_id = sample_id n, rq_type = kind, rq_service = ''a'',
     rq_source = AdminSource, rq_caller = None, rq_created_at_ns = 1\<rparr>"

definition sample_queued :: operation_store where
  "sample_queued = snd (request_operation (sample_request 2 OpRestart)
     (snd (start_operation (sample_id 1) 2
       (snd (request_operation (sample_request 1 OpStart) operation_store_new)))))"

lemma sample_queued_run: "operation_run sample_queued {sample_id 1, sample_id 2}"
proof -
  have "sample_id 1 \<noteq> sample_id 2" by (simp add: sample_id_def)
  then have "operation_run sample_queued
      (insert (rq_id (sample_request 2 OpRestart)) (insert (rq_id (sample_request 1 OpStart)) {}))"
    unfolding sample_queued_def
    by (intro run_request run_start run_new) (simp_all add: sample_request_def)
  then show ?thesis by (simp add: sample_request_def insert_commute)
qed

definition sample_promotable :: operation_store where
  "sample_promotable = snd (complete_operation (sample_id 1) 3 ''active'' sample_queued)"

lemma sample_promotable_run: "operation_run sample_promotable {sample_id 1, sample_id 2}"
  unfolding sample_promotable_def by (rule run_complete [OF sample_queued_run])

text \<open>
  C12: The queue of a service does not stall. After any run of the store in which
  \<open>requeue_behind_head\<close> is never called for the head of a list with other operations behind it, the
  operation at the head of a service's list waits for no live operation; and while it is pending
  and still marked as queued, \<open>ready_queued_operations\<close> reports it for promotion.
\<close>

theorem queue_head_never_waits:
  assumes "operation_run s issued" and "op_active_for_service s service = h # rest"
  shows "\<not> is_queued_behind_live s h
    \<and> (\<forall>behind r. queued_behind s h = Some behind \<and> bt_get (os_records s) h = Some r
         \<and> op_state r = OpPending \<longrightarrow> r \<in> set (ready_queued_operations s))"
proof -
  have wf: "operation_store_wf s" using operation_run_invariant [OF assms(1)] by simp
  show ?thesis
    using head_is_not_waiting [OF wf assms(2)] queued_head_is_ready [OF wf assms(2)] by blast
qed

theorem queue_head_never_waits_witness:
  "op_active_for_service sample_promotable ''a'' = [sample_id 2]
   \<and> queued_behind sample_promotable (sample_id 2) = Some (sample_id 1)
   \<and> \<not> is_queued_behind_live sample_promotable (sample_id 2)"
proof -
  have list: "op_active_for_service sample_promotable ''a'' = [sample_id 2]" by code_simp
  moreover have "queued_behind sample_promotable (sample_id 2) = Some (sample_id 1)" by code_simp
  ultimately show ?thesis
    using queue_head_never_waits [OF sample_promotable_run list] by blast
qed

text \<open>
  Moving a promoted operation, which is the head of its list, back to the queue makes it wait for
  the operation behind it.
\<close>

lemma requeued_head_waits:
  assumes wf: "operation_store_wf s" and list: "op_active_for_service s service = h # b # rest"
  shows "is_queued_behind_live (requeue_behind_head h s) h"
proof -
  have live: "live_operations s h = Some service" "live_operations s b = Some service" and "h \<noteq> b"
    using active_list [OF wf, of service] list by auto
  then obtain r c where "bt_get (os_records s) h = Some r" "op_service r = service"
    "bt_get (os_records s) b = Some c" "\<not> op_is_terminal (op_state c)"
    using live_operationD by metis
  then show ?thesis
    using list \<open>h \<noteq> b\<close>
    by (simp add: requeue_behind_head_def is_queued_behind_live_def queued_behind_def)
qed

text \<open>
  C13: What a request answers. After any such run of the store, and for an identifier it has not
  seen, a refused request leaves the store as it was, and a service with a live operation is the only reason to
  refuse; an admitted one returns a live operation of the service of the requested type (or the
  restart a start merges into), stores the new record, ends only the operation its decision names,
  and a reset is admitted only when no operation of the service is live.
\<close>

theorem requests_are_answered:
  assumes "operation_run s issued" and "rq_id q \<notin> issued"
  shows "case request_operation q s of
      (Inl e, s') \<Rightarrow> s' = s \<and> op_active_for_service s (rq_service q) \<noteq> []
    | (Inr out, s') \<Rightarrow> request_admitted q out s s'
        \<and> (rq_type q = OpReset \<longrightarrow> op_active_for_service s (rq_service q) = [])"
proof -
  have wf: "operation_store_wf s" and issued: "only_issued s issued"
    using operation_run_invariant [OF assms(1)] by auto
  have unqueued: "queued_behind s x \<noteq> Some (rq_id q)" for x
    using issued assms(2) by (auto simp: only_issued_def)
  have fresh: "ensure_unused_id s (rq_id q) = Inr ()"
    using issued assms(2) by (auto simp: only_issued_def ensure_unused_id_def bt_contains_key_def)
  obtain decision where d: "resolve_request s q = Inr decision" "decision_holds s q decision"
    using resolve_request_decision [OF wf] by blast
  show ?thesis
  proof (cases "request_operation q s")
    case (Pair res s')
    show ?thesis
    proof (cases res)
      case (Inl e)
      have "op_active_for_service s (rq_service q) \<noteq> []"
        using Pair Inl d fresh active_list(2) [OF wf, of "rq_service q"]
        by (cases decision)
          (auto simp: request_operation_def decision_holds_def insert_requested_def Let_def)
      then show ?thesis using Pair Inl request_operation_refused [OF wf] by auto
    next
      case (Inr out)
      have "decision \<noteq> RejectConflict rejection" for rejection
        using Pair Inr d fresh by (auto simp: request_operation_def)
      then have "rq_type q = OpReset \<longrightarrow> op_active_for_service s (rq_service q) = []"
        using reset_is_not_queued [OF wf _ d(1)] by blast
      then show ?thesis using Pair Inr request_operation_accepted [OF wf unqueued] by auto
    qed
  qed
qed

theorem requests_are_answered_witness:
  "\<exists>out s'. request_operation (sample_request 3 OpStart) sample_queued = (Inr out, s')
     \<and> ou_returned_operation_id out = sample_id 1
     \<and> request_admitted (sample_request 3 OpStart) out sample_queued s'"
proof -
  have "rq_id (sample_request 3 OpStart) \<notin> {sample_id 1, sample_id 2}"
    by (simp add: sample_request_def sample_id_def)
  note answered = requests_are_answered [OF sample_queued_run this]
  have "case fst (request_operation (sample_request 3 OpStart) sample_queued) of
      Inl e \<Rightarrow> False | Inr out \<Rightarrow> ou_returned_operation_id out = sample_id 1"
    by code_simp
  with answered show ?thesis
    by (auto split: prod.splits sum.splits)
qed

text \<open>
  C31: The index is exact. After any such run of the store every record carries the identifier it is
  stored under and consistent times, and the list of a service holds exactly its operations that
  have not ended, each once.
\<close>

theorem operation_store_tracks_live_operations:
  assumes "operation_run s issued"
  shows "distinct (op_active_for_service s service)
    \<and> (oid \<in> set (op_active_for_service s service) \<longleftrightarrow>
         (\<exists>r. bt_get (os_records s) oid = Some r \<and> \<not> op_is_terminal (op_state r)
            \<and> op_service r = service))
    \<and> (\<forall>r. bt_get (os_records s) oid = Some r \<longrightarrow> op_id r = oid \<and> operation_wf r)"
proof -
  have wf: "operation_store_wf s" using operation_run_invariant [OF assms] by simp
  have "oid \<in> set (op_active_for_service s service) \<longleftrightarrow> live_operations s oid = Some service"
    using active_list(2) [OF wf] by simp
  then show ?thesis
    using active_list(1) [OF wf] operation_store_wfD(1) [OF wf]
    by (auto simp: live_operations_def records_wf_def split: option.splits)
qed

theorem operation_store_tracks_live_operations_witness:
  "sample_id 2 \<in> set (op_active_for_service sample_queued ''a'')
   \<and> (\<exists>r. bt_get (os_records sample_queued) (sample_id 2) = Some r \<and> \<not> op_is_terminal (op_state r)
        \<and> op_service r = ''a'')"
proof -
  have "sample_id 2 \<in> set (op_active_for_service sample_queued ''a'')" by code_simp
  then show ?thesis
    using operation_store_tracks_live_operations [OF sample_queued_run, of "''a''" "sample_id 2"] by blast
qed

end
