(* ===== verification/Boot_Plan.thy ===== *)
theory Boot_Plan
  imports Boot_Graph Service_Reload Job Operation_Store
begin

text \<open>
  The boot plan (\<open>src/boot/phase2/planner.rs\<close> and \<open>model.rs\<close>) and its dispatch to the operation
  store (\<open>src/operation/store/boot.rs\<close>).

  The lemmas show that planning always ends, that the started services are distinct, come after
  their hard dependencies and leave no boot service unaccounted for, and that dispatching a plan
  to an empty store gives every start a live operation and every blocked service a failed one.
\<close>

section \<open>Model\<close>

definition blocked_transition_cause :: "blocked_reason \<Rightarrow> transition_cause" where
  "blocked_transition_cause reason =
     (case reason of
        HardDependencyUnavailable _ _ \<Rightarrow> DependencyFailure
      | HardDependencyBlocked _ _ \<Rightarrow> DependencyFailure
      | CycleBlocked _ \<Rightarrow> CycleDetected
      | ConflictingBootService _ \<Rightarrow> ValidationError
      | ValidationBlocked _ \<Rightarrow> ValidationError)"

record blocked_service =
  bk_service :: string
  bk_operation_id :: operation_id
  bk_reason :: blocked_reason
  bk_additional_reasons :: "blocked_reason list"

record prepared_start =
  ps_service :: string
  ps_operation_id :: operation_id
  ps_job_id :: job_id
  ps_cause :: start_cause
  ps_identity :: string

record phase2_boot_plan =
  bp_mode :: boot_mode
  bp_observed_at_ns :: u64
  bp_max_parallel_starts :: u32
  bp_starts :: "prepared_start list"
  bp_blocked :: "blocked_service list"
  bp_safe_mode_downgrade :: "safe_mode_downgrade list"
  bp_warnings :: "service_graph_warning list"

section \<open>The planner\<close>

type_synonym id_allocators = "operation_id_allocator \<times> job_id_allocator"

definition undecodable_draft :: "undecodable_service \<Rightarrow> blocked_service_draft" where
  "undecodable_draft u =
     \<lparr>bs_service = ud_name u,
      bs_reason = ValidationBlocked (''Service definition failed to decode: '' @ ud_message u),
      bs_additional_reasons = []\<rparr>"

definition prepared_start_of :: "(startable_service \<times> operation_id) \<times> job_id \<Rightarrow> prepared_start" where
  "prepared_start_of e =
     (case e of ((service, operation_id), job_id) \<Rightarrow>
        \<lparr>ps_service = sv_name service, ps_operation_id = operation_id, ps_job_id = job_id,
         ps_cause = sv_cause service, ps_identity = sv_identity service\<rparr>)"

definition blocked_service_of :: "blocked_service_draft \<times> operation_id \<Rightarrow> blocked_service" where
  "blocked_service_of e =
     (case e of (draft, operation_id) \<Rightarrow>
        \<lparr>bk_service = bs_service draft, bk_operation_id = operation_id, bk_reason = bs_reason draft,
         bk_additional_reasons = bs_additional_reasons draft\<rparr>)"

text \<open>The identifiers of a plan: jobs first, then operations, both or neither.\<close>

definition number_plan ::
  "startable_service list \<Rightarrow> blocked_service_draft list \<Rightarrow> u64 \<Rightarrow> id_allocators
   \<Rightarrow> (phase2_boot_plan_error, prepared_start list \<times> blocked_service list, id_allocators) outcome" where
  "number_plan order blocked observed_at_ns ids =
     (case ids of (operation_ids, job_ids) \<Rightarrow>
        case job_allocate_batch (length order) observed_at_ns job_ids of
          (Inl e, _) \<Rightarrow> (Inl (JobIdAllocation e), ids)
        | (Inr allocated_job_ids, next_job_ids) \<Rightarrow>
            (case operation_allocate_batch (length order + length blocked) observed_at_ns operation_ids of
               (Inl e, _) \<Rightarrow> (Inl (OperationIdAllocation e), ids)
             | (Inr allocated_operation_ids, next_operation_ids) \<Rightarrow>
                 (Inr (map prepared_start_of (zip (zip order allocated_operation_ids) allocated_job_ids),
                       map blocked_service_of (zip blocked (drop (length order) allocated_operation_ids))),
                  (next_operation_ids, next_job_ids))))"

definition prepare_phase2_boot_plan_with_retained ::
  "(string \<Rightarrow> string option) \<Rightarrow> boot_mode \<Rightarrow> service_definition list \<Rightarrow> u32 \<Rightarrow> u64
   \<Rightarrow> string list \<Rightarrow> undecodable_service list \<Rightarrow> id_allocators
   \<Rightarrow> (phase2_boot_plan_error, phase2_boot_plan, id_allocators) outcome option" where
  "prepare_phase2_boot_plan_with_retained tz_get mode definitions max_parallel_starts observed_at_ns
       retained_satisfied undecodable ids =
     (if max_parallel_starts = 0 then Some (Inl InvalidMaxParallelStarts, ids)
      else if mode = RecoveryBoot then
        Some (Inr \<lparr>bp_mode = mode, bp_observed_at_ns = observed_at_ns,
                   bp_max_parallel_starts = max_parallel_starts, bp_starts = [], bp_blocked = [],
                   bp_safe_mode_downgrade = [], bp_warnings = []\<rparr>, ids)
      else
        let services = synthesise_role_dependencies definitions
        in Option.bind
             (if mode = FullBoot then safe_mode_downgrade_findings services else Some (Inr []))
             (\<lambda>findings. case findings of
                Inl e \<Rightarrow> Some (Inl e, ids)
              | Inr downgrade \<Rightarrow>
                  let effective_mode = (if downgrade = [] then mode else SafeBoot);
                      warnings = (case validate_service_graph tz_get services of
                                    Inr validation \<Rightarrow> gv_warnings validation
                                  | Inl failure \<Rightarrow> gf_warnings failure)
                  in Option.bind (build_phase2_boot_graph tz_get effective_mode services) (\<lambda>built.
                       case built of
                         Inl e \<Rightarrow> Some (Inl e, ids)
                       | Inr graph \<Rightarrow>
                           Some (case number_plan
                               (filter (\<lambda>service. sv_name service \<notin> set retained_satisfied)
                                  (bg_ordered_startable graph))
                               (bg_blocked graph @ map undecodable_draft undecodable)
                               observed_at_ns ids of
                             (Inl e, ids') \<Rightarrow> (Inl e, ids')
                           | (Inr (starts, blocked), ids') \<Rightarrow>
                               (Inr \<lparr>bp_mode = effective_mode, bp_observed_at_ns = observed_at_ns,
                                     bp_max_parallel_starts = max_parallel_starts, bp_starts = starts,
                                     bp_blocked = blocked, bp_safe_mode_downgrade = downgrade,
                                     bp_warnings = warnings\<rparr>, ids')))))"

definition prepare_phase2_boot_plan ::
  "(string \<Rightarrow> string option) \<Rightarrow> boot_mode \<Rightarrow> service_definition list \<Rightarrow> u32 \<Rightarrow> u64 \<Rightarrow> id_allocators
   \<Rightarrow> (phase2_boot_plan_error, phase2_boot_plan, id_allocators) outcome option" where
  "prepare_phase2_boot_plan tz_get mode services max_parallel_starts observed_at_ns ids =
     prepare_phase2_boot_plan_with_retained tz_get mode services max_parallel_starts observed_at_ns
       [] [] ids"

section \<open>Dispatch to the operation store\<close>

record phase2_boot_dispatch =
  pd_blocked_operation_ids :: "operation_id list"
  pd_start_operation_ids :: "operation_id list"
  pd_events :: "operation_event list"

fun dependency_kind_name :: "service_dependency_kind \<Rightarrow> string" where
  "dependency_kind_name Requires = ''Requires''"
| "dependency_kind_name Wants = ''Wants''"
| "dependency_kind_name BindsTo = ''BindsTo''"

fun blocked_failure_reason :: "blocked_reason \<Rightarrow> string" where
  "blocked_failure_reason (HardDependencyUnavailable target kind) =
     ''DependencyFailure: '' @ dependency_kind_name kind @ '' dependency '' @ target @ '' is unavailable''"
| "blocked_failure_reason (HardDependencyBlocked target kind) =
     ''DependencyFailure: '' @ dependency_kind_name kind @ '' dependency '' @ target @ '' is blocked''"
| "blocked_failure_reason (CycleBlocked services) =
     ''CycleDetected: dependency cycle '' @ join '' -> '' services"
| "blocked_failure_reason (ConflictingBootService target) =
     ''ValidationError: boot conflict with '' @ target"
| "blocked_failure_reason (ValidationBlocked message) = ''ValidationError: '' @ message"

definition blocked_failure_message :: "blocked_service \<Rightarrow> string" where
  "blocked_failure_message b =
     (let primary = blocked_failure_reason (bk_reason b)
      in if bk_additional_reasons b = [] then primary
         else primary @ '' (also: ''
           @ join ''; '' (map blocked_failure_reason (bk_additional_reasons b)) @ '') [''
           @ dec_string (length (bk_additional_reasons b) + 1) @ '' findings]'')"

definition boot_request :: "operation_id \<Rightarrow> string \<Rightarrow> phase2_boot_plan \<Rightarrow> operation_request" where
  "boot_request oid service plan =
     \<lparr>rq_id = oid, rq_type = OpStart, rq_service = service, rq_source = BootSource, rq_caller = None,
      rq_created_at_ns = bp_observed_at_ns plan\<rparr>"

fun dispatch_blocked ::
  "phase2_boot_plan \<Rightarrow> blocked_service list \<Rightarrow> operation_store
   \<Rightarrow> (operation_store_error, operation_event list, operation_store) outcome" where
  "dispatch_blocked plan [] s = (Inr [], s)"
| "dispatch_blocked plan (b # bs) s =
     (case request_operation (boot_request (bk_operation_id b) (bk_service b) plan) s of
        (Inl e, s1) \<Rightarrow> (Inl e, s1)
      | (Inr out, s1) \<Rightarrow>
          (case fail_operation (bk_operation_id b) (bp_observed_at_ns plan) (blocked_failure_message b) s1 of
             (Inl e, s2) \<Rightarrow> (Inl e, s2)
           | (Inr event, s2) \<Rightarrow>
               (case dispatch_blocked plan bs s2 of
                  (Inl e, s3) \<Rightarrow> (Inl e, s3)
                | (Inr events, s3) \<Rightarrow> (Inr (ou_events out @ [event] @ events), s3))))"

fun dispatch_starts ::
  "phase2_boot_plan \<Rightarrow> prepared_start list \<Rightarrow> operation_store
   \<Rightarrow> (operation_store_error, operation_event list, operation_store) outcome" where
  "dispatch_starts plan [] s = (Inr [], s)"
| "dispatch_starts plan (p # ps) s =
     (case request_operation (boot_request (ps_operation_id p) (ps_service p) plan) s of
        (Inl e, s1) \<Rightarrow> (Inl e, s1)
      | (Inr out, s1) \<Rightarrow>
          (case dispatch_starts plan ps s1 of
             (Inl e, s2) \<Rightarrow> (Inl e, s2)
           | (Inr events, s2) \<Rightarrow> (Inr (ou_events out @ events), s2)))"

definition dispatch_phase2_boot_plan ::
  "phase2_boot_plan \<Rightarrow> operation_store
   \<Rightarrow> (operation_store_error, phase2_boot_dispatch, operation_store) outcome" where
  "dispatch_phase2_boot_plan plan s =
     (case dispatch_blocked plan (bp_blocked plan) s of
        (Inl e, s1) \<Rightarrow> (Inl e, s1)
      | (Inr blocked_events, s1) \<Rightarrow>
          (case dispatch_starts plan (bp_starts plan) s1 of
             (Inl e, s2) \<Rightarrow> (Inl e, s2)
           | (Inr start_events, s2) \<Rightarrow>
               (Inr \<lparr>pd_blocked_operation_ids = map bk_operation_id (bp_blocked plan),
                     pd_start_operation_ids = map ps_operation_id (bp_starts plan),
                     pd_events = blocked_events @ start_events\<rparr>, s2)))"

section \<open>What a plan holds\<close>

lemma number_plan_fields:
  assumes "number_plan order blocked at ids = (Inr (starts, bks), ids')"
  shows "map ps_service starts = map sv_name order" "map bk_service bks = map bs_service blocked"
    and "unat (oa_next_sequence (fst ids)) + length order + length blocked \<le> 2 ^ 46 \<Longrightarrow>
      distinct (map ps_operation_id starts @ map bk_operation_id bks)"
proof -
  obtain jids job' oids op' where
    jobs: "job_allocate_batch (length order) at (snd ids) = (Inr jids, job')"
    and ops: "operation_allocate_batch (length order + length blocked) at (fst ids) = (Inr oids, op')"
    and starts: "starts = map prepared_start_of (zip (zip order oids) jids)"
    and bks: "bks = map blocked_service_of (zip blocked (drop (length order) oids))"
    using assms by (auto simp: number_plan_def split: prod.splits sum.splits)
  have j: "length jids = length order"
    by (rule allocate_batch_Inr(2) [OF job_ids.allocate_batch_of [OF jobs]])
  have l: "length oids = length order + length blocked"
    by (rule allocate_batch_Inr(2) [OF operation_ids.allocate_batch_of [OF ops]])
  show "map ps_service starts = map sv_name order" "map bk_service bks = map bs_service blocked"
    using j l by (auto simp: starts bks prepared_start_of_def blocked_service_of_def intro!: nth_equalityI)
  have "map ps_operation_id starts = take (length order) oids"
    using j l by (auto simp: starts prepared_start_of_def intro!: nth_equalityI)
  moreover have "map bk_operation_id bks = drop (length order) oids"
    using j l by (auto simp: bks blocked_service_of_def intro!: nth_equalityI)
  ultimately have "map ps_operation_id starts @ map bk_operation_id bks = oids" by simp
  then show "distinct (map ps_operation_id starts @ map bk_operation_id bks)"
    if "unat (oa_next_sequence (fst ids)) + length order + length blocked \<le> 2 ^ 46"
    using operation_ids.issued_range(1,3) [OF ops] that by (simp add: add.assoc)
qed

text \<open>A plan that is not for recovery comes from a built graph.\<close>

lemma plan_graph:
  assumes plan: "prepare_phase2_boot_plan_with_retained tz_get mode definitions max_parallel at retained
      undecodable ids = Some (Inr plan, ids')"
    and mode: "mode \<noteq> RecoveryBoot"
  obtains by_name included blocked order where
    "service_map (synthesise_role_dependencies definitions) = Inr by_name"
    "graph_built (bp_mode plan) (synthesise_role_dependencies definitions) by_name included blocked order"
    "map ps_service (bp_starts plan) = filter (\<lambda>s. s \<notin> set retained) order"
    "set (map bk_service (bp_blocked plan)) = blocked_names blocked \<union> ud_name ` set undecodable"
    "unat (oa_next_sequence (fst ids)) + length (bp_starts plan) + length (bp_blocked plan) \<le> 2 ^ 46 \<Longrightarrow>
      distinct (map ps_operation_id (bp_starts plan) @ map bk_operation_id (bp_blocked plan))"
proof -
  let ?ds = "synthesise_role_dependencies definitions"
  obtain g bks where graph: "build_phase2_boot_graph tz_get (bp_mode plan) ?ds = Some (Inr g)"
    and number: "number_plan (filter (\<lambda>s. sv_name s \<notin> set retained) (bg_ordered_startable g))
      (bg_blocked g @ map undecodable_draft undecodable) at ids = (Inr (bp_starts plan, bp_blocked plan), ids')"
    using plan mode
    by (auto simp: prepare_phase2_boot_plan_with_retained_def Let_def
        split: if_splits bind_splits sum.splits prod.splits)
  obtain by_name where map: "service_map ?ds = Inr by_name"
    using graph by (cases "service_map ?ds") (auto simp: build_phase2_boot_graph_def)
  obtain included blocked order where built: "graph_built (bp_mode plan) ?ds by_name included blocked order"
    and g: "map sv_name (bg_ordered_startable g) = order" "bs_service ` set (bg_blocked g) = blocked_names blocked"
    using build_phase2_boot_graph_ends [OF map, of tz_get "bp_mode plan"] graph by auto
  note fields = number_plan_fields [OF number]
  have "map ps_service (bp_starts plan) = filter (\<lambda>s. s \<notin> set retained) order"
    using fields(1) g(1) by (auto simp: filter_map comp_def)
  moreover have "set (map bk_service (bp_blocked plan)) = blocked_names blocked \<union> ud_name ` set undecodable"
    unfolding fields(2) using g(2) by (auto simp: undecodable_draft_def image_Un image_image)
  moreover have "length (bp_starts plan) = length (filter (\<lambda>s. sv_name s \<notin> set retained) (bg_ordered_startable g))"
    "length (bp_blocked plan) = length (bg_blocked g @ map undecodable_draft undecodable)"
    using fields(1,2) map_eq_imp_length_eq by blast+
  ultimately show thesis using that map built fields(3) by metis
qed

section \<open>Dispatch\<close>

text \<open>
  A store that can take new operations of some identifiers for some services: nothing waits for
  those identifiers and the services have no live operation. Other services may have some.
\<close>

definition idle_for :: "operation_id set \<Rightarrow> string set \<Rightarrow> operation_store \<Rightarrow> bool" where
  "idle_for ids services s \<longleftrightarrow> operation_store_wf s \<and> (\<forall>x. \<forall>oid \<in> ids. queued_behind s x \<noteq> Some oid)
     \<and> (\<forall>oid. \<forall>service \<in> services. live_operations s oid \<noteq> Some service)"

lemma request_when_idle:
  assumes "op_active_for_service s (rq_service q) = []" and "bt_get (os_records s) (rq_id q) = None"
  shows "request_operation q s = insert_requested q CreateNew BackPosition s"
  using assms
  by (simp add: request_operation_def resolve_request_def ensure_unused_id_def bt_contains_key_def
      resolve_operation_conflict_def)

lemma no_live_no_active:
  assumes "operation_store_wf s" and "\<And>oid. live_operations s oid \<noteq> Some service"
  shows "op_active_for_service s service = []"
  using active_list(2) [OF assms(1), of service] assms(2) by simp

lemma dispatch_one_blocked:
  assumes idle: "idle_for ids services s" and fresh: "bt_get (os_records s) (bk_operation_id b) = None"
    and b: "bk_operation_id b \<in> ids" "bk_service b \<in> services"
  shows "\<exists>out s1 event s2 r.
    request_operation (boot_request (bk_operation_id b) (bk_service b) plan) s = (Inr out, s1)
    \<and> fail_operation (bk_operation_id b) (bp_observed_at_ns plan) (blocked_failure_message b) s1 = (Inr event, s2)
    \<and> idle_for ids services s2 \<and> os_records s2 = bt_insert (bk_operation_id b) r (os_records s)
    \<and> op_state r = OpFailed \<and> op_service r = bk_service b \<and> op_result r = Some (blocked_failure_message b)"
proof -
  let ?q = "boot_request (bk_operation_id b) (bk_service b) plan"
  have q: "rq_id ?q = bk_operation_id b" "rq_service ?q = bk_service b" "rq_created_at_ns ?q = bp_observed_at_ns plan"
    by (simp_all add: boot_request_def)
  have wf: "operation_store_wf s" and noqueue: "queued_behind s x \<noteq> Some (rq_id ?q)" for x
    using idle b q by (simp_all add: idle_for_def)
  have "op_active_for_service s (rq_service ?q) = []"
    using idle b q by (intro no_live_no_active wf) (simp add: idle_for_def)
  then have req: "request_operation ?q s = insert_requested ?q CreateNew BackPosition s"
    using fresh q by (intro request_when_idle) simp_all
  obtain res s1 where ins: "insert_requested ?q CreateNew BackPosition s = (res, s1)"
    by (cases "insert_requested ?q CreateNew BackPosition s")
  have fresh': "bt_get (os_records s) (rq_id ?q) = None" using fresh q by simp
  note spec = insert_requested_spec [OF wf fresh' noqueue ins]
  have queue1: "queued_behind s1 = queued_behind s"
    using ins by (auto simp: insert_requested_def Let_def op_insert_active_def queued_behind_def fun_eq_iff)
  let ?r = "record_from_request ?q"
  let ?r' = "?r\<lparr>op_state := OpFailed, op_completed_at_ns := Some (bp_observed_at_ns plan),
    op_result := Some (blocked_failure_message b)\<rparr>"
  have step: "op_fail (bp_observed_at_ns plan) (blocked_failure_message b) ?r = (Inr (), ?r')"
    using q by (simp add: op_fail_def operation_simps record_from_request_def operation_new_def)
  have get: "bt_get (os_records s1) (bk_operation_id b) = Some ?r" using spec(3) q by simp
  obtain fr s2 where fail: "fail_operation (bk_operation_id b) (bp_observed_at_ns plan)
      (blocked_failure_message b) s1 = (fr, s2)"
    by (cases "fail_operation (bk_operation_id b) (bp_observed_at_ns plan) (blocked_failure_message b) s1")
  obtain detail where "event_failed ?r' = Inr (op_event_new ?r' detail)"
    using fail_operation_end.reports [OF step] by blast
  then have event: "fr = Inr (op_event_new ?r' detail)"
    using fail get step by (simp add: fail_operation_def end_operation_def with_operation_def)
  obtain r r' where e: "bt_get (os_records s1) (bk_operation_id b) = Some r"
    "op_fail (bp_observed_at_ns plan) (blocked_failure_message b) r = (Inr (), r')"
    "operation_store_wf s2" "live_operations s2 = (live_operations s1)(bk_operation_id b := None)"
    "os_records s2 = bt_insert (bk_operation_id b) r' (os_records s1)"
    "os_queued_behind s2 = bt_remove (bk_operation_id b) (os_queued_behind s1)"
    using fail_operation_end.end_operation_accepted [OF spec(2) fail [unfolded event fail_operation_def]] by blast
  have "r' = ?r'" using e(1,2) get step by simp
  moreover have "os_records s2 = bt_insert (bk_operation_id b) r' (os_records s)"
    using e(5) spec(3) q by (simp add: bt_insert_insert)
  moreover have "idle_for ids services s2"
    using e(3,4,6) spec(4) q idle queue1
    by (auto simp: idle_for_def queued_behind_def fun_eq_iff split: if_splits)
  ultimately show ?thesis
    using req ins spec(1) fail event q by auto
qed

lemma dispatch_blocked_all:
  assumes "idle_for ids services s" and "distinct (map bk_operation_id bs)"
    and "\<forall>b \<in> set bs. bt_get (os_records s) (bk_operation_id b) = None
      \<and> bk_operation_id b \<in> ids \<and> bk_service b \<in> services"
  shows "\<exists>events s'. dispatch_blocked plan bs s = (Inr events, s') \<and> idle_for ids services s'
    \<and> (\<forall>b \<in> set bs. \<exists>r. bt_get (os_records s') (bk_operation_id b) = Some r \<and> op_state r = OpFailed
         \<and> op_service r = bk_service b \<and> op_result r = Some (blocked_failure_message b))
    \<and> (\<forall>oid. oid \<notin> bk_operation_id ` set bs \<longrightarrow> bt_get (os_records s') oid = bt_get (os_records s) oid)"
  using assms
proof (induction bs arbitrary: s)
  case Nil
  then show ?case by simp
next
  case (Cons b bs)
  have fresh: "bt_get (os_records s) (bk_operation_id b) = None" "bk_operation_id b \<in> ids"
    "bk_service b \<in> services" using Cons.prems(3) by simp_all
  obtain out s1 event s2 r where one:
    "request_operation (boot_request (bk_operation_id b) (bk_service b) plan) s = (Inr out, s1)"
    "fail_operation (bk_operation_id b) (bp_observed_at_ns plan) (blocked_failure_message b) s1 = (Inr event, s2)"
    "idle_for ids services s2" "os_records s2 = bt_insert (bk_operation_id b) r (os_records s)"
    "op_state r = OpFailed" "op_service r = bk_service b" "op_result r = Some (blocked_failure_message b)"
    using dispatch_one_blocked [OF Cons.prems(1) fresh, of plan] by blast
  have "\<forall>b' \<in> set bs. bt_get (os_records s2) (bk_operation_id b') = None
      \<and> bk_operation_id b' \<in> ids \<and> bk_service b' \<in> services"
    using Cons.prems(2,3) one(4) by (auto simp: image_iff)
  moreover have "distinct (map bk_operation_id bs)" using Cons.prems(2) by simp
  ultimately obtain events s' where rest: "dispatch_blocked plan bs s2 = (Inr events, s')" "idle_for ids services s'"
    "\<forall>b \<in> set bs. \<exists>r. bt_get (os_records s') (bk_operation_id b) = Some r \<and> op_state r = OpFailed
       \<and> op_service r = bk_service b \<and> op_result r = Some (blocked_failure_message b)"
    "\<forall>oid. oid \<notin> bk_operation_id ` set bs \<longrightarrow> bt_get (os_records s') oid = bt_get (os_records s2) oid"
    using Cons.IH [OF one(3)] by blast
  have "bk_operation_id b \<notin> bk_operation_id ` set bs" using Cons.prems(2) by simp
  then have "bt_get (os_records s') (bk_operation_id b) = Some r" using rest(4) one(4) by simp
  then show ?case using one rest by auto
qed

lemma dispatch_starts_all:
  assumes "operation_store_wf s" and "\<forall>x. \<forall>p \<in> set ps. queued_behind s x \<noteq> Some (ps_operation_id p)"
    and "distinct (map ps_operation_id ps)" and "distinct (map ps_service ps)"
    and "\<forall>p \<in> set ps. bt_get (os_records s) (ps_operation_id p) = None"
    and "\<forall>p \<in> set ps. \<forall>oid. live_operations s oid \<noteq> Some (ps_service p)"
  shows "\<exists>events s'. dispatch_starts plan ps s = (Inr events, s') \<and> operation_store_wf s'
    \<and> (\<forall>p \<in> set ps. bt_get (os_records s') (ps_operation_id p) =
         Some (record_from_request (boot_request (ps_operation_id p) (ps_service p) plan)))
    \<and> (\<forall>oid. oid \<notin> ps_operation_id ` set ps \<longrightarrow> bt_get (os_records s') oid = bt_get (os_records s) oid)"
  using assms
proof (induction ps arbitrary: s)
  case Nil
  then show ?case by simp
next
  case (Cons p ps)
  let ?q = "boot_request (ps_operation_id p) (ps_service p) plan"
  have q: "rq_id ?q = ps_operation_id p" "rq_service ?q = ps_service p" by (simp_all add: boot_request_def)
  have noqueue: "queued_behind s x \<noteq> Some (rq_id ?q)" for x using Cons.prems(2) q by simp
  have fresh: "bt_get (os_records s) (rq_id ?q) = None" using Cons.prems(5) q by simp
  have "op_active_for_service s (rq_service ?q) = []"
    using Cons.prems(6) q by (intro no_live_no_active Cons.prems(1)) simp
  then have req: "request_operation ?q s = insert_requested ?q CreateNew BackPosition s"
    using fresh by (rule request_when_idle)
  obtain res s1 where ins: "insert_requested ?q CreateNew BackPosition s = (res, s1)"
    by (cases "insert_requested ?q CreateNew BackPosition s")
  note spec = insert_requested_spec [OF Cons.prems(1) fresh noqueue ins]
  have queue1: "\<forall>x. \<forall>p \<in> set ps. queued_behind s1 x \<noteq> Some (ps_operation_id p)"
    using ins Cons.prems(2) by (auto simp: insert_requested_def Let_def op_insert_active_def queued_behind_def)
  have fresh1: "\<forall>p' \<in> set ps. bt_get (os_records s1) (ps_operation_id p') = None"
    using Cons.prems(3,5) spec(3) q by (auto simp: image_iff)
  have idle1: "\<forall>p' \<in> set ps. \<forall>oid. live_operations s1 oid \<noteq> Some (ps_service p')"
    using Cons.prems(4,6) spec(4) q by (auto simp: image_iff)
  have tail: "distinct (map ps_operation_id ps)" "distinct (map ps_service ps)" using Cons.prems(3,4) by simp_all
  obtain events s' where rest: "dispatch_starts plan ps s1 = (Inr events, s')" "operation_store_wf s'"
    "\<forall>p \<in> set ps. bt_get (os_records s') (ps_operation_id p) =
       Some (record_from_request (boot_request (ps_operation_id p) (ps_service p) plan))"
    "\<forall>oid. oid \<notin> ps_operation_id ` set ps \<longrightarrow> bt_get (os_records s') oid = bt_get (os_records s1) oid"
    using Cons.IH [OF spec(2) queue1 tail fresh1 idle1] by blast
  have "ps_operation_id p \<notin> ps_operation_id ` set ps" using Cons.prems(3) by simp
  then have "bt_get (os_records s') (ps_operation_id p) = Some (record_from_request ?q)"
    using rest(4) spec(3) q by simp
  then show ?case using req ins spec(1,3) rest q by auto
qed

text \<open>A whole plan, its identifiers distinct and its services idle.\<close>

lemma dispatch_plan_all:
  fixes plan :: phase2_boot_plan
  defines "ids \<equiv> ps_operation_id ` set (bp_starts plan) \<union> bk_operation_id ` set (bp_blocked plan)"
  assumes "idle_for ids (ps_service ` set (bp_starts plan) \<union> bk_service ` set (bp_blocked plan)) s0"
    and ids: "distinct (map ps_operation_id (bp_starts plan))" "distinct (map bk_operation_id (bp_blocked plan))"
      "ps_operation_id ` set (bp_starts plan) \<inter> bk_operation_id ` set (bp_blocked plan) = {}"
    and services: "distinct (map ps_service (bp_starts plan))"
    and new: "\<forall>oid \<in> ids. bt_get (os_records s0) oid = None"
  shows "\<exists>dispatch s. dispatch_phase2_boot_plan plan s0 = (Inr dispatch, s)
    \<and> pd_start_operation_ids dispatch = map ps_operation_id (bp_starts plan)
    \<and> (\<forall>p \<in> set (bp_starts plan). \<exists>r. operation_get s (ps_operation_id p) = Some r
         \<and> op_state r = OpPending \<and> op_type r = OpStart \<and> op_service r = ps_service p
         \<and> ps_operation_id p \<in> set (op_active_for_service s (ps_service p)))
    \<and> (\<forall>b \<in> set (bp_blocked plan). \<exists>r. operation_get s (bk_operation_id b) = Some r
         \<and> op_state r = OpFailed \<and> op_service r = bk_service b
         \<and> op_result r = Some (blocked_failure_message b))
    \<and> (\<forall>oid. oid \<notin> ids \<longrightarrow> operation_get s oid = operation_get s0 oid)"
proof -
  let ?services = "ps_service ` set (bp_starts plan) \<union> bk_service ` set (bp_blocked plan)"
  obtain events s1 where blocked: "dispatch_blocked plan (bp_blocked plan) s0 = (Inr events, s1)"
    "idle_for ids ?services s1"
    "\<forall>b \<in> set (bp_blocked plan). \<exists>r. bt_get (os_records s1) (bk_operation_id b) = Some r \<and> op_state r = OpFailed
       \<and> op_service r = bk_service b \<and> op_result r = Some (blocked_failure_message b)"
    "\<forall>oid. oid \<notin> bk_operation_id ` set (bp_blocked plan) \<longrightarrow>
       bt_get (os_records s1) oid = bt_get (os_records s0) oid"
    using dispatch_blocked_all [OF assms(2) ids(2), of plan] new unfolding ids_def by blast
  have "ps_operation_id p \<notin> bk_operation_id ` set (bp_blocked plan)" "ps_operation_id p \<in> ids"
    if "p \<in> set (bp_starts plan)" for p
    using ids(3) that unfolding ids_def by blast+
  then have fresh: "\<forall>p \<in> set (bp_starts plan). bt_get (os_records s1) (ps_operation_id p) = None"
    using blocked(4) new by simp
  have idle: "operation_store_wf s1" "\<forall>x. \<forall>p \<in> set (bp_starts plan). queued_behind s1 x \<noteq> Some (ps_operation_id p)"
    "\<forall>p \<in> set (bp_starts plan). \<forall>oid. live_operations s1 oid \<noteq> Some (ps_service p)"
    using blocked(2) by (simp_all add: idle_for_def ids_def)
  obtain events' s where starts: "dispatch_starts plan (bp_starts plan) s1 = (Inr events', s)"
    "operation_store_wf s"
    "\<forall>p \<in> set (bp_starts plan). bt_get (os_records s) (ps_operation_id p) =
       Some (record_from_request (boot_request (ps_operation_id p) (ps_service p) plan))"
    "\<forall>oid. oid \<notin> ps_operation_id ` set (bp_starts plan) \<longrightarrow> bt_get (os_records s) oid = bt_get (os_records s1) oid"
    using dispatch_starts_all [OF idle(1,2) ids(1) services fresh idle(3), of plan] by blast
  have "ps_operation_id p \<in> set (op_active_for_service s (ps_service p))" if "p \<in> set (bp_starts plan)" for p
    using active_list(2) [OF starts(2)] starts(3) that
    by (simp add: live_operations_def boot_request_def op_is_terminal_def)
  moreover have "bt_get (os_records s) (bk_operation_id b) = bt_get (os_records s1) (bk_operation_id b)"
    if "b \<in> set (bp_blocked plan)" for b
    using starts(4) ids(3) that by auto
  moreover have "bt_get (os_records s) oid = bt_get (os_records s0) oid" if "oid \<notin> ids" for oid
    using starts(4) blocked(4) that by (simp add: ids_def)
  ultimately show ?thesis
    using blocked(1,3) starts(1,3)
    by (simp add: dispatch_phase2_boot_plan_def operation_get_def boot_request_def)
qed

section \<open>Properties\<close>

text \<open>
  C15: planning a boot always ends. Whatever the definitions, the mode and the identifiers, the
  closure walk, the propagation of blocked services and the search for an order come to an end,
  with a plan or an error.
\<close>

theorem boot_planning_terminates:
  "\<exists>r. prepare_phase2_boot_plan_with_retained tz_get mode definitions max_parallel_starts
     observed_at_ns retained undecodable ids = Some r"
proof -
  let ?ds = "synthesise_role_dependencies definitions"
  obtain f where "safe_mode_downgrade_findings ?ds = Some f" using safe_mode_downgrade_returns by blast
  moreover have "\<forall>m. \<exists>r. build_phase2_boot_graph tz_get m ?ds = Some r"
    by (intro allI build_phase2_boot_graph_returns)
  then obtain g where "\<forall>m. build_phase2_boot_graph tz_get m ?ds = Some (g m)"
    using choice [of "\<lambda>m r. build_phase2_boot_graph tz_get m ?ds = Some r"] by blast
  ultimately have "prepare_phase2_boot_plan_with_retained tz_get mode definitions max_parallel_starts
      observed_at_ns retained undecodable ids \<noteq> None"
    by (auto simp: prepare_phase2_boot_plan_with_retained_def Let_def simp del: not_None_eq split: sum.split)
  then show ?thesis by (rule not_None_eq [THEN iffD1])
qed

text \<open>
  C3: a boot plan that is not for recovery is sound. The services it starts are distinct, none of them is retained, and
  one that is also blocked is an undecodable key; every enabled boot service the mode admits is
  started, blocked or retained; a started service is enabled and each of its hard dependencies is
  started before it or retained, except that Safe mode drops dependencies on enabled services it
  leaves out; and no two started services that both have the boot trigger conflict (a service
  started only as a dependency may).
\<close>

theorem boot_plan_is_sound:
  assumes "prepare_phase2_boot_plan_with_retained tz_get mode definitions max_parallel_starts
      observed_at_ns retained undecodable ids = Some (Inr plan, ids')"
    and "mode \<noteq> RecoveryBoot"
  defines "ds \<equiv> synthesise_role_dependencies definitions"
    and "started \<equiv> map ps_service (bp_starts plan)"
    and "blocked \<equiv> map bk_service (bp_blocked plan)"
  shows "distinct started \<and> set started \<inter> set retained = {}
    \<and> set started \<inter> set blocked \<subseteq> ud_name ` set undecodable
    \<and> (\<forall>d \<in> set ds. has_boot_trigger d \<and> \<not> sd_disabled d \<and> dependency_eligible (bp_mode plan) d
         \<longrightarrow> sd_name d \<in> set started \<union> set blocked \<union> set retained)
    \<and> (\<forall>d \<in> set ds. sd_name d \<in> set started \<longrightarrow> \<not> sd_disabled d
         \<and> (\<forall>dep \<in> set (hard_dependencies d).
              precedes started (dep_target dep) (sd_name d) \<or> dep_target dep \<in> set retained
              \<or> bp_mode plan \<noteq> FullBoot \<and> (\<exists>t \<in> set ds. sd_name t = dep_target dep
                  \<and> \<not> sd_disabled t \<and> \<not> dependency_eligible (bp_mode plan) t)))
    \<and> (\<forall>a \<in> set ds. \<forall>b \<in> set ds. sd_name a \<in> set started \<and> sd_name b \<in> set started
         \<and> has_boot_trigger a \<and> has_boot_trigger b \<longrightarrow> sd_name b \<notin> set (sd_conflicts a))"
proof -
  obtain by_name included blk order where map: "service_map ds = Inr by_name"
    and built: "graph_built (bp_mode plan) ds by_name included blk order"
    and started: "started = filter (\<lambda>s. s \<notin> set retained) order"
    and blocked: "set blocked = blocked_names blk \<union> ud_name ` set undecodable"
    using plan_graph [OF assms(1,2)] unfolding ds_def started_def blocked_def by metis
  have order: "set order = fset included - blocked_names blk" "distinct order"
    using built by (simp_all add: graph_built_def)
  have roots: "\<forall>d \<in> set ds. has_boot_trigger d \<and> \<not> sd_disabled d \<and> dependency_eligible (bp_mode plan) d
       \<longrightarrow> sd_name d \<in> set started \<union> set blocked \<union> set retained"
    using graph_built_roots [OF map built] unfolding started blocked by auto
  have deps: "precedes started (dep_target dep) (sd_name d) \<or> dep_target dep \<in> set retained
      \<or> bp_mode plan \<noteq> FullBoot \<and> (\<exists>t \<in> set ds. sd_name t = dep_target dep
          \<and> \<not> sd_disabled t \<and> \<not> dependency_eligible (bp_mode plan) t)"
    if "d \<in> set ds" "sd_name d \<in> set started" "dep \<in> set (hard_dependencies d)" for d dep
    using graph_built_dependencies(2) [OF map built that(1) _ that(3)] that(2)
      precedes_filter [of order "dep_target dep" "sd_name d" "\<lambda>s. s \<notin> set retained"]
    unfolding started by auto
  have enabled: "\<not> sd_disabled d" if "d \<in> set ds" "sd_name d \<in> set started" for d
    using graph_built_dependencies(1) [OF map built that(1)] that(2) unfolding started by simp
  have conflicts: "sd_name b \<notin> set (sd_conflicts a)"
    if "a \<in> set ds" "b \<in> set ds" "sd_name a \<in> set started" "sd_name b \<in> set started"
      "has_boot_trigger a" "has_boot_trigger b" for a b
    using graph_built_conflicts [OF map built that(1) _ that(5) that(2) _ that(6)] that(3,4)
    unfolding started by simp
  have "distinct started" "set started \<inter> set retained = {}"
    "set started \<inter> set blocked \<subseteq> ud_name ` set undecodable"
    using order blocked unfolding started by auto
  then show ?thesis using roots by (intro conjI ballI impI) (simp_all add: deps enabled conflicts)
qed

definition sample_services :: "service_definition list" where
  "sample_services =
     [(simple_system_boot ''a'' ''/a'')\<lparr>sd_requires := [''b'']\<rparr>, simple_system_boot ''b'' ''/b'',
      (simple_system_boot ''c'' ''/c'')\<lparr>sd_requires := [''d'']\<rparr>]"

definition sample_boot :: "(phase2_boot_plan_error, phase2_boot_plan, id_allocators) outcome option" where
  "sample_boot = prepare_phase2_boot_plan_with_retained (\<lambda>_. None) FullBoot sample_services 4 1000001 [] []
     (\<lparr>oa_next_sequence = 0\<rparr>, \<lparr>ja_next_sequence = 0\<rparr>)"

lemma number_plan_granted:
  assumes "at div NANOS_PER_MILLI \<le> UUIDV7_TIMESTAMP_MAX_MS"
    and "unat (oa_next_sequence (fst ids)) + length order + length blocked < 2 ^ 64"
    and "unat (ja_next_sequence (snd ids)) + length order < 2 ^ 64"
  shows "\<exists>starts bks ids'. number_plan order blocked at ids = (Inr (starts, bks), ids')"
proof -
  obtain jids where "allocate_batch JobId (ja_next_sequence (snd ids)) (length order) at
      = (Inr jids, ja_next_sequence (snd ids) + of_nat (length order))"
    using allocate_batch_granted [OF assms(1,3)] by blast
  moreover obtain oids where "allocate_batch OperationId (oa_next_sequence (fst ids)) (length order + length blocked) at
      = (Inr oids, oa_next_sequence (fst ids) + of_nat (length order + length blocked))"
    using allocate_batch_granted [OF assms(1), of "oa_next_sequence (fst ids)" "length order + length blocked"]
      assms(2) by (auto simp: add.assoc)
  ultimately show ?thesis
    by (cases ids) (simp add: number_plan_def job_allocate_batch_def operation_allocate_batch_def)
qed

lemma sample_boot_plan:
  "\<exists>plan ids'. sample_boot = Some (Inr plan, ids') \<and> map ps_service (bp_starts plan) = [''b'', ''a'']
     \<and> map bk_service (bp_blocked plan) = [''c'']"
proof -
  have roles: "synthesise_role_dependencies sample_services = sample_services" by code_simp
  have safe: "safe_mode_downgrade_findings sample_services = Some (Inr [])" by code_simp
  have "map_option (map_sum id (\<lambda>g. (map sv_name (bg_ordered_startable g), map bs_service (bg_blocked g))))
      (build_phase2_boot_graph (\<lambda>_. None) FullBoot sample_services) = Some (Inr ([''b'', ''a''], [''c'']))"
    by code_simp
  moreover obtain r where r: "build_phase2_boot_graph (\<lambda>_. None) FullBoot sample_services = Some r"
    using build_phase2_boot_graph_returns by blast
  ultimately obtain g where g: "build_phase2_boot_graph (\<lambda>_. None) FullBoot sample_services = Some (Inr g)"
    "map sv_name (bg_ordered_startable g) = [''b'', ''a'']" "map bs_service (bg_blocked g) = [''c'']"
    by (cases r) auto
  have l: "length (bg_ordered_startable g) = 2" "length (bg_blocked g) = 1"
    using arg_cong [OF g(2), of length] arg_cong [OF g(3), of length] by simp_all
  have "\<exists>starts bks ids'. number_plan (bg_ordered_startable g) (bg_blocked g) 1000001
      (\<lparr>oa_next_sequence = 0\<rparr>, \<lparr>ja_next_sequence = 0\<rparr>) = (Inr (starts, bks), ids')"
    by (rule number_plan_granted) (simp_all add: l NANOS_PER_MILLI_def UUIDV7_TIMESTAMP_MAX_MS_def)
  then obtain starts bks ids' where n: "number_plan (bg_ordered_startable g) (bg_blocked g) 1000001
      (\<lparr>oa_next_sequence = 0\<rparr>, \<lparr>ja_next_sequence = 0\<rparr>) = (Inr (starts, bks), ids')" by blast
  have "\<exists>plan. sample_boot = Some (Inr plan, ids') \<and> bp_starts plan = starts \<and> bp_blocked plan = bks"
    unfolding sample_boot_def prepare_phase2_boot_plan_with_retained_def
    by (simp add: roles safe g(1) n)
  then obtain plan where plan: "sample_boot = Some (Inr plan, ids')" "bp_starts plan = starts" "bp_blocked plan = bks"
    by blast
  moreover have "map ps_service (bp_starts plan) = [''b'', ''a'']" "map bk_service (bp_blocked plan) = [''c'']"
    unfolding plan(2,3) number_plan_fields(1,2) [OF n] by (rule g(2), rule g(3))
  ultimately show ?thesis by (intro exI conjI)
qed

theorem boot_plan_is_sound_witness:
  "\<exists>plan ids'. sample_boot = Some (Inr plan, ids') \<and> distinct (map ps_service (bp_starts plan))
     \<and> set (map ps_service (bp_starts plan)) \<inter> set (map bk_service (bp_blocked plan)) = {}
     \<and> map ps_service (bp_starts plan) = [''b'', ''a'']"
proof -
  obtain plan ids' where p: "sample_boot = Some (Inr plan, ids')" "map ps_service (bp_starts plan) = [''b'', ''a'']"
    using sample_boot_plan by (elim exE conjE) (rule that)
  have mode: "FullBoot \<noteq> RecoveryBoot" by simp
  note sound = boot_plan_is_sound [OF p(1) [unfolded sample_boot_def] mode]
  have "set (map ps_service (bp_starts plan)) \<inter> set (map bk_service (bp_blocked plan)) = {}"
    using conjunct1 [OF conjunct2 [OF conjunct2 [OF sound]]] by (simp only: list.set image_empty subset_empty)
  then show ?thesis using p conjunct1 [OF sound] by (intro exI conjI)
qed

end
