(* ===== verification/Graph_Context.thy ===== *)
theory Graph_Context
  imports Boot_Plan
begin

text \<open>
  The execution graph of a start (\<open>src/execution/graph/model.rs\<close>, \<open>build.rs\<close>, \<open>dependencies.rs\<close>,
  \<open>held.rs\<close>, \<open>probe.rs\<close>): the members of a boot or of an on-demand start, the dependency edges
  between them, how far each member has come, and which launches are still to be made. Members
  carry the prefix \<open>gm_\<close>, edges \<open>gd_\<close>, contexts \<open>gx_\<close>.

  The walk that decides whether a start is held without a clock is a total function: the members
  being visited are its bound. The loop of \<open>settled_launches\<close> ends because every pass that is
  repeated adds a member. The lemmas show that a built context is well formed, and what a look at
  its holds may change.
\<close>

section \<open>Model\<close>

type_synonym graph_context_id = u64

datatype graph_context_kind = BootContext | OnDemandContext string operation_id

datatype graph_member_status =
    Dormant | WaitingForPreStartCheck | WaitingForDependencies | MemberRunning | AwaitingRestart
  | MemberSatisfied | MemberFailed | Pruned

definition member_is_terminal :: "graph_member_status \<Rightarrow> bool" where
  "member_is_terminal status \<longleftrightarrow> status \<in> {MemberSatisfied, MemberFailed, Pruned}"

record graph_member =
  gm_service :: string
  gm_operation_id :: operation_id
  gm_reserved_job_id :: "job_id option"
  gm_transition_cause :: transition_cause
  gm_sequence :: nat
  gm_status :: graph_member_status
  gm_held_without_clock :: bool

record graph_dependency =
  gd_dependent :: string
  gd_target :: string
  gd_level :: "string option"
  gd_kind :: service_dependency_kind

datatype level_probe = LevelSatisfied | NotYetPublished | LevelAbsent

type_synonym graph_members = "(string, graph_member) btmap"

record graph_execution_context =
  gx_id :: graph_context_id
  gx_kind :: graph_context_kind
  gx_members :: graph_members
  gx_dependencies :: "graph_dependency list"

datatype graph_terminal_outcome = OutcomeSatisfied | OutcomeFailed

record graph_execution_event =
  ge_context_id :: graph_context_id
  ge_service :: string
  ge_operation_id :: operation_id
  ge_outcome :: graph_terminal_outcome

record graph_pruned_operation =
  gp_context_id :: graph_context_id
  gp_service :: string
  gp_operation_id :: operation_id

datatype ready_graph_operation_action = PreStartCheckAction | StartAction

record ready_graph_operation =
  go_context_id :: graph_context_id
  go_service :: string
  go_operation_id :: operation_id
  go_reserved_job_id :: "job_id option"
  go_transition_cause :: transition_cause
  go_action :: ready_graph_operation_action
  go_released_from_hold :: bool

datatype graph_context_build_error =
    MissingMemberDefinition string
  | DuplicateServiceMember string
  | MissingDependencyOperationOutcome string

datatype graph_execution_error =
    UnknownContext graph_context_id
  | InvalidParallelLimit
  | UnknownAssociatedOperation operation_id
  | MissingMember graph_context_id string
  | MemberAlreadyTerminal graph_context_id string graph_member_status

definition member_for_operation ::
  "graph_execution_context \<Rightarrow> operation_id \<Rightarrow> graph_member option" where
  "member_for_operation ctx op =
     find (\<lambda>member. gm_operation_id member = op) (bt_values (gx_members ctx))"

definition is_drained :: "graph_execution_context \<Rightarrow> bool" where
  "is_drained ctx \<longleftrightarrow> list_all (\<lambda>member. member_is_terminal (gm_status member)) (bt_values (gx_members ctx))"

section \<open>On-demand start plans\<close>

text \<open>The plan and the dispatch of a start (\<open>src/control/lifecycle/start_plan/model.rs\<close>).\<close>

record planned_start =
  pl_service :: string
  pl_operation_source :: operation_source
  pl_transition_cause :: transition_cause

datatype dependency_availability = DependencyMissing | DependencyRemoved | DependencyDisabled

datatype start_block_reason =
    StartDependencyUnavailable string service_dependency_kind dependency_availability
  | StartDependencyBlocked string service_dependency_kind

record start_plan_blocked_service =
  sb_service :: string
  sb_reason :: start_block_reason

record on_demand_start_plan =
  sp_requested :: string
  sp_requested_operation_source :: operation_source
  sp_requested_transition_cause :: transition_cause
  sp_starts :: "planned_start list"
  sp_blocked :: "start_plan_blocked_service list"

record on_demand_start_dispatch =
  od_plan :: on_demand_start_plan
  od_requested_operation :: operation_request_outcome
  od_dependency_operations :: "operation_request_outcome list"
  od_events :: "operation_event list"

section \<open>Building a context\<close>

definition insert_member ::
  "graph_member \<Rightarrow> graph_members \<Rightarrow> graph_context_build_error + graph_members" where
  "insert_member member members =
     (if bt_contains_key members (gm_service member) then Inl (DuplicateServiceMember (gm_service member))
      else Inr (bt_insert (gm_service member) member members))"

fun insert_members ::
  "graph_member list \<Rightarrow> graph_members \<Rightarrow> graph_context_build_error + graph_members" where
  "insert_members [] members = Inr members"
| "insert_members (member # rest) members =
     and_then (insert_member member members) (insert_members rest)"

fun transition_cause_for_phase2_start :: "start_cause \<Rightarrow> transition_cause" where
  "transition_cause_for_phase2_start StartExplicit = ExplicitStart"
| "transition_cause_for_phase2_start StartDependency = DependencyStart"

definition start_member :: "nat \<times> prepared_start \<Rightarrow> graph_member" where
  "start_member = (\<lambda>(sequence, start).
     \<lparr>gm_service = ps_service start, gm_operation_id = ps_operation_id start,
      gm_reserved_job_id = Some (ps_job_id start),
      gm_transition_cause = transition_cause_for_phase2_start (ps_cause start),
      gm_sequence = sequence, gm_status = Dormant, gm_held_without_clock = False\<rparr>)"

definition blocked_member :: "nat \<Rightarrow> nat \<times> blocked_service \<Rightarrow> graph_member" where
  "blocked_member starts = (\<lambda>(offset, blocked).
     \<lparr>gm_service = bk_service blocked, gm_operation_id = bk_operation_id blocked,
      gm_reserved_job_id = None,
      gm_transition_cause = blocked_transition_cause (bk_reason blocked),
      gm_sequence = starts + offset, gm_status = MemberFailed, gm_held_without_clock = False\<rparr>)"

definition definitions_by_name :: "service_definition list \<Rightarrow> (string, service_definition) btmap" where
  "definitions_by_name ds = fold (\<lambda>d. bt_insert (sd_name d) d) ds bt_empty"

text \<open>
  The edges of one member, pushed unless they are already there. A level-less edge to a service
  that is not a member is left out.
\<close>

definition push_dependencies ::
  "graph_members \<Rightarrow> string \<Rightarrow> service_definition \<Rightarrow> graph_dependency list \<Rightarrow> graph_dependency list" where
  "push_dependencies members service d =
     fold (\<lambda>dep dependencies.
         if \<not> bt_contains_key members (dep_target dep) \<and> dep_level dep = None then dependencies
         else push_new \<lparr>gd_dependent = service, gd_target = dep_target dep, gd_level = dep_level dep,
                gd_kind = dep_kind dep\<rparr> dependencies)
       (all_declared_dependencies d)"

fun context_dependencies_loop ::
  "graph_members \<Rightarrow> (string \<Rightarrow> service_definition option) \<Rightarrow> string list \<Rightarrow> graph_dependency list
   \<Rightarrow> graph_context_build_error + graph_dependency list" where
  "context_dependencies_loop members definition_of [] dependencies = Inr dependencies"
| "context_dependencies_loop members definition_of (service # services) dependencies =
     and_then (ok_or (definition_of service) (MissingMemberDefinition service)) (\<lambda>d.
       context_dependencies_loop members definition_of services
         (push_dependencies members service d dependencies))"

definition context_dependencies ::
  "graph_members \<Rightarrow> (string \<Rightarrow> service_definition option)
   \<Rightarrow> graph_context_build_error + graph_dependency list" where
  "context_dependencies members definition_of =
     context_dependencies_loop members definition_of (bt_keys members) []"

definition activate_roots :: "graph_dependency list \<Rightarrow> graph_members \<Rightarrow> graph_members" where
  "activate_roots dependencies members =
     bt_map_values (\<lambda>member.
         if gm_status member = Dormant \<and> gm_service member \<notin> gd_target ` set dependencies
         then member\<lparr>gm_status := WaitingForPreStartCheck\<rparr> else member) members"

definition boot_context ::
  "graph_context_id \<Rightarrow> phase2_boot_plan \<Rightarrow> service_definition list
   \<Rightarrow> graph_context_build_error + graph_execution_context" where
  "boot_context cid plan definitions =
     and_then (insert_members
         (map start_member (enumerate 0 (bp_starts plan))
          @ map (blocked_member (length (bp_starts plan))) (enumerate 0 (bp_blocked plan))) bt_empty)
       (\<lambda>members. and_then (context_dependencies members (bt_get (definitions_by_name definitions)))
         (\<lambda>dependencies. Inr
           \<lparr>gx_id = cid, gx_kind = BootContext, gx_members = activate_roots dependencies members,
            gx_dependencies = dependencies\<rparr>))"

definition on_demand_member ::
  "on_demand_start_dispatch \<Rightarrow> service_table \<Rightarrow> nat \<Rightarrow> planned_start \<Rightarrow> operation_request_outcome
   \<Rightarrow> graph_member" where
  "on_demand_member dispatch services sequence start out =
     (let backoff = (case table_runtime services (pl_service start) of
            Some runtime \<Rightarrow> rt_state runtime = Backoff | None \<Rightarrow> False);
          status = (if backoff \<and> pl_service start \<noteq> sp_requested (od_plan dispatch) then AwaitingRestart
            else case ou_decision out of MergeIntoExisting _ \<Rightarrow> MemberRunning | _ \<Rightarrow> Dormant)
      in \<lparr>gm_service = pl_service start, gm_operation_id = ou_returned_operation_id out,
          gm_reserved_job_id = None, gm_transition_cause = pl_transition_cause start,
          gm_sequence = sequence, gm_status = status, gm_held_without_clock = backoff\<rparr>)"

text \<open>The requested service takes its own outcome, every other start the next dependency outcome.\<close>

fun on_demand_members ::
  "on_demand_start_dispatch \<Rightarrow> service_table \<Rightarrow> nat \<Rightarrow> planned_start list
   \<Rightarrow> operation_request_outcome list \<Rightarrow> graph_members
   \<Rightarrow> graph_context_build_error + graph_members" where
  "on_demand_members dispatch services sequence [] outcomes members = Inr members"
| "on_demand_members dispatch services sequence (start # starts) outcomes members =
     and_then
       (if pl_service start = sp_requested (od_plan dispatch)
        then Inr (od_requested_operation dispatch, outcomes)
        else case outcomes of
            [] \<Rightarrow> Inl (MissingDependencyOperationOutcome (pl_service start))
          | out # rest \<Rightarrow> Inr (out, rest))
       (\<lambda>(out, rest).
         and_then (insert_member (on_demand_member dispatch services sequence start out) members)
           (on_demand_members dispatch services (Suc sequence) starts rest))"

definition blocked_requested_status :: "on_demand_start_dispatch \<Rightarrow> graph_member_status" where
  "blocked_requested_status dispatch =
     (if ou_returned_operation_id (od_requested_operation dispatch)
          = ou_stored_operation_id (od_requested_operation dispatch)
      then MemberFailed else MemberRunning)"

definition blocked_requested_member :: "on_demand_start_dispatch \<Rightarrow> graph_member" where
  "blocked_requested_member dispatch =
     \<lparr>gm_service = sp_requested (od_plan dispatch),
      gm_operation_id = ou_returned_operation_id (od_requested_operation dispatch),
      gm_reserved_job_id = None, gm_transition_cause = DependencyFailure, gm_sequence = 0,
      gm_status = blocked_requested_status dispatch, gm_held_without_clock = False\<rparr>"

definition on_demand_context ::
  "graph_context_id \<Rightarrow> on_demand_start_dispatch \<Rightarrow> service_table
   \<Rightarrow> graph_context_build_error + graph_execution_context" where
  "on_demand_context cid dispatch services =
     and_then (on_demand_members dispatch services 0 (sp_starts (od_plan dispatch))
         (od_dependency_operations dispatch) bt_empty)
       (\<lambda>planned. and_then
         (if planned = bt_empty then insert_member (blocked_requested_member dispatch) planned
          else Inr planned)
         (\<lambda>members. and_then (context_dependencies members (table_definition services))
           (\<lambda>dependencies. Inr
             \<lparr>gx_id = cid,
              gx_kind = OnDemandContext (sp_requested (od_plan dispatch))
                (ou_returned_operation_id (od_requested_operation dispatch)),
              gx_members = activate_roots dependencies members, gx_dependencies = dependencies\<rparr>)))"

section \<open>Holds\<close>

definition edges_of :: "graph_execution_context \<Rightarrow> string \<Rightarrow> graph_dependency list" where
  "edges_of ctx service = filter (\<lambda>edge. gd_dependent edge = service) (gx_dependencies ctx)"

datatype edge_wait_kind = Settled | Undecided | Clocked

text \<open>
  Whether a start is held only on facts with no clock. \<open>visiting\<close> is the path of members being
  looked at; a member met again counts as clocked.
\<close>

function (sequential)
  waits_visiting :: "graph_execution_context \<Rightarrow> string \<Rightarrow> string list \<Rightarrow> bool" and
  hold_edges :: "graph_execution_context \<Rightarrow> graph_dependency list \<Rightarrow> string list \<Rightarrow> nat \<Rightarrow> bool" and
  edge_wait :: "graph_execution_context \<Rightarrow> graph_dependency \<Rightarrow> string list \<Rightarrow> edge_wait_kind"
where
  "waits_visiting ctx service visiting =
     (case bt_get (gx_members ctx) service of
        None \<Rightarrow> False
      | Some member \<Rightarrow>
          if gm_status member \<noteq> WaitingForDependencies then False
          else if service \<in> set visiting then False
          else hold_edges ctx (edges_of ctx service) (visiting @ [service]) 0)"
| "hold_edges ctx [] visiting undecided \<longleftrightarrow> undecided > 0"
| "hold_edges ctx (edge # edges) visiting undecided =
     (case edge_wait ctx edge visiting of
        Settled \<Rightarrow> hold_edges ctx edges visiting undecided
      | Undecided \<Rightarrow> hold_edges ctx edges visiting (Suc undecided)
      | Clocked \<Rightarrow> False)"
| "edge_wait ctx edge visiting =
     (case map_option gm_status (bt_get (gx_members ctx) (gd_target edge)) of
        None \<Rightarrow> if gd_level edge \<noteq> None then Undecided else Settled
      | Some status \<Rightarrow>
          if status = AwaitingRestart then Undecided
          else if status = MemberSatisfied then (if gd_level edge \<noteq> None then Undecided else Settled)
          else if status = MemberFailed \<or> status = Pruned then Settled
          else if status = WaitingForDependencies \<and> waits_visiting ctx (gd_target edge) visiting
          then Undecided
          else Clocked)"
  by pat_completeness auto

termination
proof (relation "measures [
    \<lambda>arg. case arg of
        Inl (ctx, service, visiting) \<Rightarrow> card (dom (bt_get (gx_members ctx)) - set visiting)
      | Inr (Inl (ctx, edges, visiting, undecided)) \<Rightarrow> card (dom (bt_get (gx_members ctx)) - set visiting)
      | Inr (Inr (ctx, edge, visiting)) \<Rightarrow> card (dom (bt_get (gx_members ctx)) - set visiting),
    \<lambda>arg. case arg of
        Inl (ctx, service, visiting) \<Rightarrow> 0
      | Inr (Inl (ctx, edges, visiting, undecided)) \<Rightarrow> 2 + length edges
      | Inr (Inr (ctx, edge, visiting)) \<Rightarrow> 1]", goal_cases)
  case 1
  then show ?case by simp
next
  case (2 ctx service visiting member)
  then have "card (dom (bt_get (gx_members ctx)) - set (visiting @ [service]))
      < card (dom (bt_get (gx_members ctx)) - set visiting)"
    by (intro psubset_card_mono) auto
  then show ?case by simp
qed simp_all

definition waits_without_clock :: "graph_execution_context \<Rightarrow> string \<Rightarrow> bool" where
  "waits_without_clock ctx service = waits_visiting ctx service []"

definition note_holds_without_clock :: "graph_execution_context \<Rightarrow> graph_execution_context" where
  "note_holds_without_clock ctx =
     fold (\<lambda>(service, held) c. c\<lparr>gx_members :=
             bt_modify service (\<lambda>member. member\<lparr>gm_held_without_clock := held\<rparr>) (gx_members c)\<rparr>)
       (map (\<lambda>member. (gm_service member, waits_without_clock ctx (gm_service member)))
         (filter (\<lambda>member. gm_status member = WaitingForDependencies) (bt_values (gx_members ctx))))
       ctx"

section \<open>Launches still to be made\<close>

definition waits_only_on_decided ::
  "graph_execution_context \<Rightarrow> string fset \<Rightarrow> graph_member \<Rightarrow> bool" where
  "waits_only_on_decided ctx decided member \<longleftrightarrow>
     gm_status member \<in> {Dormant, WaitingForDependencies}
     \<and> list_all (\<lambda>edge. gd_target edge |\<in>| decided)
         (filter (\<lambda>edge. bt_contains_key (gx_members ctx) (gd_target edge))
           (edges_of ctx (gm_service member)))"

fun settle_pass ::
  "graph_execution_context \<Rightarrow> graph_member list \<Rightarrow> bool \<times> string fset \<Rightarrow> bool \<times> string fset" where
  "settle_pass ctx [] st = st"
| "settle_pass ctx (member # members) (grew, decided) =
     settle_pass ctx members
       (if gm_service member |\<in>| decided then (grew, decided)
        else if waits_only_on_decided ctx decided member
        then (True, finsert (gm_service member) decided)
        else (grew, decided))"

lemma settle_pass_grows:
  "settle_pass ctx members (grew, decided) = (grew', decided') \<Longrightarrow>
     decided |\<subseteq>| decided' \<and> decided' |\<subseteq>| decided |\<union>| fset_of_list (map gm_service members)
     \<and> (grew' \<and> \<not> grew \<longrightarrow> decided \<noteq> decided')"
proof (induction ctx members "(grew, decided)" arbitrary: grew decided rule: settle_pass.induct)
  case (2 ctx member members grew decided)
  then show ?case by (auto split: if_splits)
qed auto

function settle_launches :: "graph_execution_context \<Rightarrow> string fset \<Rightarrow> string fset" where
  "settle_launches ctx decided =
     (let (grew, decided') = settle_pass ctx (bt_values (gx_members ctx)) (False, decided)
      in if grew then settle_launches ctx decided' else decided')"
  by pat_completeness auto

termination
proof (relation "measure (\<lambda>(ctx, decided).
    card (gm_service ` set (bt_values (gx_members ctx)) - fset decided))", goal_cases)
  case 1
  then show ?case by simp
next
  case (2 ctx decided p grew decided')
  then have eq: "settle_pass ctx (bt_values (gx_members ctx)) (False, decided) = (True, decided')"
    by simp
  then obtain service where "service |\<in>| decided'" "service |\<notin>| decided"
    using settle_pass_grows [OF eq] by blast
  moreover have "fset decided \<subseteq> fset decided'"
    "fset decided' \<subseteq> fset decided \<union> gm_service ` set (bt_values (gx_members ctx))"
    using settle_pass_grows [OF eq] by (auto simp: less_eq_fset.rep_eq fset_of_list.rep_eq)
  ultimately have "card (gm_service ` set (bt_values (gx_members ctx)) - fset decided')
      < card (gm_service ` set (bt_values (gx_members ctx)) - fset decided)"
    by (intro psubset_card_mono) auto
  then show ?case by simp
qed

definition settled_launches :: "graph_execution_context \<Rightarrow> string fset" where
  "settled_launches ctx =
     settle_launches ctx (fset_of_list (map gm_service
       (filter (\<lambda>member. member_is_terminal (gm_status member) \<or> gm_status member = AwaitingRestart)
         (bt_values (gx_members ctx)))))"

definition has_attempted_every_launch :: "graph_execution_context \<Rightarrow> bool" where
  "has_attempted_every_launch ctx \<longleftrightarrow> fcard (settled_launches ctx) = length (bt_keys (gx_members ctx))"

definition launch_attempted :: "graph_execution_context \<Rightarrow> string \<Rightarrow> bool" where
  "launch_attempted ctx service \<longleftrightarrow>
     \<not> bt_contains_key (gx_members ctx) service \<or> service |\<in>| settled_launches ctx"

definition unattempted_launches :: "graph_execution_context \<Rightarrow> string list" where
  "unattempted_launches ctx =
     map gm_service (sort_key gm_sequence
       (filter (\<lambda>member. gm_service member |\<notin>| settled_launches ctx) (bt_values (gx_members ctx))))"

section \<open>Probing a level\<close>

definition probe_level :: "service_table \<Rightarrow> string \<Rightarrow> string \<Rightarrow> level_probe" where
  "probe_level services target level =
     (case table_get services target of
        None \<Rightarrow> LevelAbsent
      | Some entry \<Rightarrow>
          if \<not> satisfies_dependents (rt_state (en_runtime entry)) then LevelAbsent
          else if level |\<in>| rt_levels (en_runtime entry) then LevelSatisfied
          else NotYetPublished)"

end
