(* ===== verification/Graph_Execution.thy ===== *)
theory Graph_Execution
  imports Graph_Context
begin

text \<open>
  The store of execution graphs (\<open>src/execution/graph/store.rs\<close>, \<open>release.rs\<close>, \<open>precheck.rs\<close>,
  \<open>terminal.rs\<close>, \<open>prune.rs\<close> and the store operations of \<open>held.rs\<close>): creating a context, releasing
  the members that are ready, and what the end of an operation means for the members that wait on
  its service. Store fields carry the prefix \<open>gs_\<close>.

  A failure spreads along hard edges by recursion on the changed context, and so does pruning;
  both end because every call that recurses takes a member out of the states it looks for.
\<close>

section \<open>The store\<close>

record graph_execution_store =
  gs_next_context_id :: u64
  gs_contexts :: "(graph_context_id, graph_execution_context) btmap"
  gs_associations :: "(operation_id, graph_context_id fset) btmap"

definition graph_store_new :: graph_execution_store where
  "graph_store_new = \<lparr>gs_next_context_id = 0, gs_contexts = bt_empty, gs_associations = bt_empty\<rparr>"

definition graph_associate ::
  "graph_context_id \<Rightarrow> operation_id \<Rightarrow> (operation_id, graph_context_id fset) btmap
   \<Rightarrow> (operation_id, graph_context_id fset) btmap" where
  "graph_associate cid op associations =
     bt_insert op (finsert cid (bt_get_or {||} associations op)) associations"

definition insert_context ::
  "graph_execution_context \<Rightarrow> graph_execution_store \<Rightarrow> graph_execution_store" where
  "insert_context ctx s =
     \<lparr>gs_next_context_id = gx_id ctx + 1,
      gs_contexts = bt_insert (gx_id ctx) ctx (gs_contexts s),
      gs_associations =
        fold (\<lambda>member. graph_associate (gx_id ctx) (gm_operation_id member))
          (bt_values (gx_members ctx)) (gs_associations s)\<rparr>"

definition create_boot_context ::
  "phase2_boot_plan \<Rightarrow> service_definition list \<Rightarrow> graph_execution_store
   \<Rightarrow> (graph_context_build_error, graph_context_id, graph_execution_store) outcome" where
  "create_boot_context plan definitions s =
     (case boot_context (gs_next_context_id s) plan definitions of
        Inl e \<Rightarrow> (Inl e, s)
      | Inr ctx \<Rightarrow> (Inr (gs_next_context_id s), insert_context ctx s))"

definition create_on_demand_context ::
  "on_demand_start_dispatch \<Rightarrow> service_table \<Rightarrow> graph_execution_store
   \<Rightarrow> (graph_context_build_error, graph_context_id, graph_execution_store) outcome" where
  "create_on_demand_context dispatch services s =
     (case on_demand_context (gs_next_context_id s) dispatch services of
        Inl e \<Rightarrow> (Inl e, s)
      | Inr ctx \<Rightarrow> (Inr (gs_next_context_id s), insert_context ctx s))"

definition contexts_with_level_dependency_on ::
  "graph_execution_store \<Rightarrow> string \<Rightarrow> graph_context_id list" where
  "contexts_with_level_dependency_on s service =
     map gx_id (filter (\<lambda>ctx. \<not> is_drained ctx
         \<and> list_ex (\<lambda>edge. gd_target edge = service \<and> gd_level edge \<noteq> None) (gx_dependencies ctx))
       (bt_values (gs_contexts s)))"

definition boot_launch_attempted ::
  "graph_execution_store \<Rightarrow> graph_context_id \<Rightarrow> string \<Rightarrow> bool" where
  "boot_launch_attempted s cid service =
     (case bt_get (gs_contexts s) cid of None \<Rightarrow> True | Some ctx \<Rightarrow> launch_attempted ctx service)"

definition store_unattempted_launches ::
  "graph_execution_store \<Rightarrow> graph_context_id \<Rightarrow> string list" where
  "store_unattempted_launches s cid =
     (case bt_get (gs_contexts s) cid of None \<Rightarrow> [] | Some ctx \<Rightarrow> unattempted_launches ctx)"

definition associated_contexts ::
  "graph_execution_store \<Rightarrow> operation_id \<Rightarrow> graph_context_id list" where
  "associated_contexts s op =
     (case bt_get (gs_associations s) op of None \<Rightarrow> [] | Some cids \<Rightarrow> sorted_list_of_fset cids)"

definition retire_drained_contexts ::
  "graph_execution_store \<Rightarrow> graph_context_id list \<times> graph_execution_store" where
  "retire_drained_contexts s =
     (let retired = map gx_id (filter is_drained (bt_values (gs_contexts s)))
      in if retired = [] then (retired, s)
         else (retired, s\<lparr>gs_contexts := fold bt_remove retired (gs_contexts s),
           gs_associations := bt_filter (\<lambda>(op, cids). cids \<noteq> {||})
             (bt_map_values (ffilter (\<lambda>cid. cid \<notin> set retired)) (gs_associations s))\<rparr>))"

text \<open>
  A change of one context through \<open>contexts.get_mut\<close>, and the service of an operation in it.
\<close>

definition on_context ::
  "graph_context_id
   \<Rightarrow> (graph_execution_context \<Rightarrow> (graph_execution_error, 'a, graph_execution_context) outcome)
   \<Rightarrow> graph_execution_store \<Rightarrow> (graph_execution_error, 'a, graph_execution_store) outcome" where
  "on_context cid f s =
     (case bt_get (gs_contexts s) cid of
        None \<Rightarrow> (Inl (UnknownContext cid), s)
      | Some ctx \<Rightarrow>
          (case f ctx of (r, ctx') \<Rightarrow> (r, s\<lparr>gs_contexts := bt_insert cid ctx' (gs_contexts s)\<rparr>)))"

definition operation_service ::
  "operation_id \<Rightarrow> graph_execution_context \<Rightarrow> graph_execution_error + string" where
  "operation_service op ctx =
     and_then (ok_or (member_for_operation ctx op) (UnknownAssociatedOperation op))
       (\<lambda>member. Inr (gm_service member))"

definition with_operation_service ::
  "operation_id
   \<Rightarrow> (string \<Rightarrow> graph_execution_context \<Rightarrow> (graph_execution_error, 'a, graph_execution_context) outcome)
   \<Rightarrow> graph_execution_context \<Rightarrow> (graph_execution_error, 'a, graph_execution_context) outcome" where
  "with_operation_service op f ctx = then_do (operation_service op ctx, ctx) f"

definition set_status ::
  "graph_member_status \<Rightarrow> string \<Rightarrow> graph_execution_context \<Rightarrow> graph_execution_context" where
  "set_status status service ctx =
     ctx\<lparr>gx_members := bt_modify service (\<lambda>member. member\<lparr>gm_status := status\<rparr>) (gx_members ctx)\<rparr>"

section \<open>Releasing ready members\<close>

definition dependency_settled ::
  "graph_execution_context \<Rightarrow> (string \<Rightarrow> string \<Rightarrow> level_probe) \<Rightarrow> graph_dependency
   \<Rightarrow> graph_execution_error + bool" where
  "dependency_settled ctx probe dep =
     (let member = bt_get (gx_members ctx) (gd_target dep)
      in case gd_level dep of
          None \<Rightarrow>
            and_then (ok_or member (MissingMember (gx_id ctx) (gd_target dep))) (\<lambda>target.
              Inr (if gd_kind dep = Wants then member_is_terminal (gm_status target)
                   else gm_status target = MemberSatisfied))
        | Some level \<Rightarrow>
            Inr (if gd_kind dep = Wants
              then (case member of None \<Rightarrow> True | Some target \<Rightarrow> member_is_terminal (gm_status target))
                \<and> probe (gd_target dep) level \<noteq> NotYetPublished
              else (case member of None \<Rightarrow> True | Some target \<Rightarrow> gm_status target = MemberSatisfied)
                \<and> probe (gd_target dep) level = LevelSatisfied))"

fun edges_settled ::
  "graph_execution_context \<Rightarrow> (string \<Rightarrow> string \<Rightarrow> level_probe) \<Rightarrow> graph_dependency list
   \<Rightarrow> graph_execution_error + bool" where
  "edges_settled ctx probe [] = Inr True"
| "edges_settled ctx probe (dep # deps) =
     and_then (dependency_settled ctx probe dep) (\<lambda>settled.
       if settled then edges_settled ctx probe deps else Inr False)"

definition dependencies_settled ::
  "graph_execution_context \<Rightarrow> string \<Rightarrow> (string \<Rightarrow> string \<Rightarrow> level_probe)
   \<Rightarrow> graph_execution_error + bool" where
  "dependencies_settled ctx service probe = edges_settled ctx probe (edges_of ctx service)"

definition member_action ::
  "graph_execution_context \<Rightarrow> (string \<Rightarrow> string \<Rightarrow> level_probe) \<Rightarrow> graph_member
   \<Rightarrow> graph_execution_error + ready_graph_operation_action option" where
  "member_action ctx probe member =
     (if gm_status member = WaitingForPreStartCheck then Inr (Some PreStartCheckAction)
      else if gm_status member = WaitingForDependencies then
        and_then (dependencies_settled ctx (gm_service member) probe) (\<lambda>settled.
          Inr (if settled then Some StartAction else None))
      else Inr None)"

fun collect_ready ::
  "graph_execution_context \<Rightarrow> (string \<Rightarrow> string \<Rightarrow> level_probe) \<Rightarrow> graph_member list
   \<Rightarrow> graph_execution_error + (graph_member \<times> ready_graph_operation_action) list" where
  "collect_ready ctx probe [] = Inr []"
| "collect_ready ctx probe (member # members) =
     and_then (member_action ctx probe member) (\<lambda>action.
       and_then (collect_ready ctx probe members) (\<lambda>ready.
         Inr (case action of None \<Rightarrow> ready | Some a \<Rightarrow> (member, a) # ready)))"

definition available_slots ::
  "graph_execution_store \<Rightarrow> graph_context_id \<Rightarrow> u32 \<Rightarrow> graph_execution_error + nat" where
  "available_slots s cid max_parallel_starts =
     and_then (ok_or (bt_get (gs_contexts s) cid) (UnknownContext cid)) (\<lambda>ctx.
       Inr (unat max_parallel_starts
         - length (filter (\<lambda>member. gm_status member = MemberRunning) (bt_values (gx_members ctx)))))"

definition ready_members ::
  "graph_execution_store \<Rightarrow> graph_context_id \<Rightarrow> nat \<Rightarrow> (string \<Rightarrow> string \<Rightarrow> level_probe)
   \<Rightarrow> graph_execution_error + (string \<times> ready_graph_operation_action) list" where
  "ready_members s cid limit probe =
     (if limit = 0 then Inr []
      else and_then (ok_or (bt_get (gs_contexts s) cid) (UnknownContext cid)) (\<lambda>ctx.
        and_then (collect_ready ctx probe (bt_values (gx_members ctx))) (\<lambda>ready.
          Inr (map (\<lambda>(member, action). (gm_service member, action))
            (take limit (sort_key (\<lambda>(member, action). gm_sequence member) ready))))))"

definition run_member ::
  "string \<Rightarrow> graph_execution_context
   \<Rightarrow> (graph_execution_error, unit list, graph_execution_context) outcome" where
  "run_member service ctx =
     (case bt_get (gx_members ctx) service of
        None \<Rightarrow> (Inl (MissingMember (gx_id ctx) service), ctx)
      | Some _ \<Rightarrow> (Inr [], set_status MemberRunning service ctx))"

definition ready_operation ::
  "string \<times> ready_graph_operation_action \<Rightarrow> graph_execution_context
   \<Rightarrow> (graph_execution_error, ready_graph_operation list, graph_execution_context) outcome" where
  "ready_operation = (\<lambda>(service, action) ctx.
     case bt_get (gx_members ctx) service of
       None \<Rightarrow> (Inl (MissingMember (gx_id ctx) service), ctx)
     | Some member \<Rightarrow>
         (Inr [\<lparr>go_context_id = gx_id ctx, go_service = service,
            go_operation_id = gm_operation_id member,
            go_reserved_job_id = gm_reserved_job_id member,
            go_transition_cause = gm_transition_cause member, go_action = action,
            go_released_from_hold = gm_held_without_clock member\<rparr>], ctx))"

definition release_ready ::
  "graph_context_id \<Rightarrow> u32 \<Rightarrow> (string \<Rightarrow> string \<Rightarrow> level_probe) \<Rightarrow> graph_execution_store
   \<Rightarrow> (graph_execution_error, ready_graph_operation list, graph_execution_store) outcome" where
  "release_ready cid max_parallel_starts probe s =
     (if max_parallel_starts = 0 then (Inl InvalidParallelLimit, s)
      else then_do (available_slots s cid max_parallel_starts, s) (\<lambda>slots s.
        then_do (ready_members s cid slots probe, s) (\<lambda>ready.
          on_context cid (\<lambda>ctx.
            then_do (for_each (run_member \<circ> fst) ready ctx) (\<lambda>_ ctx.
              then_do (for_each ready_operation ready ctx) (\<lambda>operations ctx.
                (Inr operations, note_holds_without_clock ctx)))))))"

section \<open>Pre-start checks\<close>

definition activate_dependencies ::
  "string \<Rightarrow> graph_execution_context \<Rightarrow> graph_execution_context" where
  "activate_dependencies service ctx =
     fold (\<lambda>target c. c\<lparr>gx_members := bt_modify target (\<lambda>member.
             if gm_status member = Dormant then member\<lparr>gm_status := WaitingForPreStartCheck\<rparr>
             else member) (gx_members c)\<rparr>)
       (map gd_target (edges_of ctx service)) ctx"

definition mark_pre_start_check_passed ::
  "string \<Rightarrow> graph_execution_context
   \<Rightarrow> (graph_execution_error, bool, graph_execution_context) outcome" where
  "mark_pre_start_check_passed service ctx =
     (case bt_get (gx_members ctx) service of
        None \<Rightarrow> (Inl (MissingMember (gx_id ctx) service), ctx)
      | Some member \<Rightarrow>
          if member_is_terminal (gm_status member)
          then (Inl (MemberAlreadyTerminal (gx_id ctx) service (gm_status member)), ctx)
          else if gm_status member = WaitingForDependencies then (Inr False, ctx)
          else (Inr True, activate_dependencies service (set_status WaitingForDependencies service ctx)))"

definition apply_pre_start_check_passed ::
  "operation_id \<Rightarrow> graph_execution_store
   \<Rightarrow> (graph_execution_error, graph_context_id list, graph_execution_store) outcome" where
  "apply_pre_start_check_passed op s =
     for_each (\<lambda>cid s.
         then_do (on_context cid (with_operation_service op mark_pre_start_check_passed) s)
           (\<lambda>changed s. (Inr (if changed then [cid] else []), s)))
       (associated_contexts s op) s"

section \<open>The end of an operation\<close>

fun outcome_status :: "graph_terminal_outcome \<Rightarrow> graph_member_status" where
  "outcome_status OutcomeSatisfied = MemberSatisfied"
| "outcome_status OutcomeFailed = MemberFailed"

definition mark_terminal ::
  "string \<Rightarrow> graph_terminal_outcome \<Rightarrow> graph_execution_context
   \<Rightarrow> (graph_execution_error, unit, graph_execution_context) outcome" where
  "mark_terminal service out ctx =
     (case bt_get (gx_members ctx) service of
        None \<Rightarrow> (Inl (MissingMember (gx_id ctx) service), ctx)
      | Some member \<Rightarrow>
          if member_is_terminal (gm_status member)
          then (Inl (MemberAlreadyTerminal (gx_id ctx) service (gm_status member)), ctx)
          else (Inr (), set_status (outcome_status out) service ctx))"

definition mark_awaiting_restart ::
  "string \<Rightarrow> graph_execution_context
   \<Rightarrow> (graph_execution_error, unit, graph_execution_context) outcome" where
  "mark_awaiting_restart service ctx =
     (case bt_get (gx_members ctx) service of
        None \<Rightarrow> (Inl (MissingMember (gx_id ctx) service), ctx)
      | Some member \<Rightarrow>
          if member_is_terminal (gm_status member)
          then (Inl (MemberAlreadyTerminal (gx_id ctx) service (gm_status member)), ctx)
          else (Inr (), ctx\<lparr>gx_members := bt_insert service
              (member\<lparr>gm_status := AwaitingRestart, gm_held_without_clock := False\<rparr>)
              (gx_members ctx)\<rparr>))"

definition may_fail_with_dependency :: "graph_member_status \<Rightarrow> bool" where
  "may_fail_with_dependency status \<longleftrightarrow> status \<in> {WaitingForDependencies, MemberRunning}"

definition graph_hard_dependents :: "graph_execution_context \<Rightarrow> string \<Rightarrow> string list" where
  "graph_hard_dependents ctx failed_service =
     map gd_dependent (filter (\<lambda>edge. gd_target edge = failed_service \<and> gd_kind edge \<in> {Requires, BindsTo}
         \<and> (case bt_get (gx_members ctx) (gd_dependent edge) of
              None \<Rightarrow> False
            | Some member \<Rightarrow> may_fail_with_dependency (gm_status member)))
       (gx_dependencies ctx))"

definition terminal_event ::
  "graph_execution_context \<Rightarrow> string \<Rightarrow> operation_id \<Rightarrow> graph_terminal_outcome
   \<Rightarrow> graph_execution_event" where
  "terminal_event ctx service op out =
     \<lparr>ge_context_id = gx_id ctx, ge_service = service, ge_operation_id = op, ge_outcome = out\<rparr>"

definition members_in :: "(graph_member_status \<Rightarrow> bool) \<Rightarrow> graph_execution_context \<Rightarrow> string set" where
  "members_in P ctx = {service. \<exists>member. bt_get (gx_members ctx) service = Some member \<and> P (gm_status member)}"

lemma finite_members_in [simp]: "finite (members_in P ctx)"
  by (rule finite_subset [of _ "dom (bt_get (gx_members ctx))"]) (auto simp: members_in_def)

lemma members_in_set_status:
  "\<not> P status \<Longrightarrow> members_in P (set_status status service ctx) = members_in P ctx - {service}"
  by (auto simp: members_in_def set_status_def split: option.splits if_splits)

lemma mark_terminal_failable:
  "bt_get (gx_members ctx) service = Some member \<Longrightarrow> may_fail_with_dependency (gm_status member) \<Longrightarrow>
     mark_terminal service out ctx = (Inr (), set_status (outcome_status out) service ctx)"
  by (auto simp: mark_terminal_def may_fail_with_dependency_def member_is_terminal_def)

lemma failing_shrinks:
  "bt_get (gx_members ctx) service = Some member \<Longrightarrow> may_fail_with_dependency (gm_status member) \<Longrightarrow>
     members_in may_fail_with_dependency (set_status MemberFailed service ctx)
       \<subset> members_in may_fail_with_dependency ctx"
  by (subst members_in_set_status) (auto simp: may_fail_with_dependency_def members_in_def)

text \<open>
  The failure of a member fails every hard dependent that still waits or runs, and theirs, depth
  first: \<open>propagate_hard_dependency_failure\<close> with its loop over the collected dependents.
\<close>

function (sequential) fail_dependents ::
  "string list \<Rightarrow> graph_execution_context
   \<Rightarrow> (graph_execution_error, graph_execution_event list, graph_execution_context) outcome" where
  "fail_dependents [] ctx = (Inr [], ctx)"
| "fail_dependents (dependent # dependents) ctx =
     (case bt_get (gx_members ctx) dependent of
        None \<Rightarrow> (Inl (MissingMember (gx_id ctx) dependent), ctx)
      | Some member \<Rightarrow>
          if \<not> may_fail_with_dependency (gm_status member) then fail_dependents dependents ctx
          else then_do (mark_terminal dependent OutcomeFailed ctx) (\<lambda>_ ctx1.
            then_do (fail_dependents (graph_hard_dependents ctx1 dependent) ctx1) (\<lambda>events ctx2.
              then_do (fail_dependents dependents ctx2) (\<lambda>rest ctx3.
                (Inr (terminal_event ctx dependent (gm_operation_id member) OutcomeFailed # events @ rest),
                 ctx3)))))"
  by pat_completeness auto

termination
proof -
  have shrinks: "members_in may_fail_with_dependency (snd (fail_dependents ds ctx))
      \<subseteq> members_in may_fail_with_dependency ctx"
    if "fail_dependents_dom (ds, ctx)" for ds ctx
    using that
  proof (induction rule: fail_dependents.pinduct)
    case (2 d ds ctx)
    show ?case
    proof (cases "bt_get (gx_members ctx) d")
      case None
      then show ?thesis using 2(1) by (simp add: fail_dependents.psimps)
    next
      case (Some m)
      show ?thesis
      proof (cases "may_fail_with_dependency (gm_status m)")
        case False
        then show ?thesis using 2(1) 2(2) [OF Some] Some by (simp add: fail_dependents.psimps)
      next
        case True
        let ?ctx1 = "set_status MemberFailed d ctx"
        have mark: "mark_terminal d OutcomeFailed ctx = (Inr (), ?ctx1)"
          using mark_terminal_failable [OF Some True] by simp
        have IH: "members_in may_fail_with_dependency (snd (fail_dependents (graph_hard_dependents ?ctx1 d) ?ctx1))
            \<subseteq> members_in may_fail_with_dependency ?ctx1"
          "fail_dependents (graph_hard_dependents ?ctx1 d) ?ctx1 = (Inr events, ctx2) \<Longrightarrow>
            members_in may_fail_with_dependency (snd (fail_dependents ds ctx2))
              \<subseteq> members_in may_fail_with_dependency ctx2" for events ctx2
          using 2(3,4) [OF Some] True mark by auto
        show ?thesis
          using 2(1) Some True mark IH failing_shrinks [OF Some True]
          by (auto simp: fail_dependents.psimps then_do_def split: prod.splits sum.splits; blast)
      qed
    qed
  qed (simp add: fail_dependents.psimps)
  show ?thesis
  proof (relation "measures [\<lambda>(ds, ctx). card (members_in may_fail_with_dependency ctx), length \<circ> fst]",
      goal_cases)
    case 1
    then show ?case by simp
  next
    case (2 d ds ctx m)
    then show ?case by simp
  next
    case (3 d ds ctx m u ctx1)
    then have "members_in may_fail_with_dependency ctx1 \<subset> members_in may_fail_with_dependency ctx"
      using failing_shrinks [of ctx d m] by (auto simp: mark_terminal_failable)
    then show ?case by (simp add: psubset_card_mono)
  next
    case (4 d ds ctx m u ctx1 events ctx2)
    then have "members_in may_fail_with_dependency ctx1 \<subset> members_in may_fail_with_dependency ctx"
      using failing_shrinks [of ctx d m] by (auto simp: mark_terminal_failable)
    moreover have "members_in may_fail_with_dependency ctx2 \<subseteq> members_in may_fail_with_dependency ctx1"
      using 4 shrinks by fastforce
    ultimately show ?case by (simp add: psubset_card_mono psubset_subset_trans subset_psubset_trans)
  qed
qed

definition propagate_hard_dependency_failure ::
  "string \<Rightarrow> graph_execution_context
   \<Rightarrow> (graph_execution_error, graph_execution_event list, graph_execution_context) outcome" where
  "propagate_hard_dependency_failure failed_service ctx =
     fail_dependents (graph_hard_dependents ctx failed_service) ctx"

text \<open>
  Marking a member terminal with its event, and the failure of its hard dependents: the common
  part of \<open>apply_context_terminal\<close> and of the loop body of \<open>settle_awaiting_restart\<close>.
\<close>

definition settle_member ::
  "graph_terminal_outcome \<Rightarrow> operation_id \<Rightarrow> string \<Rightarrow> graph_execution_context
   \<Rightarrow> (graph_execution_error, graph_execution_event list, graph_execution_context) outcome" where
  "settle_member out op service ctx =
     then_do (mark_terminal service out ctx) (\<lambda>_ ctx1.
       if out = OutcomeFailed then
         then_do (propagate_hard_dependency_failure service ctx1) (\<lambda>events ctx2.
           (Inr (terminal_event ctx service op out # events), ctx2))
       else (Inr [terminal_event ctx service op out], ctx1))"

definition apply_context_terminal ::
  "operation_id \<Rightarrow> graph_terminal_outcome \<Rightarrow> graph_context_id \<Rightarrow> graph_execution_store
   \<Rightarrow> (graph_execution_error, graph_execution_event list, graph_execution_store) outcome" where
  "apply_context_terminal op out cid =
     on_context cid (with_operation_service op (settle_member out op))"

definition settle_context_restart ::
  "string \<Rightarrow> graph_terminal_outcome \<Rightarrow> graph_execution_context
   \<Rightarrow> (graph_execution_error, graph_execution_event list, graph_execution_context) outcome" where
  "settle_context_restart service out ctx =
     (case bt_get (gx_members ctx) service of
        None \<Rightarrow> (Inr [], ctx)
      | Some member \<Rightarrow>
          if gm_status member \<noteq> AwaitingRestart then (Inr [], ctx)
          else settle_member out (gm_operation_id member) service ctx)"

definition settle_awaiting_restart ::
  "string \<Rightarrow> graph_terminal_outcome \<Rightarrow> graph_execution_store
   \<Rightarrow> (graph_execution_error, graph_execution_event list, graph_execution_store) outcome" where
  "settle_awaiting_restart service out s =
     for_each (\<lambda>cid. on_context cid (settle_context_restart service out)) (bt_keys (gs_contexts s)) s"

definition apply_operation_terminal ::
  "operation_id \<Rightarrow> graph_terminal_outcome \<Rightarrow> graph_execution_store
   \<Rightarrow> (graph_execution_error, graph_execution_event list, graph_execution_store) outcome" where
  "apply_operation_terminal op out s =
     then_do (for_each (apply_context_terminal op out) (associated_contexts s op) s) (\<lambda>events s1.
       case events of
         [] \<Rightarrow> (Inr events, s1)
       | event # _ \<Rightarrow>
           then_do (settle_awaiting_restart (ge_service event) out s1) (\<lambda>more s2.
             (Inr (events @ more), s2)))"

definition apply_operation_satisfied ::
  "operation_id \<Rightarrow> graph_execution_store
   \<Rightarrow> (graph_execution_error, graph_execution_event list, graph_execution_store) outcome" where
  "apply_operation_satisfied op = apply_operation_terminal op OutcomeSatisfied"

definition apply_operation_failed ::
  "operation_id \<Rightarrow> graph_execution_store
   \<Rightarrow> (graph_execution_error, graph_execution_event list, graph_execution_store) outcome" where
  "apply_operation_failed op = apply_operation_terminal op OutcomeFailed"

definition hold_for_restart ::
  "string \<Rightarrow> graph_execution_context
   \<Rightarrow> (graph_execution_error, unit, graph_execution_context) outcome" where
  "hold_for_restart service ctx =
     then_do (mark_awaiting_restart service ctx) (\<lambda>_ ctx. (Inr (), note_holds_without_clock ctx))"

definition apply_operation_awaiting_restart ::
  "operation_id \<Rightarrow> graph_execution_store
   \<Rightarrow> (graph_execution_error, graph_context_id list, graph_execution_store) outcome" where
  "apply_operation_awaiting_restart op s =
     for_each (\<lambda>cid s.
         then_do (on_context cid (with_operation_service op hold_for_restart) s)
           (\<lambda>_ s. (Inr [cid], s)))
       (associated_contexts s op) s"

definition is_awaiting_restart :: "graph_execution_store \<Rightarrow> string \<Rightarrow> bool" where
  "is_awaiting_restart s service \<longleftrightarrow>
     list_ex (\<lambda>ctx. case bt_get (gx_members ctx) service of
         None \<Rightarrow> False | Some member \<Rightarrow> gm_status member = AwaitingRestart)
       (bt_values (gs_contexts s))"

definition awaiting_restart_services :: "graph_execution_store \<Rightarrow> string list" where
  "awaiting_restart_services s =
     remdups_adj (sort (map gm_service
       (filter (\<lambda>member. gm_status member = AwaitingRestart)
         (concat (map (bt_values \<circ> gx_members) (bt_values (gs_contexts s)))))))"

section \<open>Pruning dormant dependencies\<close>

definition can_prune_dormant_member :: "graph_execution_context \<Rightarrow> string \<Rightarrow> bool" where
  "can_prune_dormant_member ctx service =
     (case bt_get (gx_members ctx) service of
        None \<Rightarrow> False
      | Some member \<Rightarrow>
          gm_status member = Dormant
          \<and> list_all (\<lambda>edge. case bt_get (gx_members ctx) (gd_dependent edge) of
                None \<Rightarrow> True
              | Some dependent \<Rightarrow>
                  gm_status dependent \<in> {Dormant, MemberSatisfied, MemberFailed, Pruned})
              (filter (\<lambda>edge. gd_target edge = service) (gx_dependencies ctx)))"

lemma pruning_shrinks:
  "can_prune_dormant_member ctx service \<Longrightarrow>
     members_in (\<lambda>status. status = Dormant) (set_status Pruned service ctx)
       \<subset> members_in (\<lambda>status. status = Dormant) ctx"
  by (subst members_in_set_status)
    (auto simp: can_prune_dormant_member_def members_in_def split: option.splits)

text \<open>\<open>prune_dormant_subtree\<close> for each target of \<open>prune_dependencies_for_service\<close>.\<close>

function (sequential) prune_subtrees ::
  "string list \<Rightarrow> graph_execution_context
   \<Rightarrow> (graph_execution_error, graph_pruned_operation list, graph_execution_context) outcome" where
  "prune_subtrees [] ctx = (Inr [], ctx)"
| "prune_subtrees (service # services) ctx =
     (if \<not> can_prune_dormant_member ctx service then prune_subtrees services ctx
      else case bt_get (gx_members ctx) service of
          None \<Rightarrow> (Inl (MissingMember (gx_id ctx) service), ctx)
        | Some member \<Rightarrow>
            then_do (prune_subtrees (map gd_target (edges_of ctx service)) (set_status Pruned service ctx))
              (\<lambda>below ctx1. then_do (prune_subtrees services ctx1) (\<lambda>rest ctx2.
                (Inr (\<lparr>gp_context_id = gx_id ctx, gp_service = service,
                        gp_operation_id = gm_operation_id member\<rparr> # below @ rest), ctx2))))"
  by pat_completeness auto

termination
proof -
  have shrinks: "members_in (\<lambda>status. status = Dormant) (snd (prune_subtrees services ctx))
      \<subseteq> members_in (\<lambda>status. status = Dormant) ctx"
    if "prune_subtrees_dom (services, ctx)" for services ctx
    using that
  proof (induction rule: prune_subtrees.pinduct)
    case (2 service services ctx)
    show ?case
    proof (cases "can_prune_dormant_member ctx service")
      case False
      then show ?thesis using 2(1,2) by (simp add: prune_subtrees.psimps)
    next
      case True
      then obtain m where m: "bt_get (gx_members ctx) service = Some m"
        by (auto simp: can_prune_dormant_member_def split: option.splits)
      show ?thesis
        using 2(1) True m 2(3,4) [OF _ m] pruning_shrinks [OF True]
        by (auto simp: prune_subtrees.psimps then_do_def split: prod.splits sum.splits; blast)
    qed
  qed (simp add: prune_subtrees.psimps)
  show ?thesis
  proof (relation "measures [\<lambda>(services, ctx). card (members_in (\<lambda>status. status = Dormant) ctx),
      length \<circ> fst]", goal_cases)
    case 1
    then show ?case by simp
  next
    case (2 service services ctx)
    then show ?case by simp
  next
    case (3 service services ctx member)
    then show ?case using pruning_shrinks by (simp add: psubset_card_mono)
  next
    case (4 service services ctx member below ctx1)
    then have "members_in (\<lambda>status. status = Dormant) ctx1
        \<subset> members_in (\<lambda>status. status = Dormant) ctx"
      using pruning_shrinks [of ctx service] shrinks by fastforce
    then show ?case by (simp add: psubset_card_mono)
  qed
qed

definition prune_dependencies_for_service ::
  "string \<Rightarrow> graph_execution_context
   \<Rightarrow> (graph_execution_error, graph_pruned_operation list, graph_execution_context) outcome" where
  "prune_dependencies_for_service service ctx =
     prune_subtrees (map gd_target (edges_of ctx service)) ctx"

definition prune_dormant_dependencies ::
  "operation_id \<Rightarrow> graph_execution_store
   \<Rightarrow> (graph_execution_error, graph_pruned_operation list, graph_execution_store) outcome" where
  "prune_dormant_dependencies op s =
     for_each (\<lambda>cid. on_context cid (with_operation_service op prune_dependencies_for_service))
       (associated_contexts s op) s"

section \<open>Recorded holds\<close>

definition recorded_held_operations :: "graph_execution_store \<Rightarrow> operation_id fset" where
  "recorded_held_operations s =
     fset_of_list (map gm_operation_id
       (filter (\<lambda>member. gm_status member = WaitingForDependencies \<and> gm_held_without_clock member)
         (concat (map (bt_values \<circ> gx_members) (bt_values (gs_contexts s))))))"

definition clear_context_hold :: "operation_id \<Rightarrow> graph_execution_context \<Rightarrow> graph_execution_context" where
  "clear_context_hold op ctx =
     ctx\<lparr>gx_members := bt_map_values (\<lambda>member.
         if gm_operation_id member = op then member\<lparr>gm_held_without_clock := False\<rparr> else member)
       (gx_members ctx)\<rparr>"

definition clear_recorded_operation_hold ::
  "operation_id \<Rightarrow> graph_execution_store \<Rightarrow> graph_execution_store" where
  "clear_recorded_operation_hold op s =
     fold (\<lambda>cid s. s\<lparr>gs_contexts := bt_modify cid (clear_context_hold op) (gs_contexts s)\<rparr>)
       (associated_contexts s op) s"

definition is_operation_held :: "graph_execution_store \<Rightarrow> operation_id \<Rightarrow> bool" where
  "is_operation_held s op =
     (let members = List.map_filter (\<lambda>cid.
            case bt_get (gs_contexts s) cid of
              None \<Rightarrow> None
            | Some ctx \<Rightarrow> map_option (\<lambda>member. (ctx, member)) (member_for_operation ctx op))
            (associated_contexts s op)
      in list_ex (\<lambda>(ctx, member). waits_without_clock ctx (gm_service member)) members
         \<or> list_ex (\<lambda>(ctx, member). gm_status member = AwaitingRestart \<and> gm_held_without_clock member) members
         \<and> \<not> list_ex (\<lambda>(ctx, member). gm_status member = MemberRunning) members)"

end
