(* ===== verification/Graph_Runs.thy ===== *)
theory Graph_Runs
  imports Graph_Execution
begin

text \<open>
  What holds of every store of execution graphs that the operations can reach, and what a release
  and a failure do.

  Every operation on a context keeps its shape: its members, their operations and its edges; only
  how far a member has come changes. The locale \<open>member_operation\<close> is that contract for the
  operations on the member of an operation; each of them interprets it, and the lemmas of the
  locale lift it to the store. It follows that the lookups of the code never miss: the only error
  an operation can meet is that a member has ended already.
\<close>

section \<open>Shape and well-formedness\<close>

definition member_shape :: "graph_member \<Rightarrow> graph_member" where
  "member_shape member = member\<lparr>gm_status := Dormant, gm_held_without_clock := False\<rparr>"

definition same_shape :: "graph_execution_context \<Rightarrow> graph_execution_context \<Rightarrow> bool" where
  "same_shape c c' \<longleftrightarrow>
     gx_id c' = gx_id c \<and> gx_kind c' = gx_kind c \<and> gx_dependencies c' = gx_dependencies c
     \<and> (\<forall>service. map_option member_shape (bt_get (gx_members c') service)
          = map_option member_shape (bt_get (gx_members c) service))"

definition context_wf :: "graph_execution_context \<Rightarrow> bool" where
  "context_wf ctx \<longleftrightarrow>
     (\<forall>service member. bt_get (gx_members ctx) service = Some member \<longrightarrow> gm_service member = service)
     \<and> (\<forall>edge\<in>set (gx_dependencies ctx). bt_contains_key (gx_members ctx) (gd_dependent edge)
          \<and> (gd_level edge = None \<longrightarrow> bt_contains_key (gx_members ctx) (gd_target edge)))"

definition operates :: "graph_execution_context \<Rightarrow> operation_id \<Rightarrow> bool" where
  "operates ctx op \<longleftrightarrow> (\<exists>service member. bt_get (gx_members ctx) service = Some member
     \<and> gm_operation_id member = op)"

definition graph_store_wf :: "graph_execution_store \<Rightarrow> bool" where
  "graph_store_wf s \<longleftrightarrow>
     (\<forall>cid ctx. bt_get (gs_contexts s) cid = Some ctx \<longrightarrow>
        gx_id ctx = cid \<and> cid < gs_next_context_id s \<and> context_wf ctx)
     \<and> (\<forall>op cid. cid |\<in>| bt_get_or {||} (gs_associations s) op \<longleftrightarrow>
          (\<exists>ctx. bt_get (gs_contexts s) cid = Some ctx \<and> operates ctx op))"

lemma same_shape_refl [simp]: "same_shape c c"
  by (simp add: same_shape_def)

lemma same_shape_trans: "same_shape a b \<Longrightarrow> same_shape b c \<Longrightarrow> same_shape a c"
  by (simp add: same_shape_def)

lemma same_shape_sym: "same_shape a b \<Longrightarrow> same_shape b a"
  by (simp add: same_shape_def)

lemma member_shape_eq:
  "member_shape m = member_shape n \<longleftrightarrow>
     gm_service m = gm_service n \<and> gm_operation_id m = gm_operation_id n
     \<and> gm_reserved_job_id m = gm_reserved_job_id n
     \<and> gm_transition_cause m = gm_transition_cause n \<and> gm_sequence m = gm_sequence n"
  by (cases m; cases n) (simp add: member_shape_def)

lemma same_shape_get:
  assumes "same_shape c c'" "bt_get (gx_members c) service = Some m"
  obtains m' where "bt_get (gx_members c') service = Some m'" "member_shape m' = member_shape m"
proof -
  have "map_option member_shape (bt_get (gx_members c') service) = Some (member_shape m)"
    using assms by (simp add: same_shape_def)
  then show ?thesis using that by auto
qed

lemma same_shape_ids:
  "same_shape c c' \<Longrightarrow> gx_id c' = gx_id c"
  "same_shape c c' \<Longrightarrow> gx_dependencies c' = gx_dependencies c"
  "same_shape c c' \<Longrightarrow> edges_of c' service = edges_of c service"
  by (simp_all add: same_shape_def edges_of_def)

lemma same_shape_contains:
  "same_shape c c' \<Longrightarrow> bt_contains_key (gx_members c') service = bt_contains_key (gx_members c) service"
  unfolding same_shape_def bt_contains_key_def by (metis option.map_disc_iff)

lemma operates_mono: "same_shape c c' \<Longrightarrow> operates c op \<Longrightarrow> operates c' op"
  unfolding operates_def member_shape_eq by (metis same_shape_get member_shape_eq)

lemma context_wf_mono:
  assumes shape: "same_shape c c'" and wf: "context_wf c"
  shows "context_wf c'"
proof -
  have "gm_service m' = service" if m': "bt_get (gx_members c') service = Some m'" for service m'
  proof -
    obtain m where "bt_get (gx_members c) service = Some m" "member_shape m = member_shape m'"
      by (rule same_shape_get [OF same_shape_sym [OF shape] m'])
    then show ?thesis using wf by (simp add: context_wf_def member_shape_eq)
  qed
  then show ?thesis
    using wf by (simp add: context_wf_def same_shape_ids(2) [OF shape] same_shape_contains [OF shape])
qed

lemma same_shapeD:
  assumes "same_shape c c'"
  shows "operates c' op = operates c op" "context_wf c' = context_wf c"
  using assms operates_mono context_wf_mono same_shape_sym by blast+

lemma same_shape_modify:
  assumes "\<And>m. bt_get (gx_members ctx) service = Some m \<Longrightarrow> member_shape (f m) = member_shape m"
  shows "same_shape ctx (ctx\<lparr>gx_members := bt_modify service f (gx_members ctx)\<rparr>)"
  using assms by (cases "bt_get (gx_members ctx) service") (auto simp: same_shape_def)

lemma same_shape_set_status [simp]: "same_shape ctx (set_status status service ctx)"
  unfolding set_status_def by (rule same_shape_modify) (simp add: member_shape_def)

lemma same_shape_fold:
  "(\<And>x c. x \<in> set xs \<Longrightarrow> same_shape c (f x c)) \<Longrightarrow> same_shape c (fold f xs c)"
proof (induction xs arbitrary: c)
  case (Cons x xs)
  have "same_shape c (f x c)" using Cons.prems by simp
  moreover have "same_shape (f x c) (fold f xs (f x c))" using Cons by simp
  ultimately show ?case by (simp add: same_shape_trans [of c "f x c"])
qed simp

lemma same_shape_note_holds [simp]: "same_shape ctx (note_holds_without_clock ctx)"
  unfolding note_holds_without_clock_def
  by (rule same_shape_fold) (auto intro!: same_shape_modify simp: member_shape_def)

lemma same_shape_activate [simp]: "same_shape ctx (activate_dependencies service ctx)"
  unfolding activate_dependencies_def
  by (rule same_shape_fold) (auto intro!: same_shape_modify simp: member_shape_def)

lemma same_shape_clear_hold [simp]: "same_shape ctx (clear_context_hold op ctx)"
  by (auto simp: same_shape_def clear_context_hold_def member_shape_def option.map_comp o_def
      intro!: option.map_cong)

section \<open>Operations on a member\<close>

text \<open>
  The only error left when the lookups of an operation cannot miss: the member has ended.
\<close>

definition ended_already :: "graph_execution_error \<Rightarrow> bool" where
  "ended_already e \<longleftrightarrow> (\<exists>cid service status. e = MemberAlreadyTerminal cid service status)"

lemma graph_store_wfD:
  assumes "graph_store_wf s" "bt_get (gs_contexts s) cid = Some ctx"
  shows "gx_id ctx = cid" "cid < gs_next_context_id s" "context_wf ctx"
  using assms by (auto simp: graph_store_wf_def)

lemma store_wf_update:
  assumes wf: "graph_store_wf s" and get: "bt_get (gs_contexts s) cid = Some ctx"
    and shape: "same_shape ctx ctx'"
  shows "graph_store_wf (s\<lparr>gs_contexts := bt_insert cid ctx' (gs_contexts s)\<rparr>)"
proof -
  have "(\<exists>c. bt_get (bt_insert cid ctx' (gs_contexts s)) k = Some c \<and> operates c op)
      \<longleftrightarrow> (\<exists>c. bt_get (gs_contexts s) k = Some c \<and> operates c op)" for k op
    using get same_shapeD(1) [OF shape] by simp
  then show ?thesis
    using wf graph_store_wfD [OF wf get] same_shapeD(2) [OF shape] same_shape_ids(1) [OF shape]
    by (auto simp: graph_store_wf_def)
qed

lemma associated_operates:
  assumes "graph_store_wf s" "cid \<in> set (associated_contexts s op)"
  shows "\<exists>ctx. bt_get (gs_contexts s) cid = Some ctx \<and> operates ctx op"
proof -
  have "cid |\<in>| bt_get_or {||} (gs_associations s) op"
    using assms(2) by (cases "bt_get (gs_associations s) op") (auto simp: associated_contexts_def bt_get_or_def)
  then show ?thesis using assms(1) by (simp add: graph_store_wf_def)
qed

text \<open>
  The store between the calls of a loop over the contexts of an operation: well formed, with the
  contexts and the associations the loop started from.
\<close>

definition loop_inv :: "graph_execution_store \<Rightarrow> graph_execution_store \<Rightarrow> bool" where
  "loop_inv s s' \<longleftrightarrow> graph_store_wf s' \<and> gs_associations s' = gs_associations s
     \<and> gs_next_context_id s' = gs_next_context_id s
     \<and> dom (bt_get (gs_contexts s')) = dom (bt_get (gs_contexts s))"

lemma loop_inv_refl: "graph_store_wf s \<Longrightarrow> loop_inv s s"
  by (simp add: loop_inv_def)

lemma loop_inv_wf: "loop_inv s s' \<Longrightarrow> graph_store_wf s'"
  by (simp add: loop_inv_def)

lemma outcome_ok_weaken: "outcome_ok P E r \<Longrightarrow> (\<And>s. P s \<Longrightarrow> Q s) \<Longrightarrow> outcome_ok Q E r"
  by (simp add: outcome_ok_def)

lemma on_context_ok:
  assumes inv: "loop_inv s0 s" and cid: "cid \<in> dom (bt_get (gs_contexts s))"
    and f: "\<And>ctx. bt_get (gs_contexts s) cid = Some ctx \<Longrightarrow> outcome_ok (same_shape ctx) E (f ctx)"
  shows "outcome_ok (loop_inv s0) E (on_context cid f s)"
proof -
  obtain ctx where get: "bt_get (gs_contexts s) cid = Some ctx" using cid by auto
  obtain r ctx' where run: "f ctx = (r, ctx')" by (cases "f ctx")
  have "same_shape ctx ctx'" using f [OF get] run by (simp add: outcome_ok_def)
  then have "loop_inv s0 (s\<lparr>gs_contexts := bt_insert cid ctx' (gs_contexts s)\<rparr>)"
    using store_wf_update [OF _ get] inv cid by (auto simp: loop_inv_def bt_get_insert)
  then show ?thesis using f [OF get] run get by (simp add: on_context_def outcome_ok_def)
qed

locale member_operation =
  fixes f :: "string \<Rightarrow> graph_execution_context \<Rightarrow> (graph_execution_error, 'a, graph_execution_context) outcome"
  assumes keeps_shape: "context_wf ctx \<Longrightarrow> bt_contains_key (gx_members ctx) service \<Longrightarrow>
    outcome_ok (same_shape ctx) ended_already (f service ctx)"
begin

lemma operation_ok:
  assumes "context_wf ctx" "operates ctx op"
  shows "outcome_ok (same_shape ctx) ended_already (with_operation_service op f ctx)"
proof -
  obtain service member where "bt_get (gx_members ctx) service = Some member" "gm_operation_id member = op"
    using assms(2) by (auto simp: operates_def)
  then have "\<exists>m\<in>set (bt_values (gx_members ctx)). gm_operation_id m = op"
    by (auto simp: set_bt_values ran_def)
  then obtain m where find: "member_for_operation ctx op = Some m"
    by (cases "member_for_operation ctx op") (auto simp: member_for_operation_def find_None_iff)
  then have "m \<in> set (bt_values (gx_members ctx))"
    by (auto simp: member_for_operation_def find_Some_iff)
  then obtain k where "bt_get (gx_members ctx) k = Some m"
    by (auto simp: set_bt_values ran_def)
  then have "bt_contains_key (gx_members ctx) (gm_service m)"
    using assms(1) by (auto simp: context_wf_def bt_contains_key_def)
  then show ?thesis
    using keeps_shape [OF assms(1)] find by (simp add: with_operation_service_def operation_service_def)
qed

lemma context_ok:
  assumes "loop_inv s0 s" "cid \<in> set (associated_contexts s0 op)"
  shows "outcome_ok (loop_inv s0) ended_already (on_context cid (with_operation_service op f) s)"
proof -
  have wf: "graph_store_wf s" using assms(1) by (simp add: loop_inv_def)
  have "cid \<in> set (associated_contexts s op)"
    using assms by (simp add: loop_inv_def associated_contexts_def)
  then obtain ctx where get: "bt_get (gs_contexts s) cid = Some ctx" and op: "operates ctx op"
    using associated_operates [OF wf] by blast
  show ?thesis
  proof (rule on_context_ok [OF assms(1)])
    show "cid \<in> dom (bt_get (gs_contexts s))" using get by auto
    show "outcome_ok (same_shape c) ended_already (with_operation_service op f c)"
      if "bt_get (gs_contexts s) cid = Some c" for c
      using that get op operation_ok graph_store_wfD(3) [OF wf get] by auto
  qed
qed

lemma store_ok:
  assumes wf: "graph_store_wf s"
    and body: "\<And>cid s'. body cid s' = then_do (on_context cid (with_operation_service op f) s') (k cid)"
    and pure: "\<And>cid a s'. \<exists>bs. k cid a s' = (Inr bs, s')"
  shows "outcome_ok (loop_inv s) ended_already (for_each body (associated_contexts s op) s)"
proof (rule outcome_ok_for_each)
  fix cid s'
  assume "cid \<in> set (associated_contexts s op)" "loop_inv s s'"
  then have first: "outcome_ok (loop_inv s) ended_already (on_context cid (with_operation_service op f) s')"
    by (intro context_ok)
  show "outcome_ok (loop_inv s) ended_already (body cid s')"
    unfolding body
  proof (rule outcome_ok_then [OF first])
    fix a s''
    assume "loop_inv s s''"
    then show "outcome_ok (loop_inv s) ended_already (k cid a s'')"
      using pure [of cid a s''] by auto
  qed
qed (rule loop_inv_refl [OF wf])

end

lemma outcome_ok_shape: "same_shape a b \<Longrightarrow> outcome_ok (same_shape b) E r \<Longrightarrow> outcome_ok (same_shape a) E r"
  by (auto simp: outcome_ok_def intro: same_shape_trans)

lemma member_known: "bt_contains_key (gx_members ctx) service \<longleftrightarrow>
    (\<exists>member. bt_get (gx_members ctx) service = Some member)"
  by (auto simp: bt_contains_key_def)

lemma mark_terminal_ok:
  "bt_contains_key (gx_members ctx) service \<Longrightarrow>
     outcome_ok (same_shape ctx) ended_already (mark_terminal service out ctx)"
  by (auto simp: mark_terminal_def member_known ended_already_def)

lemma graph_hard_dependents_known:
  "context_wf ctx \<Longrightarrow> d \<in> set (graph_hard_dependents ctx service) \<Longrightarrow>
     bt_contains_key (gx_members ctx) d"
  by (auto simp: graph_hard_dependents_def context_wf_def)

text \<open>A failure and a pruning reach every member they look for: neither can fail.\<close>

lemma fail_dependents_ok:
  "context_wf ctx \<Longrightarrow> \<forall>d\<in>set ds. bt_contains_key (gx_members ctx) d \<Longrightarrow>
     outcome_ok (same_shape ctx) (\<lambda>_. False) (fail_dependents ds ctx)"
proof (induction ds ctx rule: fail_dependents.induct)
  case (2 d ds ctx)
  then obtain m where m: "bt_get (gx_members ctx) d = Some m" by (auto simp: member_known)
  show ?case
  proof (cases "may_fail_with_dependency (gm_status m)")
    case False
    then show ?thesis using 2(1) [OF m] 2(4,5) m by simp
  next
    case True
    let ?ctx1 = "set_status MemberFailed d ctx"
    have mark: "mark_terminal d OutcomeFailed ctx = (Inr (), ?ctx1)"
      using mark_terminal_failable [OF m True] by simp
    have wf1: "context_wf ?ctx1" using 2(4) by (simp add: context_wf_mono [of ctx])
    have first: "outcome_ok (same_shape ctx) (\<lambda>_. False)
        (fail_dependents (graph_hard_dependents ?ctx1 d) ?ctx1)"
      using 2(2) [OF m _ mark] True wf1 graph_hard_dependents_known [OF wf1]
      by (intro outcome_ok_shape [of ctx ?ctx1]) auto
    have rest: "outcome_ok (same_shape ctx) (\<lambda>_. False) (fail_dependents ds ctx2)"
      if run: "fail_dependents (graph_hard_dependents ?ctx1 d) ?ctx1 = (Inr events, ctx2)"
        and shape: "same_shape ctx ctx2" for events ctx2
      using 2(3) [OF m _ mark run] True context_wf_mono [OF shape 2(4)] 2(5) same_shape_contains [OF shape]
      by (intro outcome_ok_shape [OF shape]) auto
    show ?thesis
      using m True mark
      by (simp del: outcome_ok_simps)
        (auto intro!: outcome_ok_then [OF first] outcome_ok_then [OF rest])
  qed
qed simp

lemma prune_subtrees_ok:
  "outcome_ok (same_shape ctx) (\<lambda>_. False) (prune_subtrees services ctx)"
proof (induction services ctx rule: prune_subtrees.induct)
  case (2 service services ctx)
  show ?case
  proof (cases "can_prune_dormant_member ctx service")
    case False
    then show ?thesis using 2(1) by simp
  next
    case True
    then obtain m where m: "bt_get (gx_members ctx) service = Some m"
      by (auto simp: can_prune_dormant_member_def split: option.splits)
    let ?ctx1 = "set_status Pruned service ctx"
    have first: "outcome_ok (same_shape ctx) (\<lambda>_. False)
        (prune_subtrees (map gd_target (edges_of ctx service)) ?ctx1)"
      using 2(2) [OF _ m] True by (intro outcome_ok_shape [of ctx ?ctx1]) auto
    have rest: "outcome_ok (same_shape ctx) (\<lambda>_. False) (prune_subtrees services ctx2)"
      if run: "prune_subtrees (map gd_target (edges_of ctx service)) ?ctx1 = (Inr below, ctx2)"
        and shape: "same_shape ctx ctx2" for below ctx2
      using 2(3) [OF _ m run] True by (intro outcome_ok_shape [OF shape]) auto
    show ?thesis
      using m True
      by (simp del: outcome_ok_simps)
        (auto intro!: outcome_ok_then [OF first] outcome_ok_then [OF rest])
  qed
qed simp

lemma propagate_ok:
  "context_wf ctx \<Longrightarrow>
     outcome_ok (same_shape ctx) (\<lambda>_. False) (propagate_hard_dependency_failure service ctx)"
  unfolding propagate_hard_dependency_failure_def
  by (rule fail_dependents_ok) (auto intro: graph_hard_dependents_known)

lemma outcome_ok_errors: "outcome_ok P (\<lambda>_. False) r \<Longrightarrow> outcome_ok P E r"
  by (auto simp: outcome_ok_def)

lemma settle_member_ok:
  assumes wf: "context_wf ctx" and known: "bt_contains_key (gx_members ctx) service"
  shows "outcome_ok (same_shape ctx) ended_already (settle_member out op service ctx)"
proof -
  have spread: "outcome_ok (same_shape ctx) ended_already (propagate_hard_dependency_failure service ctx1)"
    if shape: "same_shape ctx ctx1" for ctx1
    by (rule outcome_ok_shape [OF shape outcome_ok_errors [OF propagate_ok [OF context_wf_mono [OF shape wf]]]])
  show ?thesis
    unfolding settle_member_def
  proof (rule outcome_ok_then [OF mark_terminal_ok [OF known]])
    fix u ctx1
    assume "same_shape ctx ctx1"
    then show "outcome_ok (same_shape ctx) ended_already
        (if out = OutcomeFailed
         then then_do (propagate_hard_dependency_failure service ctx1) (\<lambda>events ctx2.
           (Inr (terminal_event ctx service op out # events), ctx2))
         else (Inr [terminal_event ctx service op out], ctx1))"
      by (auto intro!: outcome_ok_then [OF spread])
  qed
qed

lemma settle_context_restart_ok:
  "context_wf ctx \<Longrightarrow> outcome_ok (same_shape ctx) ended_already (settle_context_restart service out ctx)"
  by (auto simp: settle_context_restart_def member_known intro!: settle_member_ok split: option.split)

interpretation pre_check: member_operation mark_pre_start_check_passed
proof unfold_locales
  fix ctx :: graph_execution_context and service
  assume "bt_contains_key (gx_members ctx) service"
  then show "outcome_ok (same_shape ctx) ended_already (mark_pre_start_check_passed service ctx)"
    by (auto simp: mark_pre_start_check_passed_def member_known ended_already_def
        intro: same_shape_trans [OF same_shape_set_status same_shape_activate])
qed

interpretation settling: member_operation "settle_member out op" for out op
  by unfold_locales (rule settle_member_ok)

interpretation holding: member_operation hold_for_restart
proof unfold_locales
  fix ctx :: graph_execution_context and service
  assume "bt_contains_key (gx_members ctx) service"
  then have "outcome_ok (same_shape ctx) ended_already (mark_awaiting_restart service ctx)"
    by (auto simp: mark_awaiting_restart_def member_known ended_already_def same_shape_def member_shape_def)
  then show "outcome_ok (same_shape ctx) ended_already (hold_for_restart service ctx)"
    unfolding hold_for_restart_def
    by (rule outcome_ok_then) (auto intro: same_shape_trans)
qed

interpretation pruning: member_operation prune_dependencies_for_service
  by unfold_locales (simp add: prune_dependencies_for_service_def outcome_ok_errors prune_subtrees_ok)

section \<open>New contexts\<close>

definition members_keyed :: "graph_members \<Rightarrow> bool" where
  "members_keyed members \<longleftrightarrow> (\<forall>service member. bt_get members service = Some member \<longrightarrow> gm_service member = service)"

definition edge_known :: "graph_members \<Rightarrow> graph_dependency \<Rightarrow> bool" where
  "edge_known members edge \<longleftrightarrow> bt_contains_key members (gd_dependent edge)
     \<and> (gd_level edge = None \<longrightarrow> bt_contains_key members (gd_target edge))"

lemma context_wf_parts:
  "context_wf ctx \<longleftrightarrow> members_keyed (gx_members ctx) \<and> (\<forall>edge\<in>set (gx_dependencies ctx). edge_known (gx_members ctx) edge)"
  by (auto simp: context_wf_def members_keyed_def edge_known_def)

lemma insert_member_keyed:
  "insert_member member members = Inr members' \<Longrightarrow> members_keyed members \<Longrightarrow> members_keyed members'"
  by (auto simp: insert_member_def members_keyed_def split: if_splits)

lemma insert_members_keyed:
  "insert_members new members = Inr members' \<Longrightarrow> members_keyed members \<Longrightarrow> members_keyed members'"
proof (induction new arbitrary: members)
  case (Cons member rest)
  then show ?case using insert_member_keyed [of member members] by (auto simp: and_then_eq_Inr)
qed simp

lemma on_demand_members_keyed:
  "on_demand_members dispatch services sequence starts outcomes members = Inr members' \<Longrightarrow>
     members_keyed members \<Longrightarrow> members_keyed members'"
proof (induction dispatch services sequence starts outcomes members
    rule: on_demand_members.induct)
  case (2 dispatch services sequence start starts outcomes members)
  then show ?case
    using insert_member_keyed by (fastforce simp: and_then_eq_Inr split: if_splits list.splits)
qed simp

lemma fold_keeps: "(\<And>x a. x \<in> set xs \<Longrightarrow> P a \<Longrightarrow> P (f x a)) \<Longrightarrow> P a \<Longrightarrow> P (fold f xs a)"
  by (induction xs arbitrary: a) auto

lemma push_dependencies_known:
  assumes "bt_contains_key members service" "\<forall>edge\<in>set edges. edge_known members edge"
  shows "\<forall>edge\<in>set (push_dependencies members service d edges). edge_known members edge"
  unfolding push_dependencies_def
  by (rule fold_keeps [where P = "\<lambda>edges. \<forall>edge\<in>set edges. edge_known members edge"])
    (use assms in \<open>auto simp: edge_known_def\<close>)

lemma context_dependencies_loop_known:
  "context_dependencies_loop members definition_of services edges = Inr edges' \<Longrightarrow>
     \<forall>service\<in>set services. bt_contains_key members service \<Longrightarrow>
     \<forall>edge\<in>set edges. edge_known members edge \<Longrightarrow> \<forall>edge\<in>set edges'. edge_known members edge"
proof (induction services arbitrary: edges)
  case (Cons service services)
  then obtain d where "context_dependencies_loop members definition_of services
      (push_dependencies members service d edges) = Inr edges'"
    by (auto simp: and_then_eq_Inr)
  then show ?case
    using Cons.IH [OF _ _ push_dependencies_known [of members service edges d]] Cons.prems by auto
qed simp

lemma activated_context_wf:
  assumes keyed: "members_keyed members" and edges: "context_dependencies members definition_of = Inr edges"
  shows "context_wf \<lparr>gx_id = cid, gx_kind = kind, gx_members = activate_roots edges members,
    gx_dependencies = edges\<rparr>"
proof -
  have "\<forall>edge\<in>set edges. edge_known members edge"
    using edges context_dependencies_loop_known [of members definition_of "bt_keys members" "[]" edges]
    by (auto simp: context_dependencies_def bt_contains_key_iff)
  then show ?thesis
    using keyed
    by (auto simp: context_wf_parts members_keyed_def edge_known_def activate_roots_def bt_contains_key_def)
qed

lemma members_keyed_empty [simp]: "members_keyed bt_empty"
  by (simp add: members_keyed_def)

lemma boot_context_wf:
  "boot_context cid plan definitions = Inr ctx \<Longrightarrow> gx_id ctx = cid \<and> context_wf ctx"
  using insert_members_keyed activated_context_wf
  by (fastforce simp: boot_context_def and_then_eq_Inr)

lemma on_demand_context_wf:
  assumes "on_demand_context cid dispatch services = Inr ctx"
  shows "gx_id ctx = cid \<and> context_wf ctx"
proof -
  obtain planned members edges where
    "on_demand_members dispatch services 0 (sp_starts (od_plan dispatch))
       (od_dependency_operations dispatch) bt_empty = Inr planned"
    and step: "(if planned = bt_empty then insert_member (blocked_requested_member dispatch) planned
       else Inr planned) = Inr members"
    and edges: "context_dependencies members (table_definition services) = Inr edges"
    and ctx: "ctx = \<lparr>gx_id = cid,
       gx_kind = OnDemandContext (sp_requested (od_plan dispatch))
         (ou_returned_operation_id (od_requested_operation dispatch)),
       gx_members = activate_roots edges members, gx_dependencies = edges\<rparr>"
    using assms by (auto simp: on_demand_context_def and_then_eq_Inr)
  then have "members_keyed planned" using on_demand_members_keyed by fastforce
  then have "members_keyed members"
    using step insert_member_keyed by (auto split: if_splits)
  then show ?thesis using activated_context_wf [OF _ edges] ctx by simp
qed

lemma associate_all:
  "cid |\<in>| bt_get_or {||} (fold (\<lambda>member. graph_associate new (gm_operation_id member)) members associations) op
   \<longleftrightarrow> cid |\<in>| bt_get_or {||} associations op \<or> cid = new \<and> op \<in> gm_operation_id ` set members"
proof (induction members arbitrary: associations)
  case (Cons member members)
  then show ?case by (auto simp: graph_associate_def bt_get_or_def)
qed simp

lemma operates_values: "operates ctx op \<longleftrightarrow> op \<in> gm_operation_id ` set (bt_values (gx_members ctx))"
  by (auto simp: operates_def set_bt_values ran_def)

lemma insert_context_wf:
  assumes wf: "graph_store_wf s" and ctx: "gx_id ctx = gs_next_context_id s" "context_wf ctx"
    and room: "gs_next_context_id s \<noteq> word_max"
  shows "graph_store_wf (insert_context ctx s)"
proof -
  have "unat (gs_next_context_id s) \<noteq> unat (word_max :: u64)"
    using room by (metis word_unat_eq_iff)
  then have "unat (gs_next_context_id s) + 1 < 2 ^ 64"
    using unat_bounded [of "gs_next_context_id s"] by simp
  then have less: "gs_next_context_id s < gs_next_context_id s + 1"
    using sat_inc_above [OF room order_refl] by (simp add: sat_add_def)
  have fresh: "bt_get (gs_contexts s) (gs_next_context_id s) = None"
    using graph_store_wfD(2) [OF wf] by (cases "bt_get (gs_contexts s) (gs_next_context_id s)") auto
  show ?thesis
    unfolding graph_store_wf_def
  proof (intro conjI allI impI)
    fix cid c
    assume "bt_get (gs_contexts (insert_context ctx s)) cid = Some c"
    then show "gx_id c = cid" "context_wf c" "cid < gs_next_context_id (insert_context ctx s)"
      using ctx less graph_store_wfD [OF wf, of cid c]
      by (auto simp: insert_context_def split: if_splits)
  next
    fix op cid
    show "cid |\<in>| bt_get_or {||} (gs_associations (insert_context ctx s)) op \<longleftrightarrow>
        (\<exists>c. bt_get (gs_contexts (insert_context ctx s)) cid = Some c \<and> operates c op)"
      using wf ctx(1) fresh
      by (auto simp: insert_context_def associate_all operates_values graph_store_wf_def)
  qed
qed

section \<open>Releases\<close>

definition status_of :: "graph_execution_context \<Rightarrow> string \<Rightarrow> graph_member_status option" where
  "status_of ctx service = map_option gm_status (bt_get (gx_members ctx) service)"

text \<open>
  The abstract reading of an edge and of a member: an edge is open when its target has come far
  enough and the level it names is published, and a member may be released when it waits for its
  check, or waits for dependencies all of whose edges are open.
\<close>

definition edge_open ::
  "graph_execution_context \<Rightarrow> (string \<Rightarrow> string \<Rightarrow> level_probe) \<Rightarrow> graph_dependency \<Rightarrow> bool" where
  "edge_open ctx probe edge \<longleftrightarrow>
     (\<forall>status. status_of ctx (gd_target edge) = Some status \<longrightarrow>
        (if gd_kind edge = Wants then member_is_terminal status else status = MemberSatisfied))
     \<and> (\<forall>level. gd_level edge = Some level \<longrightarrow>
          (if gd_kind edge = Wants then probe (gd_target edge) level \<noteq> NotYetPublished
           else probe (gd_target edge) level = LevelSatisfied))"

definition member_ready ::
  "graph_execution_context \<Rightarrow> (string \<Rightarrow> string \<Rightarrow> level_probe) \<Rightarrow> graph_member
   \<Rightarrow> ready_graph_operation_action option" where
  "member_ready ctx probe member =
     (if gm_status member = WaitingForPreStartCheck then Some PreStartCheckAction
      else if gm_status member = WaitingForDependencies
        \<and> (\<forall>edge\<in>set (edges_of ctx (gm_service member)). edge_open ctx probe edge)
      then Some StartAction else None)"

definition ready_list ::
  "graph_execution_context \<Rightarrow> (string \<Rightarrow> string \<Rightarrow> level_probe)
   \<Rightarrow> (graph_member \<times> ready_graph_operation_action) list" where
  "ready_list ctx probe =
     List.map_filter (\<lambda>member. map_option (Pair member) (member_ready ctx probe member))
       (bt_values (gx_members ctx))"

definition chosen ::
  "graph_execution_context \<Rightarrow> (string \<Rightarrow> string \<Rightarrow> level_probe) \<Rightarrow> u32
   \<Rightarrow> (graph_member \<times> ready_graph_operation_action) list" where
  "chosen ctx probe max_parallel_starts =
     take (unat max_parallel_starts - card (members_in (\<lambda>status. status = MemberRunning) ctx))
       (sort_key (\<lambda>(member, action). gm_sequence member) (ready_list ctx probe))"

lemma length_filter_values:
  assumes "members_keyed members"
  shows "length (filter (\<lambda>m. P (gm_status m)) (bt_values members))
    = card {service. \<exists>m. bt_get members service = Some m \<and> P (gm_status m)}"
proof -
  let ?es = "filter (\<lambda>e. P (gm_status (snd e))) (bt_entries members)"
  have "length (filter (\<lambda>m. P (gm_status m)) (bt_values members)) = length (map fst ?es)"
    by (simp add: bt_values_def filter_map o_def)
  moreover have "distinct (map fst ?es)"
    using bt_entries_distinct by (rule distinct_map_filter)
  moreover have "set (map fst ?es) = {service. \<exists>m. bt_get members service = Some m \<and> P (gm_status m)}"
    by (force simp: bt_get_entries_iff)
  ultimately show ?thesis by (metis distinct_card)
qed

lemma dependency_settled_eq:
  "edge_known (gx_members ctx) edge \<Longrightarrow> dependency_settled ctx probe edge = Inr (edge_open ctx probe edge)"
  by (auto simp: dependency_settled_def edge_open_def status_of_def edge_known_def bt_contains_key_def
      Let_def split: option.split)

lemma edges_settled_eq:
  "\<forall>edge\<in>set edges. edge_known (gx_members ctx) edge \<Longrightarrow>
     edges_settled ctx probe edges = Inr (\<forall>edge\<in>set edges. edge_open ctx probe edge)"
  by (induction edges) (auto simp: dependency_settled_eq)

lemma member_action_eq:
  "context_wf ctx \<Longrightarrow> member_action ctx probe member = Inr (member_ready ctx probe member)"
  by (auto simp: member_action_def member_ready_def dependencies_settled_def context_wf_parts edges_of_def
      edges_settled_eq)

lemma collect_ready_eq:
  "context_wf ctx \<Longrightarrow> collect_ready ctx probe members
     = Inr (List.map_filter (\<lambda>member. map_option (Pair member) (member_ready ctx probe member)) members)"
  by (induction members) (auto simp: member_action_eq List.map_filter_simps split: option.split)

lemma ready_list_in:
  assumes "context_wf ctx"
  shows "(m, a) \<in> set (ready_list ctx probe) \<longleftrightarrow>
    bt_get (gx_members ctx) (gm_service m) = Some m \<and> member_ready ctx probe m = Some a"
proof -
  have "m \<in> set (bt_values (gx_members ctx)) \<longleftrightarrow> bt_get (gx_members ctx) (gm_service m) = Some m"
    using assms by (auto simp: set_bt_values ran_def context_wf_def)
  then show ?thesis by (force simp: ready_list_def List.map_filter_def)
qed

lemma distinct_services_values:
  "context_wf ctx \<Longrightarrow> distinct (map gm_service (bt_values (gx_members ctx)))"
proof -
  assume "context_wf ctx"
  then have "map gm_service (bt_values (gx_members ctx)) = bt_keys (gx_members ctx)"
    by (auto simp: bt_values_def bt_keys_def context_wf_def bt_get_entries_iff)
  then show ?thesis by simp
qed

lemma distinct_ready:
  assumes "context_wf ctx"
  shows "distinct (map (gm_service \<circ> fst) (ready_list ctx probe))"
proof -
  have "map fst (ready_list ctx probe)
      = filter (\<lambda>m. member_ready ctx probe m \<noteq> None) (bt_values (gx_members ctx))"
    by (simp add: ready_list_def List.map_filter_def o_def cong: map_cong) (auto intro!: map_idI)
  then show ?thesis
    using distinct_services_values [OF assms] by (metis (no_types) distinct_map_filter map_map)
qed

lemma ready_members_eq:
  assumes "context_wf ctx" "bt_get (gs_contexts s) cid = Some ctx"
  shows "then_do (available_slots s cid limit, s) (\<lambda>slots s. (ready_members s cid slots probe, s))
    = (Inr (map (\<lambda>(m, a). (gm_service m, a)) (chosen ctx probe limit)), s)"
  using assms length_filter_values [of "gx_members ctx" "\<lambda>status. status = MemberRunning"]
  by (simp add: available_slots_def ready_members_def chosen_def collect_ready_eq ready_list_def
      context_wf_parts members_in_def)

text \<open>The context and the answer after the chosen members were released.\<close>

definition released_operation ::
  "graph_execution_context \<Rightarrow> graph_member \<times> ready_graph_operation_action \<Rightarrow> ready_graph_operation" where
  "released_operation ctx = (\<lambda>(member, action).
     \<lparr>go_context_id = gx_id ctx, go_service = gm_service member,
      go_operation_id = gm_operation_id member, go_reserved_job_id = gm_reserved_job_id member,
      go_transition_cause = gm_transition_cause member, go_action = action,
      go_released_from_hold = gm_held_without_clock member\<rparr>)"

definition released_context ::
  "graph_execution_context \<Rightarrow> (string \<Rightarrow> string \<Rightarrow> level_probe) \<Rightarrow> u32 \<Rightarrow> graph_execution_context" where
  "released_context ctx probe limit =
     note_holds_without_clock
       (fold (\<lambda>(member, action). set_status MemberRunning (gm_service member)) (chosen ctx probe limit) ctx)"

lemma get_set_status:
  "bt_get (gx_members (set_status status service ctx)) k =
     (if k = service then map_option (gm_status_update (\<lambda>_. status)) (bt_get (gx_members ctx) k)
      else bt_get (gx_members ctx) k)"
  by (simp add: set_status_def)

lemma status_of_set_status [simp]:
  "status_of (set_status status service ctx) k =
     (if k = service then map_option (\<lambda>_. status) (status_of ctx k) else status_of ctx k)"
  by (simp add: status_of_def get_set_status option.map_comp o_def)

lemma run_members:
  assumes "\<forall>(m, a)\<in>set ready. bt_contains_key (gx_members ctx) (gm_service m)"
  shows "for_each (run_member \<circ> fst) (map (\<lambda>(m, a). (gm_service m, a)) ready) ctx
    = (Inr [], fold (\<lambda>(m, a). set_status MemberRunning (gm_service m)) ready ctx)"
  using assms
proof (induction ready arbitrary: ctx)
  case (Cons r ready)
  obtain m a where r: "r = (m, a)" by (cases r)
  have "\<forall>(m', a')\<in>set ready.
      bt_contains_key (gx_members (set_status MemberRunning (gm_service m) ctx)) (gm_service m')"
    using Cons.prems
    by (simp add: same_shape_contains [OF same_shape_set_status] split: prod.splits)
  then show ?case
    using Cons.IH [of "set_status MemberRunning (gm_service m) ctx"] Cons.prems r
    by (auto simp: run_member_def bt_contains_key_def)
qed simp

lemma get_run:
  "bt_get (gx_members (fold (\<lambda>(m, a). set_status MemberRunning (gm_service m)) ready ctx)) service =
     (if service \<in> (gm_service \<circ> fst) ` set ready
      then map_option (gm_status_update (\<lambda>_. MemberRunning)) (bt_get (gx_members ctx) service)
      else bt_get (gx_members ctx) service)"
proof (induction ready arbitrary: ctx)
  case (Cons r ready)
  then show ?case
    by (cases r) (auto simp: get_set_status option.map_comp o_def image_iff)
qed simp

lemma ready_operations:
  assumes "\<forall>(m, a)\<in>set ready. \<exists>m'. bt_get (gx_members ctx) (gm_service m) = Some m'
      \<and> m' = m\<lparr>gm_status := gm_status m'\<rparr>"
  shows "for_each ready_operation (map (\<lambda>(m, a). (gm_service m, a)) ready) ctx
    = (Inr (map (released_operation ctx) ready), ctx)"
  using assms
proof (induction ready)
  case (Cons r ready)
  obtain m a m' where r: "r = (m, a)" and m': "bt_get (gx_members ctx) (gm_service m) = Some m'"
    "m' = m\<lparr>gm_status := gm_status m'\<rparr>"
    using Cons.prems by (cases r) auto
  have "gm_operation_id m' = gm_operation_id m" "gm_reserved_job_id m' = gm_reserved_job_id m"
    "gm_transition_cause m' = gm_transition_cause m" "gm_held_without_clock m' = gm_held_without_clock m"
    by (subst m'(2); simp)+
  then have "ready_operation (gm_service m, a) ctx = (Inr [released_operation ctx r], ctx)"
    using m'(1) r by (simp add: ready_operation_def released_operation_def)
  then show ?case using Cons r by simp
qed simp

lemma release_ready_eq:
  assumes wf: "context_wf ctx" and get: "bt_get (gs_contexts s) cid = Some ctx" and limit: "limit \<noteq> 0"
  shows "release_ready cid limit probe s =
    (Inr (map (released_operation ctx) (chosen ctx probe limit)),
     s\<lparr>gs_contexts := bt_insert cid (released_context ctx probe limit) (gs_contexts s)\<rparr>)"
proof -
  let ?ready = "chosen ctx probe limit"
  let ?run = "fold (\<lambda>(m, a). set_status MemberRunning (gm_service m)) ?ready ctx"
  have "set ?ready \<subseteq> set (ready_list ctx probe)"
    using set_take_subset by (fastforce simp: chosen_def)
  then have known: "\<forall>(m, a)\<in>set ?ready. bt_get (gx_members ctx) (gm_service m) = Some m"
    using ready_list_in [OF wf] by blast
  then have run: "for_each (run_member \<circ> fst) (map (\<lambda>(m, a). (gm_service m, a)) ?ready) ctx = (Inr [], ?run)"
    by (intro run_members) (auto simp: bt_contains_key_def)
  have "for_each ready_operation (map (\<lambda>(m, a). (gm_service m, a)) ?ready) ?run
      = (Inr (map (released_operation ?run) ?ready), ?run)"
    by (rule ready_operations) (use known in \<open>auto simp: get_run\<close>)
  moreover have "gx_id ?run = gx_id ctx"
    by (rule fold_keeps [where P = "\<lambda>c. gx_id c = gx_id ctx"]) (auto simp: set_status_def)
  then have "released_operation ?run = released_operation ctx"
    by (simp add: released_operation_def)
  ultimately show ?thesis
    using get limit run ready_members_eq [OF wf get, of limit probe]
    by (auto simp: release_ready_def on_context_def released_context_def then_do_eq_Inr)
qed

lemma note_holds_status [simp]: "status_of (note_holds_without_clock ctx) = status_of ctx"
proof -
  have "status_of (ctx\<lparr>gx_members := bt_modify service (gm_held_without_clock_update (\<lambda>_. held)) (gx_members ctx)\<rparr>)
      = status_of ctx" for ctx service held
    by (auto simp: status_of_def fun_eq_iff option.map_comp o_def)
  then show ?thesis
    unfolding note_holds_without_clock_def
    by (intro fold_keeps [where P = "\<lambda>c. status_of c = status_of ctx"]) auto
qed

lemma released_status:
  "status_of (released_context ctx probe limit) service =
     (if service \<in> (gm_service \<circ> fst) ` set (chosen ctx probe limit)
      then map_option (\<lambda>_. MemberRunning) (status_of ctx service) else status_of ctx service)"
  by (simp add: released_context_def) (auto simp: status_of_def get_run option.map_comp o_def)

lemma released_shape: "same_shape ctx (released_context ctx probe limit)"
proof -
  have "same_shape ctx (fold (\<lambda>(m, a). set_status MemberRunning (gm_service m)) (chosen ctx probe limit) ctx)"
    by (rule same_shape_fold) auto
  then show ?thesis unfolding released_context_def by (rule same_shape_trans) simp
qed

lemma chosen_in:
  "context_wf ctx \<Longrightarrow> (m, a) \<in> set (chosen ctx probe limit) \<Longrightarrow>
     bt_get (gx_members ctx) (gm_service m) = Some m \<and> member_ready ctx probe m = Some a"
  using ready_list_in [of ctx m a probe] by (auto simp: chosen_def dest: in_set_takeD)

lemma chosen_status:
  assumes "context_wf ctx" "service \<in> (gm_service \<circ> fst) ` set (chosen ctx probe limit)"
  shows "\<exists>status. status_of ctx service = Some status"
proof -
  obtain m a where "(m, a) \<in> set (chosen ctx probe limit)" "service = gm_service m"
    using assms(2) by auto
  then show ?thesis using chosen_in [OF assms(1)] by (auto simp: status_of_def)
qed

lemma distinct_chosen:
  assumes "context_wf ctx"
  shows "distinct (map (gm_service \<circ> fst) (chosen ctx probe limit))"
proof -
  let ?sorted = "sort_key (\<lambda>(member, action). gm_sequence member) (ready_list ctx probe)"
  have "distinct (map (gm_service \<circ> fst) ?sorted)"
    using distinct_ready [OF assms] by (simp add: distinct_map)
  then show ?thesis unfolding chosen_def by (simp only: take_map [symmetric] distinct_take)
qed

lemma released_running:
  assumes wf: "context_wf ctx"
  shows "card (members_in (\<lambda>status. status = MemberRunning) (released_context ctx probe limit))
    = card (members_in (\<lambda>status. status = MemberRunning) ctx) + length (chosen ctx probe limit)"
proof -
  let ?new = "(gm_service \<circ> fst) ` set (chosen ctx probe limit)"
  have running: "members_in (\<lambda>status. status = MemberRunning) c = {k. status_of c k = Some MemberRunning}" for c
    by (auto simp: members_in_def status_of_def)
  have new: "status_of ctx k \<noteq> Some MemberRunning \<and> status_of ctx k \<noteq> None" if "k \<in> ?new" for k
    using that chosen_in [OF wf] by (fastforce simp: status_of_def member_ready_def split: if_splits)
  have "members_in (\<lambda>status. status = MemberRunning) (released_context ctx probe limit)
      = members_in (\<lambda>status. status = MemberRunning) ctx \<union> ?new"
    unfolding running using new by (auto simp: released_status split: if_splits)
  moreover have "members_in (\<lambda>status. status = MemberRunning) ctx \<inter> ?new = {}"
    unfolding running using new by auto
  moreover have "card ?new = length (chosen ctx probe limit)"
    using distinct_card [OF distinct_chosen [OF wf, of probe limit]] by simp
  ultimately show ?thesis by (simp add: card_Un_disjoint)
qed

lemma unchosen_not_ready:
  assumes wf: "context_wf ctx" and m: "bt_get (gx_members ctx) service = Some m"
    and not: "service \<notin> (gm_service \<circ> fst) ` set (chosen ctx probe limit)"
    and room: "card (members_in (\<lambda>status. status = MemberRunning) ctx) + length (chosen ctx probe limit) < unat limit"
  shows "member_ready ctx probe m = None"
proof (rule ccontr)
  assume "member_ready ctx probe m \<noteq> None"
  then obtain a where a: "member_ready ctx probe m = Some a" by auto
  have service: "gm_service m = service" using wf m by (simp add: context_wf_def)
  have "(m, a) \<in> set (ready_list ctx probe)" using ready_list_in [OF wf] a m service by simp
  moreover have "length (chosen ctx probe limit) < unat limit - card (members_in (\<lambda>status. status = MemberRunning) ctx)"
    using room by simp
  then have "chosen ctx probe limit = sort_key (\<lambda>(member, action). gm_sequence member) (ready_list ctx probe)"
    by (auto simp: chosen_def)
  ultimately have "(m, a) \<in> set (chosen ctx probe limit)" by simp
  then show False using not service by force
qed

section \<open>Runs of the store\<close>

text \<open>
  A step of the store, labelled with the operation it is about. A call that fails is a step too:
  it keeps what it changed before the error. A new context is only created while the counter of
  context ids has not run out.
\<close>

inductive graph_step :: "operation_id option \<Rightarrow> graph_execution_store \<Rightarrow> graph_execution_store \<Rightarrow> bool" where
  boot: "gs_next_context_id s \<noteq> word_max \<Longrightarrow>
    graph_step None s (snd (create_boot_context plan definitions s))"
| on_demand: "gs_next_context_id s \<noteq> word_max \<Longrightarrow>
    graph_step None s (snd (create_on_demand_context dispatch services s))"
| release: "graph_step None s (snd (release_ready cid limit probe s))"
| checked: "graph_step (Some op) s (snd (apply_pre_start_check_passed op s))"
| satisfied: "graph_step (Some op) s (snd (apply_operation_satisfied op s))"
| failed: "graph_step (Some op) s (snd (apply_operation_failed op s))"
| awaiting: "graph_step (Some op) s (snd (apply_operation_awaiting_restart op s))"
| settled: "graph_step None s (snd (settle_awaiting_restart service out s))"
| pruned: "graph_step (Some op) s (snd (prune_dormant_dependencies op s))"
| cleared: "graph_step (Some op) s (clear_recorded_operation_hold op s)"
| retired: "graph_step None s (snd (retire_drained_contexts s))"

inductive graph_run :: "graph_execution_store \<Rightarrow> bool" where
  new: "graph_run graph_store_new"
| step: "graph_run s \<Longrightarrow> graph_step label s s' \<Longrightarrow> graph_run s'"

lemma graph_store_new_wf: "graph_store_wf graph_store_new"
  by (simp add: graph_store_wf_def graph_store_new_def bt_get_or_def)

lemma create_wf:
  assumes "graph_store_wf s" "gs_next_context_id s \<noteq> word_max"
  shows "graph_store_wf (snd (create_boot_context plan definitions s))"
    "graph_store_wf (snd (create_on_demand_context dispatch services s))"
  using assms boot_context_wf on_demand_context_wf insert_context_wf
  by (auto simp: create_boot_context_def create_on_demand_context_def split: sum.split)

lemma release_ready_wf:
  assumes wf: "graph_store_wf s"
  shows "graph_store_wf (snd (release_ready cid limit probe s))"
proof (cases "limit = 0 \<or> bt_get (gs_contexts s) cid = None")
  case True
  then show ?thesis using wf by (auto simp: release_ready_def available_slots_def)
next
  case False
  then obtain ctx where get: "bt_get (gs_contexts s) cid = Some ctx" and limit: "limit \<noteq> 0" by auto
  show ?thesis
    using store_wf_update [OF wf get released_shape]
    by (simp add: release_ready_eq [OF graph_store_wfD(3) [OF wf get] get limit])
qed

lemma settle_awaiting_restart_ok:
  assumes wf: "graph_store_wf s"
  shows "outcome_ok (loop_inv s) ended_already (settle_awaiting_restart service out s)"
  unfolding settle_awaiting_restart_def
proof (rule outcome_ok_for_each)
  show "loop_inv s s" by (rule loop_inv_refl [OF wf])
  fix cid s'
  assume "cid \<in> set (bt_keys (gs_contexts s))" and inv: "loop_inv s s'"
  then have "cid \<in> dom (bt_get (gs_contexts s'))" by (simp add: set_bt_keys loop_inv_def)
  then show "outcome_ok (loop_inv s) ended_already (on_context cid (settle_context_restart service out) s')"
    using inv graph_store_wfD(3) [OF loop_inv_wf [OF inv]]
    by (intro on_context_ok settle_context_restart_ok) auto
qed

lemma then_do_return: "then_do r (\<lambda>a s. (Inr a, s)) = r"
  by (cases r; cases "fst r") auto

lemma apply_terminals_ok:
  "graph_store_wf s \<Longrightarrow>
     outcome_ok (loop_inv s) ended_already (for_each (apply_context_terminal op out) (associated_contexts s op) s)"
  by (rule settling.store_ok [where k = "\<lambda>_ a s. (Inr a, s)"])
    (auto simp: apply_context_terminal_def then_do_return)

lemma apply_operation_terminal_ok:
  assumes wf: "graph_store_wf s"
  shows "outcome_ok graph_store_wf ended_already (apply_operation_terminal op out s)"
proof -
  have "outcome_ok graph_store_wf ended_already (settle_awaiting_restart service out s')"
    if "graph_store_wf s'" for service s'
    using settle_awaiting_restart_ok [OF that] by (rule outcome_ok_weaken) (rule loop_inv_wf)
  moreover have "outcome_ok graph_store_wf ended_already
      (for_each (apply_context_terminal op out) (associated_contexts s op) s)"
    using apply_terminals_ok [OF wf] by (rule outcome_ok_weaken) (rule loop_inv_wf)
  ultimately show ?thesis
    unfolding apply_operation_terminal_def
    by (auto intro!: outcome_ok_then split: list.split)
qed

lemma associated_operations_ok:
  assumes "graph_store_wf s"
  shows "outcome_ok (loop_inv s) ended_already (apply_pre_start_check_passed op s)"
    "outcome_ok (loop_inv s) ended_already (apply_operation_awaiting_restart op s)"
    "outcome_ok (loop_inv s) ended_already (prune_dormant_dependencies op s)"
  unfolding apply_pre_start_check_passed_def apply_operation_awaiting_restart_def prune_dormant_dependencies_def
proof goal_cases
  case 1
  show ?case
    by (rule pre_check.store_ok [OF assms, where k = "\<lambda>cid changed s. (Inr (if changed then [cid] else []), s)"]) auto
next
  case 2
  show ?case by (rule holding.store_ok [OF assms, where k = "\<lambda>cid _ s. (Inr [cid], s)"]) auto
next
  case 3
  show ?case
    by (rule pruning.store_ok [OF assms, where k = "\<lambda>_ a s. (Inr a, s)"]) (auto simp: then_do_return)
qed

lemma clear_hold_wf:
  assumes "graph_store_wf s"
  shows "graph_store_wf (clear_recorded_operation_hold op s)"
  unfolding clear_recorded_operation_hold_def
proof (rule fold_keeps [where P = graph_store_wf, OF _ assms])
  fix cid s'
  assume "graph_store_wf s'"
  then show "graph_store_wf (s'\<lparr>gs_contexts := bt_modify cid (clear_context_hold op) (gs_contexts s')\<rparr>)"
    using store_wf_update [OF _ _ same_shape_clear_hold] by (auto simp: bt_modify_def split: option.split)
qed

lemma bt_get_fold_remove:
  "bt_get (fold bt_remove ks m) k = (if k \<in> set ks then None else bt_get m k)"
  by (induction ks arbitrary: m) auto

lemma ffilter_none: "ffilter P xs = {||} \<Longrightarrow> x |\<in>| xs \<Longrightarrow> \<not> P x"
  by (metis ffmember_filter fempty_iff)

lemma retire_wf:
  assumes wf: "graph_store_wf s"
  shows "graph_store_wf (snd (retire_drained_contexts s))"
proof -
  let ?retired = "map gx_id (filter is_drained (bt_values (gs_contexts s)))"
  let ?assoc = "bt_filter (\<lambda>(op, cids). cids \<noteq> {||})
      (bt_map_values (ffilter (\<lambda>cid. cid \<notin> set ?retired)) (gs_associations s))"
  have "cid |\<in>| bt_get_or {||} ?assoc op \<longleftrightarrow>
      cid |\<in>| bt_get_or {||} (gs_associations s) op \<and> cid \<notin> set ?retired" for cid op
    by (cases "bt_get (gs_associations s) op") (auto simp: bt_get_or_def split: option.split dest!: ffilter_none)
  then show ?thesis
    using wf by (auto simp: retire_drained_contexts_def Let_def graph_store_wf_def bt_get_fold_remove)
qed

lemma graph_step_wf: "graph_step label s s' \<Longrightarrow> graph_store_wf s \<Longrightarrow> graph_store_wf s'"
proof (induction rule: graph_step.induct)
  case (satisfied op s)
  then show ?case
    using apply_operation_terminal_ok by (simp add: apply_operation_satisfied_def outcome_ok_def)
next
  case (failed op s)
  then show ?case
    using apply_operation_terminal_ok by (simp add: apply_operation_failed_def outcome_ok_def)
next
  case (checked op s)
  then show ?case using associated_operations_ok(1) by (simp add: outcome_ok_def loop_inv_def)
next
  case (awaiting op s)
  then show ?case using associated_operations_ok(2) by (simp add: outcome_ok_def loop_inv_def)
next
  case (pruned op s)
  then show ?case using associated_operations_ok(3) by (simp add: outcome_ok_def loop_inv_def)
next
  case (settled s service out)
  then show ?case using settle_awaiting_restart_ok by (simp add: outcome_ok_def loop_inv_def)
qed (simp_all add: create_wf release_ready_wf clear_hold_wf retire_wf)

lemma graph_run_wf: "graph_run s \<Longrightarrow> graph_store_wf s"
  by (induction rule: graph_run.induct) (auto intro: graph_store_new_wf graph_step_wf)

section \<open>How far a failure spreads\<close>

abbreviation failable :: "graph_execution_context \<Rightarrow> string set" where
  "failable \<equiv> members_in may_fail_with_dependency"

definition hard_edge_between :: "graph_execution_context \<Rightarrow> string \<Rightarrow> string \<Rightarrow> bool" where
  "hard_edge_between ctx target dependent \<longleftrightarrow>
     (\<exists>edge\<in>set (gx_dependencies ctx). gd_target edge = target \<and> gd_dependent edge = dependent
        \<and> gd_kind edge \<in> {Requires, BindsTo})"

definition fails_with :: "graph_execution_context \<Rightarrow> (string \<times> string) set" where
  "fails_with ctx = {(target, dependent). hard_edge_between ctx target dependent \<and> dependent \<in> failable ctx}"

definition spread ::
  "graph_execution_context \<Rightarrow> string list \<Rightarrow> string set \<Rightarrow> graph_execution_context \<Rightarrow> bool" where
  "spread ctx ds F ctx' \<longleftrightarrow>
     gx_dependencies ctx' = gx_dependencies ctx \<and> F \<subseteq> failable ctx
     \<and> (\<forall>k. status_of ctx' k = (if k \<in> F then Some MemberFailed else status_of ctx k))
     \<and> set ds \<inter> failable ctx' = {}
     \<and> (\<forall>f d. f \<in> F \<and> hard_edge_between ctx f d \<longrightarrow> d \<notin> failable ctx')
     \<and> F \<subseteq> (fails_with ctx)\<^sup>* `` (set ds \<inter> failable ctx)"

lemma failable_status: "k \<in> failable ctx \<longleftrightarrow> (\<exists>status. status_of ctx k = Some status \<and> may_fail_with_dependency status)"
  by (auto simp: members_in_def status_of_def)

lemma failed_not_failable: "\<not> may_fail_with_dependency MemberFailed"
  by (simp add: may_fail_with_dependency_def)

lemma set_graph_hard_dependents:
  "set (graph_hard_dependents ctx service) = {d. (service, d) \<in> fails_with ctx}"
  by (auto simp: graph_hard_dependents_def fails_with_def hard_edge_between_def members_in_def
      split: option.splits)

lemma spread_failable: "spread ctx ds F ctx' \<Longrightarrow> failable ctx' = failable ctx - F"
  by (auto simp: spread_def failable_status failed_not_failable split: if_splits)

lemma spread_Nil: "spread ctx [] {} ctx"
  by (simp add: spread_def)

lemma spread_skip: "d \<notin> failable ctx \<Longrightarrow> spread ctx ds F ctx' \<Longrightarrow> spread ctx (d # ds) F ctx'"
proof -
  assume d: "d \<notin> failable ctx" and spread: "spread ctx ds F ctx'"
  have "set (d # ds) \<inter> failable ctx = set ds \<inter> failable ctx"
    "set (d # ds) \<inter> failable ctx' = set ds \<inter> failable ctx'"
    using d spread_failable [OF spread] by auto
  then show ?thesis using spread unfolding spread_def by presburger
qed

lemma spread_step:
  assumes d: "d \<in> failable ctx"
    and first: "spread (set_status MemberFailed d ctx) (graph_hard_dependents (set_status MemberFailed d ctx) d) F1 ctx2"
    and rest: "spread ctx2 ds F2 ctx3"
  shows "spread ctx (d # ds) (insert d (F1 \<union> F2)) ctx3"
proof -
  let ?ctx1 = "set_status MemberFailed d ctx"
  have fail1: "failable ?ctx1 = failable ctx - {d}"
    by (rule members_in_set_status) (rule failed_not_failable)
  have deps: "hard_edge_between ?ctx1 = hard_edge_between ctx" "hard_edge_between ctx2 = hard_edge_between ctx"
    using first by (auto simp: hard_edge_between_def fun_eq_iff spread_def set_status_def)
  have fail2: "failable ctx2 = failable ctx - insert d F1" using spread_failable [OF first] fail1 by auto
  have fail3: "failable ctx3 = failable ctx - insert d (F1 \<union> F2)" using spread_failable [OF rest] fail2 by auto
  have sub: "fails_with ?ctx1 \<subseteq> fails_with ctx" "fails_with ctx2 \<subseteq> fails_with ctx"
    using fail1 fail2 by (auto simp: fails_with_def deps)
  have "F1 \<subseteq> (fails_with ?ctx1)\<^sup>* `` {x. (d, x) \<in> fails_with ?ctx1}"
    using first by (auto simp: spread_def set_graph_hard_dependents)
  also have "\<dots> \<subseteq> (fails_with ctx)\<^sup>* `` {d}"
    using sub(1) rtrancl_mono [OF sub(1)] by (auto intro: converse_rtrancl_into_rtrancl)
  finally have reach1: "F1 \<subseteq> (fails_with ctx)\<^sup>* `` {d}" .
  have "F2 \<subseteq> (fails_with ctx2)\<^sup>* `` (set ds \<inter> failable ctx2)"
    using rest by (simp add: spread_def)
  also have "\<dots> \<subseteq> (fails_with ctx)\<^sup>* `` (set ds \<inter> failable ctx)"
    using rtrancl_mono [OF sub(2)] fail2 by blast
  finally have reach2: "F2 \<subseteq> (fails_with ctx)\<^sup>* `` (set ds \<inter> failable ctx)" .
  have closed: "y \<notin> failable ctx3" if "f \<in> insert d (F1 \<union> F2)" "hard_edge_between ctx f y" for f y
  proof
    assume y: "y \<in> failable ctx3"
    have "f \<noteq> d"
    proof
      assume "f = d"
      then have "y \<in> set (graph_hard_dependents ?ctx1 d)"
        using that(2) y fail3 fail1 by (simp add: set_graph_hard_dependents fails_with_def deps)
      then show False using first y fail2 fail3 by (auto simp: spread_def)
    qed
    moreover have "f \<notin> F1" using first that(2) y fail2 fail3 deps by (auto simp: spread_def)
    moreover have "f \<notin> F2" using rest that(2) y deps by (auto simp: spread_def)
    ultimately show False using that(1) by blast
  qed
  have status: "status_of ctx3 k = (if k \<in> insert d (F1 \<union> F2) then Some MemberFailed else status_of ctx k)" for k
  proof -
    have "\<exists>status. status_of ctx d = Some status" using d by (auto simp: failable_status)
    then show ?thesis using first rest by (auto simp: spread_def)
  qed
  have "insert d (F1 \<union> F2) \<subseteq> failable ctx"
    using d first rest fail1 fail2 by (auto simp: spread_def)
  moreover have "set (d # ds) \<inter> failable ctx3 = {}"
    using rest fail3 by (auto simp: spread_def)
  moreover have "insert d (F1 \<union> F2) \<subseteq> (fails_with ctx)\<^sup>* `` (set (d # ds) \<inter> failable ctx)"
    using d reach1 reach2 by auto
  moreover have "gx_dependencies ctx3 = gx_dependencies ctx"
    using first rest by (simp add: spread_def set_status_def)
  ultimately show ?thesis using closed status unfolding spread_def by blast
qed

lemma fail_dependents_spread:
  "fail_dependents ds ctx = (Inr events, ctx') \<Longrightarrow>
     spread ctx ds (ge_service ` set events) ctx' \<and> distinct (map ge_service events)"
proof (induction ds ctx arbitrary: events ctx' rule: fail_dependents.induct)
  case (1 ctx)
  then show ?case by (simp add: spread_Nil)
next
  case (2 d ds ctx)
  then obtain m where m: "bt_get (gx_members ctx) d = Some m"
    by (cases "bt_get (gx_members ctx) d") simp_all
  have d: "d \<in> failable ctx \<longleftrightarrow> may_fail_with_dependency (gm_status m)"
    using m by (simp add: members_in_def)
  show ?case
  proof (cases "may_fail_with_dependency (gm_status m)")
    case False
    then have "fail_dependents ds ctx = (Inr events, ctx')" using 2(4) m by simp
    then show ?thesis using 2(1) [OF m False] spread_skip d False by blast
  next
    case True
    let ?ctx1 = "set_status MemberFailed d ctx"
    have mark: "mark_terminal d OutcomeFailed ctx = (Inr (), ?ctx1)"
      using mark_terminal_failable [OF m True] by simp
    obtain es1 ctx2 es2 where first: "fail_dependents (graph_hard_dependents ?ctx1 d) ?ctx1 = (Inr es1, ctx2)"
      and rest: "fail_dependents ds ctx2 = (Inr es2, ctx')"
      and events: "events = terminal_event ctx d (gm_operation_id m) OutcomeFailed # es1 @ es2"
      using 2(4) m True mark by (auto simp: then_do_eq_Inr)
    have s1: "spread ?ctx1 (graph_hard_dependents ?ctx1 d) (ge_service ` set es1) ctx2" "distinct (map ge_service es1)"
      using 2(2) [OF m _ mark first] True by simp_all
    have s2: "spread ctx2 ds (ge_service ` set es2) ctx'" "distinct (map ge_service es2)"
      using 2(3) [OF m _ mark first rest] True by simp_all
    have "spread ctx (d # ds) (ge_service ` set events) ctx'"
      using spread_step [OF _ s1(1) s2(1)] d True events by (simp add: terminal_event_def image_Un)
    moreover have "failable ?ctx1 = failable ctx - {d}"
      by (rule members_in_set_status) (rule failed_not_failable)
    then have "ge_service ` set es1 \<subseteq> failable ctx - {d}"
      "ge_service ` set es2 \<subseteq> failable ctx - {d} - ge_service ` set es1"
      using s1(1) s2(1) spread_failable [OF s1(1)] by (simp_all add: spread_def)
    then have "distinct (map ge_service events)"
      using s1(2) s2(2) events by (auto simp: terminal_event_def)
    ultimately show ?thesis ..
  qed
qed

text \<open>
  The members that fail with a service are those that can be reached from it along hard edges
  through members that wait for their dependencies or run.
\<close>

lemma spread_exactly:
  assumes "spread ctx (graph_hard_dependents ctx service) F ctx'"
  shows "F = (fails_with ctx)\<^sup>+ `` {service}"
proof -
  let ?ds = "{d. (service, d) \<in> fails_with ctx}"
  have fail: "failable ctx' = failable ctx - F" using spread_failable [OF assms] .
  have start: "?ds \<inter> failable ctx = ?ds" by (auto simp: fails_with_def)
  have "F \<subseteq> (fails_with ctx)\<^sup>* `` ?ds"
    using assms start by (simp add: spread_def set_graph_hard_dependents)
  then have "F \<subseteq> (fails_with ctx)\<^sup>+ `` {service}"
    by (auto intro: rtrancl_into_trancl2)
  moreover have "x \<in> F" if "(service, x) \<in> (fails_with ctx)\<^sup>+" for x
    using that
  proof (induction rule: trancl_induct)
    case (base y)
    then have "y \<notin> failable ctx'" using assms by (auto simp: spread_def set_graph_hard_dependents)
    then show ?case using base fail by (simp add: fails_with_def)
  next
    case (step y z)
    then have "z \<notin> failable ctx'" using assms by (auto simp: spread_def fails_with_def)
    then show ?case using step(2) fail by (simp add: fails_with_def)
  qed
  ultimately show ?thesis by blast
qed

lemma fails_with_after_failing:
  "(fails_with (set_status MemberFailed service ctx))\<^sup>* `` {service} = (fails_with ctx)\<^sup>* `` {service}"
proof -
  let ?R = "fails_with ctx" and ?S = "fails_with (set_status MemberFailed service ctx)"
  have eq: "?S = ?R - UNIV \<times> {service}"
    using members_in_set_status [of may_fail_with_dependency, OF failed_not_failable]
    by (auto simp: fails_with_def hard_edge_between_def set_status_def)
  have "(service, x) \<in> ?S\<^sup>*" if "(service, x) \<in> ?R\<^sup>*" for x
    using that
  proof (induction rule: rtrancl_induct)
    case (step y z)
    then show ?case by (cases "z = service") (auto simp: eq intro: rtrancl_into_rtrancl)
  qed simp
  moreover have "?S\<^sup>* \<subseteq> ?R\<^sup>*" by (rule rtrancl_mono) (auto simp: eq)
  ultimately show ?thesis by blast
qed

lemma rtrancl_Image_insert: "insert x (R\<^sup>+ `` {x}) = R\<^sup>* `` {x}"
  by (auto simp: rtrancl_eq_or_trancl)

lemma settle_member_failed:
  assumes wf: "context_wf ctx" and m: "bt_get (gx_members ctx) service = Some m"
    and live: "\<not> member_is_terminal (gm_status m)"
  obtains events ctx' where "settle_member OutcomeFailed op service ctx = (Inr events, ctx')"
    "ge_service ` set events = (fails_with ctx)\<^sup>* `` {service}" "distinct (map ge_service events)"
    "\<And>k. status_of ctx' k = (if k \<in> ge_service ` set events then Some MemberFailed else status_of ctx k)"
proof -
  let ?ctx1 = "set_status MemberFailed service ctx"
  let ?ds = "graph_hard_dependents ?ctx1 service"
  have mark: "mark_terminal service OutcomeFailed ctx = (Inr (), ?ctx1)"
    using m live by (simp add: mark_terminal_def)
  have "outcome_ok (same_shape ?ctx1) (\<lambda>_. False) (propagate_hard_dependency_failure service ?ctx1)"
    by (rule propagate_ok) (simp add: context_wf_mono [OF same_shape_set_status wf])
  then obtain es ctx' where run: "propagate_hard_dependency_failure service ?ctx1 = (Inr es, ctx')"
    by (cases "propagate_hard_dependency_failure service ?ctx1"; cases "fst (propagate_hard_dependency_failure service ?ctx1)")
      auto
  have spread: "spread ?ctx1 ?ds (ge_service ` set es) ctx'" "distinct (map ge_service es)"
    using fail_dependents_spread run by (simp_all add: propagate_hard_dependency_failure_def)
  let ?events = "terminal_event ctx service op OutcomeFailed # es"
  have services: "ge_service ` set ?events = (fails_with ctx)\<^sup>* `` {service}"
    using spread_exactly [OF spread(1)]
    by (simp add: terminal_event_def rtrancl_Image_insert fails_with_after_failing)
  have "service \<notin> ge_service ` set es"
    using spread(1) members_in_set_status [of may_fail_with_dependency, OF failed_not_failable]
    by (auto simp: spread_def)
  then have "distinct (map ge_service ?events)" using spread(2) by (simp add: terminal_event_def)
  moreover have "status_of ctx' k = (if k \<in> ge_service ` set ?events then Some MemberFailed else status_of ctx k)" for k
    using spread(1) m by (auto simp: spread_def terminal_event_def status_of_def get_set_status)
  moreover have "settle_member OutcomeFailed op service ctx = (Inr ?events, ctx')"
    using mark run by (simp add: settle_member_def)
  ultimately show ?thesis using that [of ?events ctx'] services by blast
qed

section \<open>Properties\<close>

definition sample_graph_plan :: phase2_boot_plan where
  "sample_graph_plan =
     \<lparr>bp_mode = FullBoot, bp_observed_at_ns = 1, bp_max_parallel_starts = 4,
      bp_starts =
        [\<lparr>ps_service = ''b'', ps_operation_id = sample_id 1, ps_job_id = JobId (UuidV7 (replicate 16 0)),
          ps_cause = StartDependency, ps_identity = ''SYSTEM''\<rparr>,
         \<lparr>ps_service = ''a'', ps_operation_id = sample_id 2, ps_job_id = JobId (UuidV7 (replicate 16 0)),
          ps_cause = StartExplicit, ps_identity = ''SYSTEM''\<rparr>],
      bp_blocked = [], bp_safe_mode_downgrade = [], bp_warnings = []\<rparr>"

definition sample_graph :: graph_execution_store where
  "sample_graph = snd (apply_pre_start_check_passed (sample_id 2)
     (snd (create_boot_context sample_graph_plan sample_services graph_store_new)))"

lemma sample_graph_run: "graph_run sample_graph"
  unfolding sample_graph_def
  by (rule step [OF step [OF new boot] checked]) (simp add: graph_store_new_def word_max_def)

text \<open>
  C5: In every store of execution graphs that the operations can reach, each context stands under
  its own id, every edge joins members that exist, and an operation is associated with exactly the
  contexts that have a member for it. So no lookup of the scheduler misses: reporting the end, the
  check or the restart of an operation, pruning and settling fail only because a member has ended
  already, and a release fails only for a limit of zero or an unknown context.\<close>

theorem graph_lookups_never_miss:
  assumes "graph_run s"
  shows "graph_store_wf s
    \<and> outcome_ok graph_store_wf ended_already (apply_operation_satisfied op s)
    \<and> outcome_ok graph_store_wf ended_already (apply_operation_failed op s)
    \<and> outcome_ok graph_store_wf ended_already (apply_operation_awaiting_restart op s)
    \<and> outcome_ok graph_store_wf ended_already (apply_pre_start_check_passed op s)
    \<and> outcome_ok graph_store_wf ended_already (prune_dormant_dependencies op s)
    \<and> outcome_ok graph_store_wf ended_already (settle_awaiting_restart service out s)
    \<and> outcome_ok graph_store_wf (\<lambda>e. e = InvalidParallelLimit \<and> limit = 0
          \<or> e = UnknownContext cid \<and> limit \<noteq> 0 \<and> bt_get (gs_contexts s) cid = None)
        (release_ready cid limit probe s)"
proof (intro conjI)
  show wf: "graph_store_wf s" by (rule graph_run_wf [OF assms])
  show "outcome_ok graph_store_wf (\<lambda>e. e = InvalidParallelLimit \<and> limit = 0
      \<or> e = UnknownContext cid \<and> limit \<noteq> 0 \<and> bt_get (gs_contexts s) cid = None)
      (release_ready cid limit probe s)"
  proof (cases "limit = 0 \<or> bt_get (gs_contexts s) cid = None")
    case True
    then show ?thesis using wf by (auto simp: release_ready_def available_slots_def)
  next
    case False
    then obtain ctx where get: "bt_get (gs_contexts s) cid = Some ctx" and limit: "limit \<noteq> 0" by auto
    then show ?thesis
      using release_ready_wf [OF wf, of cid limit probe]
      by (simp add: release_ready_eq [OF graph_store_wfD(3) [OF wf get] get limit])
  qed
  show "outcome_ok graph_store_wf ended_already (apply_operation_awaiting_restart op s)"
    by (rule outcome_ok_weaken [OF associated_operations_ok(2) [OF wf] loop_inv_wf])
  show "outcome_ok graph_store_wf ended_already (apply_pre_start_check_passed op s)"
    by (rule outcome_ok_weaken [OF associated_operations_ok(1) [OF wf] loop_inv_wf])
  show "outcome_ok graph_store_wf ended_already (prune_dormant_dependencies op s)"
    by (rule outcome_ok_weaken [OF associated_operations_ok(3) [OF wf] loop_inv_wf])
  show "outcome_ok graph_store_wf ended_already (settle_awaiting_restart service out s)"
    by (rule outcome_ok_weaken [OF settle_awaiting_restart_ok [OF wf] loop_inv_wf])
qed (use apply_operation_terminal_ok [OF graph_run_wf [OF assms]] in
    \<open>simp_all add: apply_operation_satisfied_def apply_operation_failed_def\<close>)

theorem graph_lookups_never_miss_witness:
  "graph_store_wf sample_graph
   \<and> fst (release_ready 7 4 (\<lambda>_ _. LevelAbsent) sample_graph) = Inl (UnknownContext 7)"
proof -
  have "bt_get (gs_contexts sample_graph) 7 = None" by code_simp
  then have "\<exists>e. fst (release_ready 7 4 (\<lambda>_ _. LevelAbsent) sample_graph) = Inl e"
    by (simp add: release_ready_def available_slots_def)
  moreover have "outcome_ok graph_store_wf (\<lambda>e. e = InvalidParallelLimit \<and> (4 :: u32) = 0
      \<or> e = UnknownContext 7 \<and> (4 :: u32) \<noteq> 0 \<and> bt_get (gs_contexts sample_graph) 7 = None)
      (release_ready 7 4 (\<lambda>_ _. LevelAbsent) sample_graph)" and "graph_store_wf sample_graph"
    using graph_lookups_never_miss [OF sample_graph_run] by blast+
  ultimately show ?thesis by (auto simp: outcome_ok_def)
qed





end
