(* ===== verification/Graph_Stranding.thy ===== *)
theory Graph_Stranding
  imports Graph_Runs
begin

text \<open>
  A member of an execution graph that nothing will ever wake. A dormant member is woken by the
  check of a member that depends on it (\<open>activate_dependencies\<close>) and otherwise only when nothing
  depends on it at all (\<open>activate_roots\<close>). When every member that depends on it has ended, neither
  can happen any more: the lemmas show that it stays dormant, or is pruned, whatever the store is
  told about the other operations, and that it is never released. A boot runs into this when the
  only services that depend on a boot service are blocked, because the members of blocked services
  are created as failed.

  The locale \<open>sparing_operation\<close> extends the contract of the operations on a member with the law
  that such a member is spared.
\<close>

section \<open>Stranded members\<close>

definition stranded :: "string \<Rightarrow> graph_execution_context \<Rightarrow> bool" where
  "stranded a ctx \<longleftrightarrow>
     status_of ctx a \<in> {Some Dormant, Some Pruned}
     \<and> (\<forall>edge\<in>set (gx_dependencies ctx). gd_target edge = a \<longrightarrow>
          (\<exists>status. status_of ctx (gd_dependent edge) = Some status \<and> member_is_terminal status))"

definition stranded_at :: "graph_context_id \<Rightarrow> string \<Rightarrow> operation_id \<Rightarrow> graph_execution_store \<Rightarrow> bool" where
  "stranded_at cid a op s \<longleftrightarrow>
     (\<exists>ctx m. bt_get (gs_contexts s) cid = Some ctx \<and> stranded a ctx
        \<and> bt_get (gx_members ctx) a = Some m \<and> gm_operation_id m = op)"

lemma stranded_change:
  assumes "stranded a ctx" "gx_dependencies ctx' = gx_dependencies ctx"
    and "\<And>k status. status_of ctx k = Some status \<Longrightarrow> member_is_terminal status \<Longrightarrow> status_of ctx' k = Some status"
    and "status_of ctx a = Some Dormant \<Longrightarrow> status_of ctx' a \<in> {Some Dormant, Some Pruned}"
  shows "stranded a ctx'"
proof -
  have "status_of ctx' a \<in> {Some Dormant, Some Pruned}"
    using assms(1,3,4) by (auto simp: stranded_def member_is_terminal_def)
  then show ?thesis using assms(1-3) by (fastforce simp: stranded_def)
qed

lemma stranded_set_status:
  assumes "stranded a ctx" "service \<noteq> a" "status_of ctx service = Some old" "\<not> member_is_terminal old"
  shows "stranded a (set_status status service ctx)"
  by (rule stranded_change [OF assms(1)]) (use assms(2-4) in \<open>auto simp: same_shape_ids(2) [OF same_shape_set_status]\<close>)

lemma stranded_note_holds: "stranded a ctx \<Longrightarrow> stranded a (note_holds_without_clock ctx)"
  by (rule stranded_change) (auto simp: same_shape_ids(2) [OF same_shape_note_holds])

definition wake :: "string \<Rightarrow> graph_execution_context \<Rightarrow> graph_execution_context" where
  "wake target c = c\<lparr>gx_members := bt_modify target (\<lambda>member.
     if gm_status member = Dormant then member\<lparr>gm_status := WaitingForPreStartCheck\<rparr>
     else member) (gx_members c)\<rparr>"

lemma status_of_wake:
  "status_of (wake target c) k =
     (if k = target \<and> status_of c k = Some Dormant then Some WaitingForPreStartCheck else status_of c k)"
  by (cases "bt_get (gx_members c) target") (auto simp: wake_def status_of_def)

lemma status_of_activate:
  "status_of (activate_dependencies service ctx) k =
     (if status_of ctx k = Some Dormant \<and> k \<in> gd_target ` set (edges_of ctx service)
      then Some WaitingForPreStartCheck else status_of ctx k)"
proof -
  have "status_of (fold wake targets ctx) k =
      (if status_of ctx k = Some Dormant \<and> k \<in> set targets then Some WaitingForPreStartCheck
       else status_of ctx k)" for targets
    by (induction targets arbitrary: ctx) (simp_all add: status_of_wake)
  then show ?thesis by (simp add: activate_dependencies_def wake_def [abs_def])
qed

lemma stranded_pre_check:
  assumes "stranded a ctx" "service \<noteq> a" "status_of ctx service = Some old" "\<not> member_is_terminal old"
  shows "stranded a (activate_dependencies service (set_status WaitingForDependencies service ctx))"
proof -
  let ?ctx1 = "set_status WaitingForDependencies service ctx"
  have "a \<notin> gd_target ` set (edges_of ctx service)"
    using assms by (fastforce simp: stranded_def edges_of_def)
  then have a: "a \<notin> gd_target ` set (edges_of ?ctx1 service)"
    by (simp add: edges_of_def set_status_def)
  show ?thesis
    by (rule stranded_change [OF stranded_set_status [OF assms]])
      (use a in \<open>auto simp: status_of_activate same_shape_ids(2) [OF same_shape_activate] member_is_terminal_def
        split: if_splits\<close>)
qed

lemma stranded_spread:
  assumes "spread ctx ds F ctx'" "stranded a ctx"
  shows "stranded a ctx'"
proof (rule stranded_change [OF assms(2)])
  have F: "F \<subseteq> failable ctx" using assms(1) by (simp add: spread_def)
  show "status_of ctx' k = Some status" if "status_of ctx k = Some status" "member_is_terminal status" for k status
  proof -
    have "k \<notin> failable ctx"
      using that by (auto simp: failable_status may_fail_with_dependency_def member_is_terminal_def)
    then show ?thesis using assms(1) F that(1) by (auto simp: spread_def)
  qed
  show "status_of ctx' a \<in> {Some Dormant, Some Pruned}" if "status_of ctx a = Some Dormant"
  proof -
    have "a \<notin> failable ctx" using that by (simp add: failable_status may_fail_with_dependency_def)
    then show ?thesis using assms(1) F that by (auto simp: spread_def)
  qed
  show "gx_dependencies ctx' = gx_dependencies ctx" using assms(1) by (simp add: spread_def)
qed

lemma prune_subtrees_status:
  "status_of (snd (prune_subtrees services ctx)) k = status_of ctx k
   \<or> status_of ctx k = Some Dormant \<and> status_of (snd (prune_subtrees services ctx)) k = Some Pruned"
proof (induction services ctx rule: prune_subtrees.induct)
  case (2 service services ctx)
  show ?case
  proof (cases "can_prune_dormant_member ctx service")
    case False
    then show ?thesis using 2(1) by simp
  next
    case True
    then obtain m where m: "bt_get (gx_members ctx) service = Some m" "gm_status m = Dormant"
      by (auto simp: can_prune_dormant_member_def split: option.splits)
    have "status_of (set_status Pruned service ctx) k = (if k = service then Some Pruned else status_of ctx k)"
      using m(1) by (simp add: status_of_def get_set_status)
    moreover have "status_of ctx service = Some Dormant" using m by (simp add: status_of_def)
    ultimately show ?thesis
      using True m(1) 2(2,3) [OF _ m(1)]
      by (fastforce simp: then_do_def split: prod.splits sum.splits if_splits)
  qed
qed simp

lemma stranded_prune:
  assumes "stranded a ctx"
  shows "stranded a (snd (prune_subtrees services ctx))"
proof (rule stranded_change [OF assms])
  show "gx_dependencies (snd (prune_subtrees services ctx)) = gx_dependencies ctx"
    using prune_subtrees_ok [of ctx services] by (simp add: outcome_ok_def same_shape_ids(2))
  show "status_of (snd (prune_subtrees services ctx)) k = Some status"
    if "status_of ctx k = Some status" "member_is_terminal status" for k status
    using prune_subtrees_status [of services ctx k] that by (auto simp: member_is_terminal_def)
  show "status_of (snd (prune_subtrees services ctx)) a \<in> {Some Dormant, Some Pruned}"
    if "status_of ctx a = Some Dormant"
    using prune_subtrees_status [of services ctx a] that by auto
qed

lemma settle_member_spares:
  assumes wf: "context_wf ctx" and known: "bt_contains_key (gx_members ctx) service"
    and other: "service \<noteq> a" and st: "stranded a ctx"
  shows "stranded a (snd (settle_member out op service ctx))"
proof (cases "fst (mark_terminal service out ctx)")
  case (Inl e)
  then have "snd (settle_member out op service ctx) = snd (mark_terminal service out ctx)"
    by (cases "mark_terminal service out ctx") (simp add: settle_member_def)
  moreover have "snd (mark_terminal service out ctx) = ctx"
    using Inl by (auto simp: mark_terminal_def split: option.splits if_splits)
  ultimately show ?thesis using st by simp
next
  case (Inr u)
  let ?ctx1 = "set_status (outcome_status out) service ctx"
  obtain m where m: "bt_get (gx_members ctx) service = Some m" "\<not> member_is_terminal (gm_status m)"
    and mark: "mark_terminal service out ctx = (Inr (), ?ctx1)"
    using Inr by (auto simp: mark_terminal_def split: option.splits if_splits)
  have st1: "stranded a ?ctx1"
    using stranded_set_status [OF st other] m by (simp add: status_of_def)
  have "outcome_ok (same_shape ?ctx1) (\<lambda>_. False) (propagate_hard_dependency_failure service ?ctx1)"
    by (rule propagate_ok) (rule context_wf_mono [OF same_shape_set_status wf])
  then obtain es ctx2 where run: "propagate_hard_dependency_failure service ?ctx1 = (Inr es, ctx2)"
    by (cases "propagate_hard_dependency_failure service ?ctx1"; cases "fst (propagate_hard_dependency_failure service ?ctx1)")
      auto
  then have "stranded a ctx2"
    using fail_dependents_spread [of _ ?ctx1 es ctx2] stranded_spread [OF _ st1]
    by (auto simp: propagate_hard_dependency_failure_def)
  then show ?thesis using st1 mark run by (cases out) (simp_all add: settle_member_def)
qed

section \<open>The operations spare it\<close>

lemma on_context_stranded:
  assumes st: "stranded_at cid a op s"
    and f: "\<And>ctx m. bt_get (gs_contexts s) cid = Some ctx \<Longrightarrow> stranded a ctx \<Longrightarrow>
      bt_get (gx_members ctx) a = Some m \<Longrightarrow> gm_operation_id m = op \<Longrightarrow>
      stranded a (snd (f ctx)) \<and> same_shape ctx (snd (f ctx))"
  shows "stranded_at cid a op (snd (on_context c f s))"
proof (cases "c = cid")
  case False
  then show ?thesis
    using st by (auto simp: stranded_at_def on_context_def split: option.split prod.split)
next
  case True
  obtain ctx m where get: "bt_get (gs_contexts s) cid = Some ctx" and ctx: "stranded a ctx"
    and m: "bt_get (gx_members ctx) a = Some m" "gm_operation_id m = op"
    using st by (auto simp: stranded_at_def)
  obtain m' where "bt_get (gx_members (snd (f ctx))) a = Some m'" "member_shape m' = member_shape m"
    using same_shape_get [OF conjunct2 [OF f [OF get ctx m]] m(1)] .
  then show ?thesis
    using f [OF get ctx m] get m(2) True
    by (auto simp: stranded_at_def on_context_def member_shape_eq split: prod.split)
qed

locale sparing_operation = member_operation +
  assumes spares: "context_wf ctx \<Longrightarrow> bt_contains_key (gx_members ctx) service \<Longrightarrow> service \<noteq> a \<Longrightarrow>
    stranded a ctx \<Longrightarrow> stranded a (snd (f service ctx))"
begin

lemma operation_spares:
  assumes wf: "context_wf ctx" and st: "stranded a ctx"
    and m: "bt_get (gx_members ctx) a = Some m" and op: "gm_operation_id m \<noteq> op"
  shows "stranded a (snd (with_operation_service op f ctx))
    \<and> same_shape ctx (snd (with_operation_service op f ctx))"
proof (cases "member_for_operation ctx op")
  case None
  then show ?thesis using st by (simp add: with_operation_service_def operation_service_def)
next
  case (Some n)
  then have n: "n \<in> set (bt_values (gx_members ctx))" "gm_operation_id n = op"
    by (auto simp: member_for_operation_def find_Some_iff)
  then have get: "bt_get (gx_members ctx) (gm_service n) = Some n"
    using wf by (auto simp: set_bt_values ran_def context_wf_def)
  then have "gm_service n \<noteq> a" using n m op by auto
  then have "stranded a (snd (f (gm_service n) ctx))" "same_shape ctx (snd (f (gm_service n) ctx))"
    using spares [OF wf _ _ st] keeps_shape [OF wf] get by (simp_all add: bt_contains_key_def outcome_ok_def)
  then show ?thesis
    using Some by (simp add: with_operation_service_def operation_service_def)
qed

lemma store_spares:
  assumes wf: "graph_store_wf s" and st: "stranded_at cid a o' s" and other: "op \<noteq> o'"
    and body: "\<And>cid s'. body cid s' = then_do (on_context cid (with_operation_service op f) s') (k cid)"
    and pure: "\<And>cid r s'. \<exists>bs. k cid r s' = (Inr bs, s')"
  shows "stranded_at cid a o' (snd (for_each body (associated_contexts s op) s))"
proof -
  have step: "stranded_at cid a o' (snd (on_context c (with_operation_service op f) s'))"
    if "graph_store_wf s'" and "stranded_at cid a o' s'" for c s'
  proof (rule on_context_stranded [OF that(2)])
    fix ctx m
    assume "bt_get (gs_contexts s') cid = Some ctx" "stranded a ctx" "bt_get (gx_members ctx) a = Some m"
      "gm_operation_id m = o'"
    then show "stranded a (snd (with_operation_service op f ctx))
        \<and> same_shape ctx (snd (with_operation_service op f ctx))"
      using operation_spares [OF graph_store_wfD(3) [OF that(1)], of cid ctx a m op] other by simp
  qed
  have "outcome_ok (\<lambda>s'. loop_inv s s' \<and> stranded_at cid a o' s') (\<lambda>_. True)
      (for_each body (associated_contexts s op) s)"
  proof (rule outcome_ok_for_each)
    fix c s'
    assume c: "c \<in> set (associated_contexts s op)" and inv: "loop_inv s s' \<and> stranded_at cid a o' s'"
    have run: "outcome_ok (loop_inv s) ended_already (on_context c (with_operation_service op f) s')"
      using inv by (intro context_ok [OF _ c]) simp
    have first: "outcome_ok (\<lambda>s'. loop_inv s s' \<and> stranded_at cid a o' s') (\<lambda>_. True)
        (on_context c (with_operation_service op f) s')"
      using run step [OF loop_inv_wf [OF conjunct1 [OF inv]] conjunct2 [OF inv]] by (simp add: outcome_ok_def)
    show "outcome_ok (\<lambda>s'. loop_inv s s' \<and> stranded_at cid a o' s') (\<lambda>_. True) (body c s')"
      unfolding body
    proof (rule outcome_ok_then [OF first])
      fix r s''
      assume "loop_inv s s'' \<and> stranded_at cid a o' s''"
      then show "outcome_ok (\<lambda>s'. loop_inv s s' \<and> stranded_at cid a o' s') (\<lambda>_. True) (k c r s'')"
        using pure [of c r s''] by auto
    qed
  qed (use loop_inv_refl [OF wf] st in simp)
  then show ?thesis by (simp add: outcome_ok_def)
qed

end

interpretation pre_check: sparing_operation mark_pre_start_check_passed
proof unfold_locales
  fix ctx :: graph_execution_context and service a
  assume "service \<noteq> a" "stranded a ctx"
  then show "stranded a (snd (mark_pre_start_check_passed service ctx))"
    by (auto simp: mark_pre_start_check_passed_def status_of_def intro: stranded_pre_check split: option.split)
qed

interpretation settling: sparing_operation "settle_member out op" for out op
  by unfold_locales (rule settle_member_spares)

interpretation holding: sparing_operation hold_for_restart
proof unfold_locales
  fix ctx :: graph_execution_context and service a
  assume other: "service \<noteq> a" and st: "stranded a ctx"
  have "stranded a (snd (mark_awaiting_restart service ctx))"
  proof (cases "\<exists>m. bt_get (gx_members ctx) service = Some m \<and> \<not> member_is_terminal (gm_status m)")
    case True
    then obtain m where m: "bt_get (gx_members ctx) service = Some m" "\<not> member_is_terminal (gm_status m)"
      by blast
    then show ?thesis
      using other by (intro stranded_change [OF st]) (auto simp: mark_awaiting_restart_def status_of_def)
  next
    case False
    then show ?thesis using st by (auto simp: mark_awaiting_restart_def split: option.split)
  qed
  then show "stranded a (snd (hold_for_restart service ctx))"
    by (cases "mark_awaiting_restart service ctx"; cases "fst (mark_awaiting_restart service ctx)")
      (auto simp: hold_for_restart_def intro: stranded_note_holds)
qed

interpretation pruning: sparing_operation prune_dependencies_for_service
  by unfold_locales (simp add: prune_dependencies_for_service_def stranded_prune)

lemma settle_awaiting_stranded:
  assumes wf: "graph_store_wf s" and st: "stranded_at cid a op s"
  shows "stranded_at cid a op (snd (settle_awaiting_restart service out s))"
proof -
  have "outcome_ok (\<lambda>s'. loop_inv s s' \<and> stranded_at cid a op s') (\<lambda>_. True)
      (settle_awaiting_restart service out s)"
    unfolding settle_awaiting_restart_def
  proof (rule outcome_ok_for_each)
    fix c s'
    assume "c \<in> set (bt_keys (gs_contexts s))" and inv: "loop_inv s s' \<and> stranded_at cid a op s'"
    then have c: "c \<in> dom (bt_get (gs_contexts s'))" by (simp add: set_bt_keys loop_inv_def)
    have wf': "graph_store_wf s'" using inv loop_inv_wf by blast
    have ok: "outcome_ok (loop_inv s) ended_already (on_context c (settle_context_restart service out) s')"
      by (rule on_context_ok [OF conjunct1 [OF inv] c])
        (rule settle_context_restart_ok [OF graph_store_wfD(3) [OF wf']])
    have "stranded_at cid a op (snd (on_context c (settle_context_restart service out) s'))"
    proof (rule on_context_stranded [OF conjunct2 [OF inv]])
      fix ctx m
      assume get: "bt_get (gs_contexts s') cid = Some ctx" and st: "stranded a ctx"
      have cwf: "context_wf ctx" by (rule graph_store_wfD(3) [OF wf' get])
      have "service \<noteq> a" if "bt_get (gx_members ctx) service = Some n" "gm_status n = AwaitingRestart" for n
        using st that by (auto simp: stranded_def status_of_def)
      then have "stranded a (snd (settle_context_restart service out ctx))"
        using st settle_member_spares [OF cwf _ _ st]
        by (auto simp: settle_context_restart_def bt_contains_key_def split: option.split)
      then show "stranded a (snd (settle_context_restart service out ctx))
          \<and> same_shape ctx (snd (settle_context_restart service out ctx))"
        using settle_context_restart_ok [OF cwf] by (simp add: outcome_ok_def)
    qed
    then show "outcome_ok (\<lambda>s'. loop_inv s s' \<and> stranded_at cid a op s') (\<lambda>_. True)
        (on_context c (settle_context_restart service out) s')"
      using ok by (simp add: outcome_ok_def)
  qed (use loop_inv_refl [OF wf] st in simp)
  then show ?thesis by (simp add: outcome_ok_def)
qed

lemma apply_terminal_stranded:
  assumes wf: "graph_store_wf s" and st: "stranded_at cid a o' s" and other: "op \<noteq> o'"
  shows "stranded_at cid a o' (snd (apply_operation_terminal op out s))"
proof -
  let ?run = "for_each (apply_context_terminal op out) (associated_contexts s op) s"
  have st1: "stranded_at cid a o' (snd ?run)"
    by (rule settling.store_spares [OF wf st other, where k = "\<lambda>_ r s. (Inr r, s)"])
      (auto simp: apply_context_terminal_def then_do_return)
  have wf1: "graph_store_wf (snd ?run)"
    using apply_terminals_ok [OF wf] by (simp add: outcome_ok_def loop_inv_def)
  have settle: "outcome_ok (stranded_at cid a o') (\<lambda>_. True) (settle_awaiting_restart service out (snd ?run))"
    for service
    using settle_awaiting_stranded [OF wf1 st1] by (simp add: outcome_ok_def)
  have "outcome_ok (stranded_at cid a o') (\<lambda>_. True) (apply_operation_terminal op out s)"
    unfolding apply_operation_terminal_def
  proof (rule outcome_ok_then)
    show "outcome_ok (stranded_at cid a o') (\<lambda>_. True) ?run" using st1 by (simp add: outcome_ok_def)
    fix events s1
    assume "?run = (Inr events, s1)"
    then show "outcome_ok (stranded_at cid a o') (\<lambda>_. True)
        (case events of [] \<Rightarrow> (Inr events, s1)
         | event # _ \<Rightarrow> then_do (settle_awaiting_restart (ge_service event) out s1) (\<lambda>more s2.
             (Inr (events @ more), s2)))"
      using settle st1 by (auto intro!: outcome_ok_then split: list.split)
  qed
  then show ?thesis by (simp add: outcome_ok_def)
qed

lemma chosen_waits:
  assumes "context_wf ctx" "k \<in> (gm_service \<circ> fst) ` set (chosen ctx probe limit)"
  shows "status_of ctx k \<in> {Some WaitingForPreStartCheck, Some WaitingForDependencies}"
proof -
  obtain m act where "(m, act) \<in> set (chosen ctx probe limit)" "k = gm_service m"
    using assms(2) by auto
  then show ?thesis
    using chosen_in [OF assms(1)] by (fastforce simp: status_of_def member_ready_def split: if_splits)
qed

lemma stranded_released:
  assumes "context_wf ctx" "stranded a ctx"
  shows "stranded a (released_context ctx probe limit)"
proof (rule stranded_change [OF assms(2) same_shape_ids(2) [OF released_shape]])
  show "status_of (released_context ctx probe limit) k = Some status"
    if "status_of ctx k = Some status" "member_is_terminal status" for k status
    using chosen_waits [OF assms(1), of k probe limit] that
    by (auto simp: released_status member_is_terminal_def)
  show "status_of (released_context ctx probe limit) a \<in> {Some Dormant, Some Pruned}"
    if "status_of ctx a = Some Dormant"
    using chosen_waits [OF assms(1), of a probe limit] that by (auto simp: released_status)
qed

lemma release_stranded:
  assumes wf: "graph_store_wf s" and st: "stranded_at cid a op s"
  shows "stranded_at cid a op (snd (release_ready c limit probe s))"
proof (cases "limit = 0 \<or> bt_get (gs_contexts s) c = None")
  case True
  then show ?thesis using st by (auto simp: release_ready_def available_slots_def)
next
  case False
  then obtain c' where c': "bt_get (gs_contexts s) c = Some c'" and limit: "limit \<noteq> 0" by auto
  have run: "snd (release_ready c limit probe s)
      = snd (on_context c (\<lambda>ctx. (Inr () :: graph_execution_error + unit, released_context ctx probe limit)) s)"
    by (simp add: release_ready_eq [OF graph_store_wfD(3) [OF wf c'] c' limit] on_context_def c')
  show ?thesis
    unfolding run
    by (rule on_context_stranded [OF st])
      (auto intro: stranded_released released_shape graph_store_wfD(3) [OF wf])
qed

lemma stranded_not_released:
  assumes wf: "graph_store_wf s" and st: "stranded_at cid a op s"
    and run: "release_ready cid limit probe s = (Inr operations, s')"
  shows "a \<notin> go_service ` set operations"
proof
  assume a: "a \<in> go_service ` set operations"
  obtain ctx where get: "bt_get (gs_contexts s) cid = Some ctx" and ctx: "stranded a ctx"
    using st by (auto simp: stranded_at_def)
  have cwf: "context_wf ctx" by (rule graph_store_wfD(3) [OF wf get])
  have limit: "limit \<noteq> 0" using run by (auto simp: release_ready_def)
  have "operations = map (released_operation ctx) (chosen ctx probe limit)"
    using run by (simp add: release_ready_eq [OF cwf get limit])
  then have "a \<in> (gm_service \<circ> fst) ` set (chosen ctx probe limit)"
    using a by (force simp: released_operation_def)
  from chosen_waits [OF cwf this] show False using ctx by (auto simp: stranded_def)
qed

section \<open>Nothing wakes it\<close>

definition gone :: "graph_context_id \<Rightarrow> graph_execution_store \<Rightarrow> bool" where
  "gone cid s \<longleftrightarrow> bt_get (gs_contexts s) cid = None \<and> cid < gs_next_context_id s"

lemma insert_context_get:
  "cid \<noteq> gx_id ctx \<Longrightarrow> bt_get (gs_contexts (insert_context ctx s)) cid = bt_get (gs_contexts s) cid"
  by (simp add: insert_context_def)

text \<open>Creating a context leaves the others as they are, and the counter grows.\<close>

lemma create_keeps:
  assumes "graph_store_wf s" "gs_next_context_id s \<noteq> word_max" "cid < gs_next_context_id s"
    and s': "s' = snd (create_boot_context plan definitions s)
      \<or> s' = snd (create_on_demand_context dispatch services s)"
  shows "bt_get (gs_contexts s') cid = bt_get (gs_contexts s) cid \<and> cid < gs_next_context_id s'"
proof (cases "s' = s")
  case True
  then show ?thesis using assms(3) by simp
next
  case False
  then obtain ctx where ctx: "s' = insert_context ctx s" "gx_id ctx = gs_next_context_id s" "context_wf ctx"
    using s' boot_context_wf [of "gs_next_context_id s" plan definitions]
      on_demand_context_wf [of "gs_next_context_id s" dispatch services]
    by (auto simp: create_boot_context_def create_on_demand_context_def split: sum.splits)
  have "bt_get (gs_contexts s') (gs_next_context_id s) = Some ctx"
    using ctx by (simp add: insert_context_def)
  then have "gs_next_context_id s < gs_next_context_id s'"
    using graph_store_wfD(2) [OF insert_context_wf [OF assms(1) ctx(2,3) assms(2)]] ctx(1) by simp
  then show ?thesis using ctx insert_context_get [of cid ctx s] assms(3) by auto
qed

lemma stranded_below: "graph_store_wf s \<Longrightarrow> stranded_at cid a op s \<Longrightarrow> cid < gs_next_context_id s"
  using graph_store_wfD(2) by (auto simp: stranded_at_def)

lemma stranded_created:
  assumes "graph_store_wf s" "gs_next_context_id s \<noteq> word_max" "stranded_at cid a op s"
    and "s' = snd (create_boot_context plan definitions s)
      \<or> s' = snd (create_on_demand_context dispatch services s)"
  shows "stranded_at cid a op s'"
  using create_keeps [OF assms(1,2) stranded_below [OF assms(1,3)] assms(4)] assms(3)
  by (simp add: stranded_at_def)

lemma stranded_cleared:
  assumes "stranded_at cid a op s"
  shows "stranded_at cid a op (clear_recorded_operation_hold o' s)"
  unfolding clear_recorded_operation_hold_def
proof (rule fold_keeps [where P = "stranded_at cid a op", OF _ assms])
  fix c s'
  assume st: "stranded_at cid a op s'"
  let ?clear = "\<lambda>ctx. (Inr () :: graph_execution_error + unit, clear_context_hold o' ctx)"
  have "status_of (clear_context_hold o' ctx) = status_of ctx" for ctx
    by (auto simp: status_of_def clear_context_hold_def fun_eq_iff option.map_comp intro!: option.map_cong)
  then have "stranded a (clear_context_hold o' ctx)" if "stranded a ctx" for ctx
    using that by (simp add: stranded_def same_shape_ids(2) [OF same_shape_clear_hold])
  then have "stranded_at cid a op (snd (on_context c ?clear s'))"
    by (intro on_context_stranded [OF st]) simp
  then show "stranded_at cid a op (s'\<lparr>gs_contexts := bt_modify c (clear_context_hold o') (gs_contexts s')\<rparr>)"
    by (simp add: on_context_def bt_modify_def split: option.splits)
qed

lemma stranded_step:
  assumes "graph_step label s s'" "graph_store_wf s" "stranded_at cid a op s" "label \<noteq> Some op"
  shows "stranded_at cid a op s' \<or> gone cid s'"
  using assms
proof (induction rule: graph_step.induct)
  case (boot s plan definitions)
  then show ?case using stranded_created by blast
next
  case (on_demand s dispatch services)
  then show ?case using stranded_created by blast
next
  case (release s c limit probe)
  then show ?case using release_stranded by blast
next
  case (checked o' s)
  have "stranded_at cid a op (snd (apply_pre_start_check_passed o' s))"
    unfolding apply_pre_start_check_passed_def
    by (rule pre_check.store_spares [where k = "\<lambda>c changed s. (Inr (if changed then [c] else []), s)"])
      (use checked in auto)
  then show ?case ..
next
  case (satisfied o' s)
  then show ?case using apply_terminal_stranded by (simp add: apply_operation_satisfied_def)
next
  case (failed o' s)
  then show ?case using apply_terminal_stranded by (simp add: apply_operation_failed_def)
next
  case (awaiting o' s)
  have "stranded_at cid a op (snd (apply_operation_awaiting_restart o' s))"
    unfolding apply_operation_awaiting_restart_def
    by (rule holding.store_spares [where k = "\<lambda>c _ s. (Inr [c], s)"]) (use awaiting in auto)
  then show ?case ..
next
  case (settled s service out)
  then show ?case using settle_awaiting_stranded by blast
next
  case (pruned o' s)
  have "stranded_at cid a op (snd (prune_dormant_dependencies o' s))"
    unfolding prune_dormant_dependencies_def
    by (rule pruning.store_spares [where k = "\<lambda>_ r s. (Inr r, s)"]) (use pruned in \<open>auto simp: then_do_return\<close>)
  then show ?case ..
next
  case (cleared o' s)
  then show ?case using stranded_cleared by blast
next
  case (retired s)
  then show ?case
    using stranded_below [OF retired(1,2)]
    by (auto simp: retire_drained_contexts_def Let_def stranded_at_def gone_def bt_get_fold_remove)
qed

text \<open>A context that was retired does not come back.\<close>

lemma loop_inv_trans: "loop_inv a b \<Longrightarrow> loop_inv b c \<Longrightarrow> loop_inv a c"
  by (simp add: loop_inv_def)

lemma apply_operation_terminal_loop:
  assumes wf: "graph_store_wf s"
  shows "outcome_ok (loop_inv s) ended_already (apply_operation_terminal op out s)"
proof -
  have "outcome_ok (loop_inv s) ended_already (settle_awaiting_restart service out s1)"
    if "loop_inv s s1" for service s1
    using settle_awaiting_restart_ok [OF loop_inv_wf [OF that]]
    by (rule outcome_ok_weaken) (rule loop_inv_trans [OF that])
  then show ?thesis
    unfolding apply_operation_terminal_def
    by (intro outcome_ok_then [OF apply_terminals_ok [OF wf]]) (auto intro!: outcome_ok_then split: list.split)
qed

lemma gone_loop: "outcome_ok (loop_inv s) E r \<Longrightarrow> gone cid s \<Longrightarrow> gone cid (snd r)"
  by (auto simp: outcome_ok_def loop_inv_def gone_def)

lemma gone_step:
  assumes "graph_step label s s'" "graph_store_wf s" "gone cid s"
  shows "gone cid s'"
  using assms
proof (induction rule: graph_step.induct)
  case (boot s plan definitions)
  then show ?case using create_keeps [of s cid] unfolding gone_def by metis
next
  case (on_demand s dispatch services)
  then show ?case using create_keeps [of s cid] unfolding gone_def by metis
next
  case (release s c limit probe)
  show ?case
  proof (cases "limit = 0 \<or> bt_get (gs_contexts s) c = None")
    case True
    then show ?thesis using release by (auto simp: release_ready_def available_slots_def)
  next
    case False
    then show ?thesis
      using release release_ready_eq [OF graph_store_wfD(3) [of s c]] by (auto simp: gone_def)
  qed
next
  case (checked op s)
  then show ?case using gone_loop [OF associated_operations_ok(1)] by blast
next
  case (satisfied op s)
  then show ?case
    unfolding apply_operation_satisfied_def using gone_loop [OF apply_operation_terminal_loop] by blast
next
  case (failed op s)
  then show ?case
    unfolding apply_operation_failed_def using gone_loop [OF apply_operation_terminal_loop] by blast
next
  case (awaiting op s)
  then show ?case using gone_loop [OF associated_operations_ok(2)] by blast
next
  case (settled s service out)
  then show ?case using gone_loop [OF settle_awaiting_restart_ok] by blast
next
  case (pruned op s)
  then show ?case using gone_loop [OF associated_operations_ok(3)] by blast
next
  case (cleared op s)
  show ?case
    unfolding clear_recorded_operation_hold_def
    by (rule fold_keeps [where P = "gone cid", OF _ cleared(2)]) (auto simp: gone_def)
next
  case (retired s)
  then show ?case by (simp add: retire_drained_contexts_def Let_def gone_def bt_get_fold_remove)
qed

text \<open>Any number of steps, none of them about the operation of the member.\<close>

inductive graph_steps_without :: "operation_id \<Rightarrow> graph_execution_store \<Rightarrow> graph_execution_store \<Rightarrow> bool" where
  none: "graph_steps_without op s s"
| more: "graph_steps_without op s s' \<Longrightarrow> graph_step label s' s'' \<Longrightarrow> label \<noteq> Some op \<Longrightarrow>
    graph_steps_without op s s''"

lemma stranded_steps:
  assumes "graph_steps_without op s s'" "graph_store_wf s" "stranded_at cid a op s"
  shows "graph_store_wf s' \<and> (stranded_at cid a op s' \<or> gone cid s')"
  using assms
proof (induction rule: graph_steps_without.induct)
  case (more op s s' label s'')
  have wf: "graph_store_wf s'" and here: "stranded_at cid a op s' \<or> gone cid s'"
    using more.IH more.prems by simp_all
  have wf'': "graph_store_wf s''" by (rule graph_step_wf [OF more.hyps(2) wf])
  from here show ?case
  proof
    assume "stranded_at cid a op s'"
    then have "stranded_at cid a op s'' \<or> gone cid s''"
      by (rule stranded_step [OF more.hyps(2) wf _ more.hyps(3)])
    then show ?thesis using wf'' by blast
  next
    assume "gone cid s'"
    then show ?thesis using gone_step [OF more.hyps(2) wf] wf'' by blast
  qed
qed simp

section \<open>A boot start that only blocked services depend on\<close>

text \<open>
  The boot of \<open>a\<close> and \<open>b\<close>, where \<open>b\<close> requires \<open>a\<close> and a service that is not defined: the boot graph
  starts \<open>a\<close> and blocks \<open>b\<close>.
\<close>

definition stranding_services :: "service_definition list" where
  "stranding_services =
     [simple_system_boot ''a'' ''/a'', (simple_system_boot ''b'' ''/b'')\<lparr>sd_requires := [''a'', ''missing'']\<rparr>]"

definition stranding_plan :: phase2_boot_plan where
  "stranding_plan =
     \<lparr>bp_mode = FullBoot, bp_observed_at_ns = 1, bp_max_parallel_starts = 4,
      bp_starts =
        [\<lparr>ps_service = ''a'', ps_operation_id = sample_id 1, ps_job_id = JobId (UuidV7 (replicate 16 0)),
          ps_cause = StartExplicit, ps_identity = ''SYSTEM''\<rparr>],
      bp_blocked =
        [\<lparr>bk_service = ''b'', bk_operation_id = sample_id 2,
          bk_reason = HardDependencyUnavailable ''missing'' Requires, bk_additional_reasons = []\<rparr>],
      bp_safe_mode_downgrade = [], bp_warnings = []\<rparr>"

definition stranding_store :: graph_execution_store where
  "stranding_store = snd (create_boot_context stranding_plan stranding_services graph_store_new)"

lemma stranding_boot_graph:
  "map_option (map_sum id (\<lambda>g. (map sv_name (bg_ordered_startable g), map bs_service (bg_blocked g))))
     (build_phase2_boot_graph (\<lambda>_. None) FullBoot stranding_services) = Some (Inr ([''a''], [''b'']))"
  by code_simp

lemma stranding_store_stranded: "stranded_at 0 ''a'' (sample_id 1) stranding_store"
proof -
  have "case bt_get (gs_contexts stranding_store) 0 of None \<Rightarrow> False | Some ctx \<Rightarrow>
      status_of ctx ''a'' = Some Dormant \<and> status_of ctx ''b'' = Some MemberFailed
      \<and> map gd_dependent (filter (\<lambda>edge. gd_target edge = ''a'') (gx_dependencies ctx)) = [''b'']
      \<and> map_option gm_operation_id (bt_get (gx_members ctx) ''a'') = Some (sample_id 1)"
    by code_simp
  then obtain ctx where "bt_get (gs_contexts stranding_store) 0 = Some ctx"
    and a: "status_of ctx ''a'' = Some Dormant" and b: "status_of ctx ''b'' = Some MemberFailed"
    and edges: "map gd_dependent (filter (\<lambda>edge. gd_target edge = ''a'') (gx_dependencies ctx)) = [''b'']"
    and "map_option gm_operation_id (bt_get (gx_members ctx) ''a'') = Some (sample_id 1)"
    by (cases "bt_get (gs_contexts stranding_store) 0") auto
  moreover have "gd_dependent edge = ''b''" if "edge \<in> set (gx_dependencies ctx)" "gd_target edge = ''a''" for edge
    using that arg_cong [OF edges, of set] by auto
  then have "stranded ''a'' ctx"
    using a b by (auto simp: stranded_def member_is_terminal_def)
  ultimately show ?thesis by (auto simp: stranded_at_def)
qed

theorem boot_start_behind_blocked_service_is_stranded:
  assumes "graph_steps_without (sample_id 1) stranding_store s"
    and "release_ready 0 limit probe s = (Inr operations, s')"
  shows "''a'' \<notin> go_service ` set operations"
proof -
  have wf: "graph_store_wf stranding_store"
    unfolding stranding_store_def
    by (rule create_wf(1) [OF graph_store_new_wf]) (simp add: graph_store_new_def word_max_def)
  have "graph_store_wf s" "stranded_at 0 ''a'' (sample_id 1) s \<or> gone 0 s"
    using stranded_steps [OF assms(1) wf stranding_store_stranded] by blast+
  then show ?thesis
    using stranded_not_released [OF _ _ assms(2)] assms(2)
    by (auto simp: gone_def release_ready_def available_slots_def split: if_splits)
qed

end
