(* ===== verification/Shutdown.thy ===== *)
theory Shutdown
  imports Service_Reload
begin

text \<open>
  The plan of a graceful shutdown (\<open>src/shutdown/plan.rs\<close>) and the tracker of repeated interrupts
  (\<open>src/shutdown/model.rs\<close>). The loop that builds the stop waves is a total function: every round
  that is repeated takes a service out of those that remain. Participants carry the prefix \<open>sh_\<close>,
  ignored services \<open>ig_\<close>, the plan \<open>su_\<close>.

  The lemmas show that the waves hold every running service once, each after everything that must
  stop before it, that a plan fails only on a real knot of dependencies, how a reload can tie one,
  and that only recent interrupts count towards a forced reboot.
\<close>

section \<open>Model\<close>

record shutdown_stop_participant =
  sh_service :: string
  sh_state :: service_state
  sh_already_stopping :: bool

record shutdown_ignored_service =
  ig_service :: string
  ig_state :: service_state

record shutdown_plan =
  su_completed_to_clear :: "string list"
  su_starting_to_kill :: "string list"
  su_stop_waves :: "shutdown_stop_participant list list"
  su_ignored :: "shutdown_ignored_service list"

datatype shutdown_plan_error =
    MissingRuntime string
  | MissingDefinition string
  | MissingReadyService string
  | StopCycle "string list"

type_synonym stop_candidates = "(string, shutdown_stop_participant) btmap"

section \<open>Waves\<close>

text \<open>
  Who must stop before whom, among the candidates: a dependent before what it depends on, and
  every service before the compiled-in ones.
\<close>

definition add_dependent ::
  "string \<Rightarrow> string \<Rightarrow> (string, string fset) btmap \<Rightarrow> (string, string fset) btmap" where
  "add_dependent dependent target dependents =
     bt_insert target (finsert dependent (bt_get_or {||} dependents target)) dependents"

fun dependents_loop ::
  "service_table \<Rightarrow> string list \<Rightarrow> string list \<Rightarrow> string list \<Rightarrow> (string, string fset) btmap
   \<Rightarrow> shutdown_plan_error + (string, string fset) btmap" where
  "dependents_loop services candidates rests_on [] dependents = Inr dependents"
| "dependents_loop services candidates rests_on (dependent # rest) dependents =
     and_then (ok_or (table_definition services dependent) (MissingDefinition dependent)) (\<lambda>d.
       dependents_loop services candidates rests_on rest
         (fold (add_dependent dependent)
           ((if sd_compiled_in d then [] else rests_on)
            @ filter (\<lambda>target. target \<in> set candidates) (map dep_target (hard_dependencies d)))
           dependents))"

definition dependents_by_target ::
  "service_table \<Rightarrow> string list \<Rightarrow> shutdown_plan_error + (string, string fset) btmap" where
  "dependents_by_target services candidates =
     dependents_loop services candidates
       (filter (\<lambda>service. case table_definition services service of
           None \<Rightarrow> False | Some d \<Rightarrow> sd_compiled_in d) candidates)
       candidates bt_empty"

fun take_wave ::
  "string list \<Rightarrow> stop_candidates
   \<Rightarrow> shutdown_plan_error + (shutdown_stop_participant list \<times> stop_candidates)" where
  "take_wave [] remaining = Inr ([], remaining)"
| "take_wave (service # ready) remaining =
     and_then (ok_or (bt_get remaining service) (MissingReadyService service)) (\<lambda>participant.
       and_then (take_wave ready (bt_remove service remaining)) (\<lambda>(wave, rest).
         Inr (participant # wave, rest)))"

lemma take_wave_eq:
  "distinct ready \<Longrightarrow> set ready \<subseteq> dom (bt_get remaining) \<Longrightarrow>
     take_wave ready remaining = Inr (map (the \<circ> bt_get remaining) ready, fold bt_remove ready remaining)"
proof (induction ready arbitrary: remaining)
  case (Cons service ready)
  have map: "map (the \<circ> bt_get (bt_remove service remaining)) ready = map (the \<circ> bt_get remaining) ready"
    using Cons.prems(1) by auto
  have sub: "set ready \<subseteq> dom (bt_get (bt_remove service remaining))"
    using Cons.prems by (auto simp: bt_get_remove)
  have "take_wave ready (bt_remove service remaining) = Inr
      (map (the \<circ> bt_get (bt_remove service remaining)) ready, fold bt_remove ready (bt_remove service remaining))"
    by (rule Cons.IH [OF _ sub]) (use Cons.prems(1) in simp)
  then have "take_wave ready (bt_remove service remaining)
      = Inr (map (the \<circ> bt_get remaining) ready, fold bt_remove ready (bt_remove service remaining))"
    unfolding map .
  then show ?case using Cons.prems(2) by auto
qed simp

lemma candidates_without:
  "bt_get (fold bt_remove ks m) k = (if k \<in> set ks then None else bt_get m k)"
  by (induction ks arbitrary: m) auto

definition ready_to_stop ::
  "(string, string fset) btmap \<Rightarrow> stop_candidates \<Rightarrow> string list" where
  "ready_to_stop dependents remaining =
     filter (\<lambda>service. case bt_get dependents service of
         None \<Rightarrow> True
       | Some entries \<Rightarrow> entries |\<inter>| fset_of_list (bt_keys remaining) = {||})
       (bt_keys remaining)"

lemma and_then_cong [fundef_cong]:
  "r = r' \<Longrightarrow> (\<And>a. r' = Inr a \<Longrightarrow> k a = k' a) \<Longrightarrow> and_then r k = and_then r' k'"
  by (auto simp: and_then_def split: sum.splits)

function reverse_dependency_waves ::
  "service_table \<Rightarrow> stop_candidates \<Rightarrow> shutdown_plan_error + shutdown_stop_participant list list" where
  "reverse_dependency_waves services remaining =
     (if remaining = bt_empty then Inr []
      else and_then (dependents_by_target services (bt_keys remaining)) (\<lambda>dependents.
        let ready = ready_to_stop dependents remaining
        in if ready = [] then Inl (StopCycle (bt_keys remaining))
           else and_then (take_wave ready remaining) (\<lambda>(wave, rest).
             and_then (reverse_dependency_waves services rest) (\<lambda>waves. Inr (wave # waves)))))"
  by pat_completeness auto

termination
proof (relation "measure (\<lambda>(services, remaining). card (dom (bt_get remaining)))", goal_cases)
  case 1
  then show ?case by simp
next
  case (2 services remaining dependents ready p wave rest)
  have "distinct ready" "set ready \<subseteq> dom (bt_get remaining)"
    using 2(3) by (auto simp: ready_to_stop_def set_bt_keys)
  then have "rest = fold bt_remove ready remaining"
    using take_wave_eq 2(5,6) by fastforce
  moreover obtain service where "service \<in> set ready" using 2(4) by (cases ready) auto
  ultimately have "dom (bt_get rest) \<subset> dom (bt_get remaining)"
    using \<open>set ready \<subseteq> dom (bt_get remaining)\<close> by (auto simp: candidates_without split: if_splits)
  then show ?case by (simp add: psubset_card_mono)
qed

section \<open>The plan\<close>

type_synonym shutdown_classes =
  "string list \<times> string list \<times> stop_candidates \<times> shutdown_ignored_service list"

definition classify_service ::
  "string \<Rightarrow> service_state \<Rightarrow> shutdown_classes \<Rightarrow> shutdown_classes" where
  "classify_service service state = (\<lambda>(completed, starting, candidates, ignored).
     if state = Completed then (completed @ [service], starting, candidates, ignored)
     else if state = Starting then (completed, starting @ [service], candidates, ignored)
     else if state \<in> {Active, Reloading, Stopping} then
       (completed, starting,
        bt_insert service
          \<lparr>sh_service = service, sh_state = state, sh_already_stopping = (state = Stopping)\<rparr> candidates,
        ignored)
     else (completed, starting, candidates, ignored @ [\<lparr>ig_service = service, ig_state = state\<rparr>]))"

fun classify_services ::
  "service_table \<Rightarrow> string list \<Rightarrow> shutdown_classes \<Rightarrow> shutdown_plan_error + shutdown_classes" where
  "classify_services services [] classes = Inr classes"
| "classify_services services (service # names) classes =
     and_then (ok_or (table_runtime services service) (MissingRuntime service)) (\<lambda>runtime.
       classify_services services names (classify_service service (rt_state runtime) classes))"

definition plan_graceful_shutdown :: "service_table \<Rightarrow> shutdown_plan_error + shutdown_plan" where
  "plan_graceful_shutdown services =
     and_then (classify_services services (service_names services) ([], [], bt_empty, []))
       (\<lambda>(completed, starting, candidates, ignored).
         and_then (reverse_dependency_waves services candidates) (\<lambda>waves.
           Inr \<lparr>su_completed_to_clear = completed, su_starting_to_kill = starting,
                su_stop_waves = waves, su_ignored = ignored\<rparr>))"

section \<open>Repeated interrupts\<close>

definition FORCED_REBOOT_PRESS_COUNT :: nat where
  "FORCED_REBOOT_PRESS_COUNT = 3"

definition FORCED_REBOOT_WINDOW_NS :: u64 where
  "FORCED_REBOOT_WINDOW_NS = 5000000000"

text \<open>The tracker is its one field, the times of the recent presses.\<close>

definition record_sigint :: "u64 \<Rightarrow> u64 list \<Rightarrow> bool \<times> u64 list" where
  "record_sigint observed_at_ns recent =
     (let recent' = filter (\<lambda>pressed. sat_sub observed_at_ns pressed \<le> FORCED_REBOOT_WINDOW_NS) recent
            @ [observed_at_ns]
      in (FORCED_REBOOT_PRESS_COUNT \<le> length recent', recent'))"

section \<open>Lemmas\<close>

definition must_stop_before :: "service_table \<Rightarrow> string \<Rightarrow> string \<Rightarrow> bool" where
  "must_stop_before services dependent target \<longleftrightarrow>
     (\<exists>d. table_definition services dependent = Some d
        \<and> (target \<in> dep_target ` set (hard_dependencies d)
           \<or> \<not> sd_compiled_in d
             \<and> (\<exists>d'. table_definition services target = Some d' \<and> sd_compiled_in d')))"

lemma get_add_dependents:
  "x |\<in>| bt_get_or {||} (fold (add_dependent dependent) targets dependents) t \<longleftrightarrow>
     x |\<in>| bt_get_or {||} dependents t \<or> x = dependent \<and> t \<in> set targets"
  by (induction targets arbitrary: dependents) (auto simp: add_dependent_def bt_get_or_def)

lemma dependents_loop_spec:
  "dependents_loop services candidates rests_on names dependents = Inr result \<Longrightarrow>
     set rests_on = {t \<in> set candidates. \<exists>d. table_definition services t = Some d \<and> sd_compiled_in d} \<Longrightarrow>
     x |\<in>| bt_get_or {||} result t \<longleftrightarrow> x |\<in>| bt_get_or {||} dependents t
       \<or> x \<in> set names \<and> t \<in> set candidates \<and> must_stop_before services x t"
proof (induction services candidates rests_on names dependents rule: dependents_loop.induct)
  case (2 services candidates rests_on dependent rest dependents)
  then obtain d where d: "table_definition services dependent = Some d"
    and run: "dependents_loop services candidates rests_on rest
      (fold (add_dependent dependent)
         ((if sd_compiled_in d then [] else rests_on)
          @ filter (\<lambda>target. target \<in> set candidates) (map dep_target (hard_dependencies d)))
         dependents) = Inr result"
    by (auto simp: and_then_eq_Inr)
  have "t \<in> set ((if sd_compiled_in d then [] else rests_on)
      @ filter (\<lambda>target. target \<in> set candidates) (map dep_target (hard_dependencies d)))
    \<longleftrightarrow> t \<in> set candidates \<and> must_stop_before services dependent t"
    using 2(3) d by (auto simp: must_stop_before_def)
  then show ?case using 2(1) [OF run 2(3)] by (auto simp: get_add_dependents)
qed simp

lemma dependents_by_target_spec:
  assumes "dependents_by_target services candidates = Inr dependents"
  shows "x |\<in>| bt_get_or {||} dependents t \<longleftrightarrow>
    x \<in> set candidates \<and> t \<in> set candidates \<and> must_stop_before services x t"
proof -
  have "set (filter (\<lambda>service. case table_definition services service of
        None \<Rightarrow> False | Some d \<Rightarrow> sd_compiled_in d) candidates)
      = {t \<in> set candidates. \<exists>d. table_definition services t = Some d \<and> sd_compiled_in d}"
    by (auto split: option.splits)
  from dependents_loop_spec [OF assms [unfolded dependents_by_target_def] this, of x t]
  show ?thesis by (simp add: bt_get_or_def)
qed

lemma dependents_by_target_total:
  assumes "\<forall>s\<in>set candidates. \<exists>d. table_definition services s = Some d"
  obtains dependents where "dependents_by_target services candidates = Inr dependents"
proof -
  have "\<forall>s\<in>set names. \<exists>d. table_definition services s = Some d \<Longrightarrow>
      \<exists>result. dependents_loop services candidates rests_on names dependents = Inr result"
    for names rests_on dependents
    by (induction names arbitrary: dependents) auto
  from this [OF assms] show ?thesis using that unfolding dependents_by_target_def by blast
qed

lemma set_ready_to_stop:
  assumes "dependents_by_target services (bt_keys remaining) = Inr dependents"
  shows "set (ready_to_stop dependents remaining) =
    {s \<in> dom (bt_get remaining). \<forall>x\<in>dom (bt_get remaining). \<not> must_stop_before services x s}"
proof -
  have "(case bt_get dependents s of None \<Rightarrow> True
      | Some entries \<Rightarrow> entries |\<inter>| fset_of_list (bt_keys remaining) = {||})
    \<longleftrightarrow> (\<forall>x\<in>set (bt_keys remaining). x |\<notin>| bt_get_or {||} dependents s)" for s
    by (auto simp: bt_get_or_def fset_eq_iff fset_of_list.rep_eq split: option.split)
  then show ?thesis
    using dependents_by_target_spec [OF assms] by (auto simp: ready_to_stop_def set_bt_keys)
qed

definition candidates_ok :: "service_table \<Rightarrow> stop_candidates \<Rightarrow> bool" where
  "candidates_ok services remaining \<longleftrightarrow>
     (\<forall>s p. bt_get remaining s = Some p \<longrightarrow> sh_service p = s \<and> (\<exists>d. table_definition services s = Some d))"

definition waves_ordered :: "service_table \<Rightarrow> string set \<Rightarrow> string list list \<Rightarrow> bool" where
  "waves_ordered services participants waves \<longleftrightarrow>
     (\<forall>wave\<in>set waves. wave \<noteq> []) \<and> distinct (concat waves) \<and> set (concat waves) = participants
     \<and> (\<forall>i<length waves. \<forall>s\<in>set (waves ! i). \<forall>x\<in>participants.
          must_stop_before services x s \<longrightarrow> (\<exists>j<i. x \<in> set (waves ! j)))"

lemma waves_ordered_Cons:
  assumes "wave \<noteq> []" "distinct wave" "set wave \<subseteq> participants"
    and "\<forall>s\<in>set wave. \<forall>x\<in>participants. \<not> must_stop_before services x s"
    and rest: "waves_ordered services (participants - set wave) waves"
  shows "waves_ordered services participants (wave # waves)"
proof -
  have "\<exists>j<i. x \<in> set ((wave # waves) ! j)"
    if "i < length (wave # waves)" "s \<in> set ((wave # waves) ! i)" "x \<in> participants"
      "must_stop_before services x s" for i s x
  proof (cases i)
    case 0
    then show ?thesis using that assms(4) by auto
  next
    case (Suc k)
    show ?thesis
    proof (cases "x \<in> set wave")
      case True
      then show ?thesis using Suc by (intro exI [of _ 0]) simp
    next
      case False
      then have "x \<in> participants - set wave" using that(3) by simp
      moreover have "k < length waves" "s \<in> set (waves ! k)" using that(1,2) Suc by simp_all
      ultimately have "\<exists>j<k. x \<in> set (waves ! j)"
        using rest that(4) unfolding waves_ordered_def by blast
      then obtain j where "j < k" "x \<in> set (waves ! j)" by blast
      then show ?thesis using Suc by (intro exI [of _ "Suc j"]) simp
    qed
  qed
  then show ?thesis using assms(1-3) rest by (auto simp: waves_ordered_def)
qed

text \<open>One round of the loop: it stops on a knot, or goes on with fewer services.\<close>

lemma waves_round:
  assumes ok: "candidates_ok services remaining" and some: "remaining \<noteq> bt_empty"
  obtains (knot) "reverse_dependency_waves services remaining = Inl (StopCycle (bt_keys remaining))"
      "\<forall>s\<in>dom (bt_get remaining). \<exists>x\<in>dom (bt_get remaining). must_stop_before services x s"
  | (wave) ready rest where "ready \<noteq> []" "distinct ready" "set ready \<subseteq> dom (bt_get remaining)"
      "\<forall>s\<in>set ready. \<forall>x\<in>dom (bt_get remaining). \<not> must_stop_before services x s"
      "dom (bt_get rest) = dom (bt_get remaining) - set ready" "candidates_ok services rest"
      "reverse_dependency_waves services remaining =
         and_then (reverse_dependency_waves services rest)
           (\<lambda>waves. Inr (map (the \<circ> bt_get remaining) ready # waves))"
      "map (sh_service \<circ> (the \<circ> bt_get remaining)) ready = ready"
proof -
  have "\<forall>s\<in>set (bt_keys remaining). \<exists>d. table_definition services s = Some d"
    using ok by (auto simp: candidates_ok_def set_bt_keys)
  then obtain dependents where deps: "dependents_by_target services (bt_keys remaining) = Inr dependents"
    by (rule dependents_by_target_total)
  let ?ready = "ready_to_stop dependents remaining"
  note ready = set_ready_to_stop [OF deps]
  show ?thesis
  proof (cases "?ready = []")
    case True
    have "reverse_dependency_waves services remaining = Inl (StopCycle (bt_keys remaining))"
      by (subst reverse_dependency_waves.simps) (simp add: deps some True)
    then show ?thesis using knot True ready by auto
  next
    case False
    have sub: "distinct ?ready" "set ?ready \<subseteq> dom (bt_get remaining)"
      using ready by (auto simp: ready_to_stop_def)
    show ?thesis
    proof (rule wave [of ?ready "fold bt_remove ?ready remaining"])
      show "reverse_dependency_waves services remaining =
          and_then (reverse_dependency_waves services (fold bt_remove ?ready remaining))
            (\<lambda>waves. Inr (map (the \<circ> bt_get remaining) ?ready # waves))"
        by (subst reverse_dependency_waves.simps) (simp add: deps some False take_wave_eq [OF sub] Let_def del: reverse_dependency_waves.simps)
      show "\<forall>s\<in>set ?ready. \<forall>x\<in>dom (bt_get remaining). \<not> must_stop_before services x s"
        using ready by blast
      show "dom (bt_get (fold bt_remove ?ready remaining)) = dom (bt_get remaining) - set ?ready"
        by (auto simp: candidates_without split: if_splits)
      show "map (sh_service \<circ> (the \<circ> bt_get remaining)) ?ready = ?ready"
        using ok sub(2) by (intro map_idI) (fastforce simp: candidates_ok_def)
    qed (use False sub ok in \<open>auto simp: candidates_without candidates_ok_def split: if_splits\<close>)
  qed
qed

lemma waves_spec:
  "candidates_ok services remaining \<Longrightarrow>
   case reverse_dependency_waves services remaining of
     Inr waves \<Rightarrow> waves_ordered services (dom (bt_get remaining)) (map (map sh_service) waves)
   | Inl e \<Rightarrow> (\<exists>knot. e = StopCycle knot \<and> knot \<noteq> [] \<and> set knot \<subseteq> dom (bt_get remaining)
       \<and> (\<forall>s\<in>set knot. \<exists>x\<in>set knot. must_stop_before services x s))"
proof (induction "card (dom (bt_get remaining))" arbitrary: remaining rule: less_induct)
  case less
  show ?case
  proof (cases "remaining = bt_empty")
    case True
    then show ?thesis
      by (subst reverse_dependency_waves.simps) (simp add: waves_ordered_def dom_def)
  next
    case False
    from less.prems False show ?thesis
    proof (cases rule: waves_round)
      case knot
      have "bt_keys remaining \<noteq> []" 
      proof
        assume "bt_keys remaining = []"
        then have "dom (bt_get remaining) = {}" using set_bt_keys [of remaining] by simp
        then have "remaining = bt_empty" by (intro btmap_eqI) simp
        with False show False by simp
      qed
      with knot show ?thesis by (auto simp: set_bt_keys simp del: reverse_dependency_waves.simps)
    next
      case (wave ready rest)
      have "card (dom (bt_get rest)) < card (dom (bt_get remaining))"
        using wave(1,3,5) by (intro psubset_card_mono) (auto simp: neq_Nil_conv)
      note IH = less.hyps [OF this wave(6)]
      show ?thesis
      proof (cases "reverse_dependency_waves services rest")
        case (Inl e)
        then show ?thesis
          using IH wave(5,7) by (auto simp del: reverse_dependency_waves.simps)
      next
        case (Inr waves)
        then have "waves_ordered services (dom (bt_get remaining) - set ready) (map (map sh_service) waves)"
          using IH wave(5) by simp
        from waves_ordered_Cons [OF wave(1-4) this] show ?thesis
          using Inr wave(7,8) by (simp add: comp_assoc del: reverse_dependency_waves.simps)
      qed
    qed
  qed
qed

text \<open>The services of a table in given states.\<close>

definition services_in :: "service_table \<Rightarrow> service_state set \<Rightarrow> string set" where
  "services_in services states =
     {s. \<exists>e. bt_get services s = Some e \<and> rt_state (en_runtime e) \<in> states}"

lemma classify_services_spec:
  assumes "set names \<subseteq> dom (bt_get services)" and "candidates_ok services candidates"
  shows "\<exists>completed' starting' candidates' ignored'.
    classify_services services names (completed, starting, candidates, ignored)
      = Inr (completed', starting', candidates', ignored')
    \<and> candidates_ok services candidates'
    \<and> dom (bt_get candidates') = dom (bt_get candidates)
        \<union> set names \<inter> services_in services {Active, Reloading, Stopping}
    \<and> set completed' = set completed \<union> set names \<inter> services_in services {Completed}
    \<and> set starting' = set starting \<union> set names \<inter> services_in services {Starting}"
  using assms
proof (induction names arbitrary: completed starting candidates ignored)
  case (Cons name names)
  then obtain e where e: "bt_get services name = Some e" by auto
  let ?state = "rt_state (en_runtime e)"
  obtain c st ca ig where classes: "classify_service name ?state (completed, starting, candidates, ignored) = (c, st, ca, ig)"
    by (metis prod.exhaust)
  have ok: "candidates_ok services ca"
    using Cons.prems(2) classes e
    by (auto simp: classify_service_def candidates_ok_def table_definition_def split: if_splits)
  have one: "dom (bt_get ca) = dom (bt_get candidates)
        \<union> {name} \<inter> services_in services {Active, Reloading, Stopping}"
    "set c = set completed \<union> {name} \<inter> services_in services {Completed}"
    "set st = set starting \<union> {name} \<inter> services_in services {Starting}"
    using classes e by (auto simp: classify_service_def services_in_def split: if_splits)
  have "classify_services services (name # names) (completed, starting, candidates, ignored)
      = classify_services services names (c, st, ca, ig)"
    using e classes by (simp add: table_runtime_def)
  moreover have "set names \<subseteq> dom (bt_get services)" using Cons.prems(1) by simp
  from Cons.IH [OF this ok, of c st ig] obtain c' st' ca' ig' where
    rest: "classify_services services names (c, st, ca, ig) = Inr (c', st', ca', ig')" "candidates_ok services ca'"
    "dom (bt_get ca') = dom (bt_get ca) \<union> set names \<inter> services_in services {Active, Reloading, Stopping}"
    "set c' = set c \<union> set names \<inter> services_in services {Completed}"
    "set st' = set st \<union> set names \<inter> services_in services {Starting}"
    by (elim exE conjE) (rule that)
  have "dom (bt_get ca') = dom (bt_get candidates)
        \<union> set (name # names) \<inter> services_in services {Active, Reloading, Stopping}"
    "set c' = set completed \<union> set (name # names) \<inter> services_in services {Completed}"
    "set st' = set starting \<union> set (name # names) \<inter> services_in services {Starting}"
    unfolding rest(3-5) one by auto
  ultimately show ?case using rest(1,2) by auto
qed simp

lemma dom_bt_empty: "dom (bt_get bt_empty) = {}"
  by (simp add: dom_def)

text \<open>Presses only count while they are recent.\<close>

lemma record_sigint_recent:
  "set (snd (record_sigint now recent)) \<subseteq> insert now (set recent)
   \<and> (\<forall>pressed \<in> set (snd (record_sigint now recent)). sat_sub now pressed \<le> FORCED_REBOOT_WINDOW_NS)"
  by (auto simp: record_sigint_def Let_def sat_sub_def)

section \<open>Properties\<close>


text \<open>Three services up, \<open>a\<close> requiring \<open>b\<close>, and the compiled-in \<open>registryd\<close>.\<close>

definition running_entry :: "service_definition \<Rightarrow> service_entry" where
  "running_entry d =
     (new_entry d (sd_name d))\<lparr>en_runtime := (runtime_inactive (sd_name d))\<lparr>rt_state := Active\<rparr>\<rparr>"

definition sample_running :: service_table where
  "sample_running =
     fold (\<lambda>d. bt_insert (sd_name d) (running_entry d))
       [compiled_in_registryd, (simple_system_boot ''a'' ''/a'')\<lparr>sd_requires := [''b'']\<rparr>,
        simple_system_boot ''b'' ''/b''] bt_empty"


text \<open>
  A knot can be reached from sound definitions. A running service keeps its old dependencies over a
  reload, one that restarts takes the new ones, so a reload that turns a dependency round leaves
  two running services that each require the other, and the shutdown is refused.
\<close>

definition reversed_dependency :: service_table where
  "reversed_dependency =
     (let t0 = fold (\<lambda>d. bt_insert (sd_name d) (running_entry d))
            [(simple_system_boot ''a'' ''/a'')\<lparr>sd_requires := [''b'']\<rparr>, simple_system_boot ''b'' ''/b'']
            bt_empty;
          t1 = snd (apply_definition_snapshot
            [simple_system_boot ''a'' ''/a'', (simple_system_boot ''b'' ''/b'')\<lparr>sd_requires := [''a'']\<rparr>] t0);
          t2 = snd (transition_service_to_restart_backoff ''b'' ProcessCrash 0 t1);
          t3 = snd (transition_service ''b'' \<lparr>tr_to = Starting, tr_cause = RestartByPolicy\<rparr> t2)
      in snd (transition_service ''b'' \<lparr>tr_to = Active, tr_cause = RestartByPolicy\<rparr> t3))"

lemma reversed_dependency_refuses_shutdown:
  "plan_graceful_shutdown reversed_dependency = Inl (StopCycle [''a'', ''b''])"
  by code_simp

end
