(* ===== verification/Spec2Isabelle.thy ===== *)
theory Spec2Isabelle
  imports Tty Reload_Config Job_Store Graph_Stranding Shutdown
begin

text \<open>
  A verification development of peinit, the first process and service manager of Peios. Paths below
  are relative to the source directory of the crate.

  \<^bold>\<open>The program.\<close> peinit reads service definitions from the registry, validates them as one graph,
  plans a boot, and from then on keeps a table of services, a store of operations (start, stop,
  restart, reload, reset), a store of jobs (the processes) and a store of execution graphs, which
  says which start may go ahead when. A reload of the registry is applied to the table as one
  transaction; a shutdown stops the running services in waves. The supervisor and the runtime join
  these stores to processes, sockets and clocks. The development models the stores and the decisions
  and leaves the joining, which is input and output, out.

  \<^bold>\<open>How the code is written down.\<close> A struct is a record with a prefix of its own (\<open>sd_\<close> definitions,
  \<open>rt_\<close> runtime, \<open>en_\<close> table entries, \<open>jb_\<close> jobs, \<open>op_\<close> operations, \<open>gm_\<close> graph members, and so
  on), an enum a datatype, machine integers words of their width, \<open>usize\<close> \<open>nat\<close>, \<open>String\<close> \<open>string\<close>, a
  \<open>BTreeMap\<close> the type \<open>btmap\<close>, whose entries are listed in key order, a \<open>BTreeSet\<close> an \<open>fset\<close>. \<open>Result\<close> is
  a sum with the error on the left. A method on \<open>&mut self\<close> returns its result with the new state,
  also when it fails, so that what a failed call leaves behind can be seen. Loops are structural
  recursions or functions with a termination proof. Two loops of the boot planner, the one that
  spreads blocked services and the one that searches for an order, return an option, with \<open>None\<close> for
  a loop that does not end, and the lemmas show that they always return; there is no fuel. Strings
  are lists of bytes; lower-casing and debug output are those of ASCII.

  \<^bold>\<open>Theories.\<close>

  \<^item> \<open>Prelude\<close>: results, outcomes, ordered maps, saturating arithmetic, text helpers, the shared
    lemmas.
  \<^item> \<open>Ids\<close> (\<open>ids/\<close>): identifiers, their text and the allocators. Texts parse back, batches are all or
    nothing, identifiers are distinct up to \<open>2 ^ 46\<close>, and exactly when two coincide.
  \<^item> \<open>Service_Definition\<close>, \<open>Dependency\<close> (\<open>service/definition.rs\<close>, \<open>dependency.rs\<close>, \<open>security/\<close>): the
    definition record and the start order of its dependencies, which is complete and ordered or a
    real cycle.
  \<^item> \<open>Runtime\<close> (\<open>service/runtime/\<close>, \<open>restart.rs\<close>): states, allowed transitions, the restart decision.
  \<^item> \<open>Role\<close> (\<open>service/role.rs\<close>): dependencies derived from roles.
  \<^item> \<open>Calendar\<close> (\<open>timer/calendar/parse.rs\<close>): the parser of timer schedules. Whether a time zone
    exists is the parameter \<open>tz_get\<close>.
  \<^item> \<open>Service_Graph\<close> (\<open>service/graph/\<close>): validation. The cycle search is exact, and what validates has
    a start order.
  \<^item> \<open>Cgroup\<close> (\<open>job/cgroup.rs\<close>): cgroup paths, which determine their service and generation.
  \<^item> \<open>Service_Table\<close>, \<open>Service_Reload\<close>, \<open>Tty\<close>, \<open>Reload_Config\<close> (\<open>service/table/\<close>, \<open>service/tty.rs\<close>,
    \<open>control/reload_config/\<close>): the table, its transitions, restart deadlines, leaks and terminals, and
    the reload. Every reachable table keeps its invariant, a reload is one function of each entry,
    and a refused reload changes nothing. What the registry answers is a parameter.
  \<^item> \<open>Active_Index\<close>, \<open>Job\<close>, \<open>Job_Store\<close>, \<open>Operation\<close>, \<open>Operation_Store\<close> (\<open>job/\<close>, \<open>operation/\<close>): the two
    stores. Their indexes are exact, process descriptors are released once, requests are answered
    and queues do not stall.
  \<^item> \<open>Boot_Graph\<close>, \<open>Boot_Plan\<close> (\<open>boot/phase2/\<close>, \<open>operation/store/boot.rs\<close>): planning a boot and its
    dispatch. Planning ends, and a plan is sound.
  \<^item> \<open>Graph_Context\<close>, \<open>Graph_Execution\<close>, \<open>Graph_Runs\<close>, \<open>Graph_Stranding\<close> (\<open>execution/graph/\<close>): execution
    graphs. Lookups never miss, a release starts only ready members within the limit, a failure
    spreads exactly along hard edges; and a start whose dependents are all blocked is never woken.
  \<^item> \<open>Shutdown\<close> (\<open>shutdown/plan.rs\<close>, \<open>model.rs\<close>): the stop waves of a shutdown, which respect the
    dependencies, and the interrupts that count towards a forced reboot.

  The locales are the contracts the components rely on: \<open>id_allocator\<close> for both allocators,
  \<open>entry_operation\<close> for the operations on a table entry, \<open>keyed_step\<close> for the passes of a reload, the
  contracts of an ending operation and of a live index for the stores, \<open>member_operation\<close> and
  \<open>sparing_operation\<close> for the operations on a graph member. Each is interpreted on the definitions
  of the model.

  \<^bold>\<open>Limits of the statements.\<close> Runs of the operation store never call \<open>requeue_behind_head\<close> for the
  head of a list with other operations behind it; \<open>Operation_Store.requeued_head_waits\<close> shows what
  such a call does. Distinctness of identifiers is stated up to \<open>2 ^ 46\<close> of them, where the layout
  runs out of sequence bits. The statements on a boot plan are for plans that are not for recovery,
  which start nothing.

  \<^bold>\<open>Not modelled.\<close> The supervisor, the runtime loop, the boundary of system calls, early boot, the
  sockets and the clients are input and output. The registry client and the civil-time arithmetic
  of timers are libraries the sources only call. Left out as well are the store of submitted jobs,
  the table of kept descriptors, log buffers, the notify parser, the on-demand start planner (whose
  plan is data here) and the steps that start and stop services across the stores. In the modelled
  parts: the SHA-1 service identifier, the PCDS byte order of identifiers, the result codes of
  operations, the classification of registry paths, the boot attempt counters and the display texts
  of a Safe-mode downgrade.
\<close>

section \<open>Planning a boot and dispatching it\<close>

lemma operation_store_new_idle: "op_active_for_service operation_store_new service = []"
  by (simp add: operation_store_new_def op_active_for_service_def bt_get_or_def)

text \<open>
  C14: a boot plan is carried into the operation store. Let the store be one the supervisor can reach,
  such as the one that holds the operation of \<open>registryd\<close> when Phase 2 begins; let the plan not be
  for recovery, its identifiers be new to the store and within \<open>2 ^ 46\<close>, and no planned service
  have a live operation. Then dispatching the plan succeeds: every start has a live pending start
  operation, listed for its service; every blocked service a failed one whose result says why; and
  the operations of the store are as they were.
\<close>

theorem boot_plan_is_dispatched:
  assumes "prepare_phase2_boot_plan_with_retained tz_get mode definitions max_parallel_starts
      observed_at_ns retained undecodable ids = Some (Inr plan, ids')"
    and "mode \<noteq> RecoveryBoot"
    and "unat (oa_next_sequence (fst ids)) + length (bp_starts plan) + length (bp_blocked plan) \<le> 2 ^ 46"
    and "operation_run s0 issued"
    and "(ps_operation_id ` set (bp_starts plan) \<union> bk_operation_id ` set (bp_blocked plan)) \<inter> issued = {}"
    and "\<forall>service \<in> ps_service ` set (bp_starts plan) \<union> bk_service ` set (bp_blocked plan).
      op_active_for_service s0 service = []"
  shows "\<exists>dispatch s. dispatch_phase2_boot_plan plan s0 = (Inr dispatch, s)
    \<and> pd_start_operation_ids dispatch = map ps_operation_id (bp_starts plan)
    \<and> (\<forall>p \<in> set (bp_starts plan). \<exists>r. operation_get s (ps_operation_id p) = Some r
         \<and> op_state r = OpPending \<and> op_type r = OpStart \<and> op_service r = ps_service p
         \<and> ps_operation_id p \<in> set (op_active_for_service s (ps_service p)))
    \<and> (\<forall>b \<in> set (bp_blocked plan). \<exists>r. operation_get s (bk_operation_id b) = Some r
         \<and> op_state r = OpFailed \<and> op_service r = bk_service b
         \<and> op_result r = Some (blocked_failure_message b))
    \<and> (\<forall>oid \<in> issued. operation_get s oid = operation_get s0 oid)"
proof -
  let ?ids = "ps_operation_id ` set (bp_starts plan) \<union> bk_operation_id ` set (bp_blocked plan)"
  let ?services = "ps_service ` set (bp_starts plan) \<union> bk_service ` set (bp_blocked plan)"
  have ids: "distinct (map ps_operation_id (bp_starts plan))" "distinct (map bk_operation_id (bp_blocked plan))"
    "ps_operation_id ` set (bp_starts plan) \<inter> bk_operation_id ` set (bp_blocked plan) = {}"
    and services: "distinct (map ps_service (bp_starts plan))"
    by (rule plan_graph [OF assms(1,2)]; use assms(3) in \<open>auto simp: graph_built_def\<close>)+
  have wf: "operation_store_wf s0" and issued: "only_issued s0 issued"
    using operation_run_invariant [OF assms(4)] by simp_all
  have new: "bt_get (os_records s0) oid = None" "queued_behind s0 x \<noteq> Some oid" if "oid \<in> ?ids" for oid x
    using issued assms(5) that by (auto simp: only_issued_def disjoint_iff)
  have idle: "idle_for ?ids ?services s0"
    using wf new(2) assms(6) active_list(2) [OF wf] unfolding idle_for_def by fastforce
  have fresh: "\<forall>oid \<in> ?ids. bt_get (os_records s0) oid = None" by (intro ballI new(1))
  obtain dispatch s where d: "dispatch_phase2_boot_plan plan s0 = (Inr dispatch, s)"
    "pd_start_operation_ids dispatch = map ps_operation_id (bp_starts plan)"
    "\<forall>p \<in> set (bp_starts plan). \<exists>r. operation_get s (ps_operation_id p) = Some r
       \<and> op_state r = OpPending \<and> op_type r = OpStart \<and> op_service r = ps_service p
       \<and> ps_operation_id p \<in> set (op_active_for_service s (ps_service p))"
    "\<forall>b \<in> set (bp_blocked plan). \<exists>r. operation_get s (bk_operation_id b) = Some r
       \<and> op_state r = OpFailed \<and> op_service r = bk_service b
       \<and> op_result r = Some (blocked_failure_message b)"
    "\<forall>oid. oid \<notin> ?ids \<longrightarrow> operation_get s oid = operation_get s0 oid"
    using dispatch_plan_all [OF idle ids services fresh] by (elim exE conjE) (rule that)
  moreover have "operation_get s oid = operation_get s0 oid" if "oid \<in> issued" for oid
    using d(5) [rule_format, of oid] assms(5) that by blast
  then have "\<forall>oid \<in> issued. operation_get s oid = operation_get s0 oid" by (rule ballI)
  ultimately show ?thesis by (intro exI conjI)
qed

theorem boot_plan_is_dispatched_witness:
  "\<exists>plan ids' dispatch s. sample_boot = Some (Inr plan, ids')
     \<and> dispatch_phase2_boot_plan plan operation_store_new = (Inr dispatch, s)
     \<and> pd_start_operation_ids dispatch = map ps_operation_id (bp_starts plan)
     \<and> length (bp_starts plan) = 2"
proof -
  obtain plan ids' where p: "sample_boot = Some (Inr plan, ids')" "map ps_service (bp_starts plan) = [''b'', ''a'']"
    "map bk_service (bp_blocked plan) = [''c'']"
    using sample_boot_plan by (elim exE conjE) (rule that)
  have "length (bp_starts plan) = 2" "length (bp_blocked plan) = 1"
    using arg_cong [OF p(2), of length] arg_cong [OF p(3), of length] by simp_all
  moreover have mode: "FullBoot \<noteq> RecoveryBoot" by simp
  ultimately have "unat (oa_next_sequence (fst (\<lparr>oa_next_sequence = 0\<rparr>, \<lparr>ja_next_sequence = 0\<rparr>)))
      + length (bp_starts plan) + length (bp_blocked plan) \<le> 2 ^ 46" by simp
  from boot_plan_is_dispatched [OF p(1) [unfolded sample_boot_def] mode this run_new] obtain dispatch s where
    "dispatch_phase2_boot_plan plan operation_store_new = (Inr dispatch, s)"
    "pd_start_operation_ids dispatch = map ps_operation_id (bp_starts plan)"
    using operation_store_new_idle by blast
  then show ?thesis using p(1) \<open>length (bp_starts plan) = 2\<close> by (intro exI conjI)
qed

end
